(* ===== verification/Prelude.thy ===== *)
theory Prelude
  imports Main "HOL-Library.Word" "HOL-Library.Sublist"
begin

unbundle bit_operations_syntax

text \<open>
  Shared vocabulary of the development: the code-unit types of WTF, the ASCII
  classification functions of \<^verbatim>\<open>wtf/ASCIICType.h\<close>, names for the characters the HTML
  tokenizer compares against, WTF strings with their storage width, and the generic
  list and word facts the component theories use.

  \<^item> \<open>uchar\<close> is \<^verbatim>\<open>UChar\<close> (a UTF-16 code unit), \<open>lchar\<close> is \<^verbatim>\<open>LChar\<close>, \<open>uchar32\<close> is the
    signed 32-bit \<^verbatim>\<open>UChar32\<close>.
  \<^item> \<open>narrow\<close> and \<open>widen\<close> are the conversions C++ applies between \<^verbatim>\<open>UChar\<close> and \<^verbatim>\<open>LChar\<close>.
\<close>

section \<open>Code units\<close>

type_synonym uchar = "16 word"
type_synonym lchar = "8 word"
type_synonym uchar32 = "32 word"

definition narrow :: "uchar \<Rightarrow> lchar" where
  "narrow c = ucast c"

definition widen :: "lchar \<Rightarrow> uchar" where
  "widen c = ucast c"

abbreviation c_NUL :: uchar where "c_NUL \<equiv> 0"
abbreviation c_TAB :: uchar where "c_TAB \<equiv> 0x09"
abbreviation c_LF :: uchar where "c_LF \<equiv> 0x0A"
abbreviation c_FF :: uchar where "c_FF \<equiv> 0x0C"
abbreviation c_CR :: uchar where "c_CR \<equiv> 0x0D"
abbreviation c_space :: uchar where "c_space \<equiv> 0x20"
abbreviation c_bang :: uchar where "c_bang \<equiv> 0x21"
abbreviation c_quot :: uchar where "c_quot \<equiv> 0x22"
abbreviation c_hash :: uchar where "c_hash \<equiv> 0x23"
abbreviation c_amp :: uchar where "c_amp \<equiv> 0x26"
abbreviation c_apos :: uchar where "c_apos \<equiv> 0x27"
abbreviation c_dash :: uchar where "c_dash \<equiv> 0x2D"
abbreviation c_slash :: uchar where "c_slash \<equiv> 0x2F"
abbreviation c_semi :: uchar where "c_semi \<equiv> 0x3B"
abbreviation c_lt :: uchar where "c_lt \<equiv> 0x3C"
abbreviation c_eq :: uchar where "c_eq \<equiv> 0x3D"
abbreviation c_gt :: uchar where "c_gt \<equiv> 0x3E"
abbreviation c_quest :: uchar where "c_quest \<equiv> 0x3F"
abbreviation c_lbrack :: uchar where "c_lbrack \<equiv> 0x5B"
abbreviation c_rbrack :: uchar where "c_rbrack \<equiv> 0x5D"
abbreviation c_grave :: uchar where "c_grave \<equiv> 0x60"

text \<open>\<^verbatim>\<open>wtf/unicode/CharacterNames.h\<close>: U+FFFD.\<close>

abbreviation replacementCharacter :: uchar where "replacementCharacter \<equiv> 0xFFFD"

text \<open>The code units of an ASCII string literal of the source.\<close>

definition ascii :: "string \<Rightarrow> uchar list" where
  "ascii s = map (\<lambda>c. of_nat (of_char c)) s"

section \<open>wtf/ASCIICType.h\<close>

definition isASCII :: "uchar \<Rightarrow> bool" where
  "isASCII c \<longleftrightarrow> c AND NOT 0x7F = 0"

definition isASCIIAlpha :: "uchar \<Rightarrow> bool" where
  "isASCIIAlpha c \<longleftrightarrow> c OR 0x20 \<ge> 0x61 \<and> c OR 0x20 \<le> 0x7A"

definition isASCIIDigit :: "uchar \<Rightarrow> bool" where
  "isASCIIDigit c \<longleftrightarrow> c \<ge> 0x30 \<and> c \<le> 0x39"

definition isASCIIAlphanumeric :: "uchar \<Rightarrow> bool" where
  "isASCIIAlphanumeric c \<longleftrightarrow> isASCIIDigit c \<or> isASCIIAlpha c"

definition isASCIIHexDigit :: "uchar \<Rightarrow> bool" where
  "isASCIIHexDigit c \<longleftrightarrow> isASCIIDigit c \<or> (c OR 0x20 \<ge> 0x61 \<and> c OR 0x20 \<le> 0x66)"

definition isASCIIUpper :: "uchar \<Rightarrow> bool" where
  "isASCIIUpper c \<longleftrightarrow> c \<ge> 0x41 \<and> c \<le> 0x5A"

definition toASCIILower :: "uchar \<Rightarrow> uchar" where
  "toASCIILower c = c OR (if isASCIIUpper c then 0x20 else 0)"

definition toASCIILowerUnchecked :: "uchar \<Rightarrow> uchar" where
  "toASCIILowerUnchecked c = c OR 0x20"

definition toASCIIHexValue :: "uchar \<Rightarrow> uchar32" where
  "toASCIIHexValue c = (if c < 0x41 then ucast (c - 0x30) else ucast ((c - 0x41 + 10) AND 0xF))"

definition isASCIIAlphaCaselessEqual :: "uchar \<Rightarrow> uchar \<Rightarrow> bool" where
  "isASCIIAlphaCaselessEqual c l \<longleftrightarrow> toASCIILowerUnchecked c = l"

section \<open>WTF strings\<close>

text \<open>
  A \<^verbatim>\<open>WTF::String\<close> is a sequence of code units together with the width of its storage;
  an 8-bit string holds code units up to U+00FF, zero-extended here.
\<close>

datatype wtf_string = WString (is8Bit_str: bool) (chars: "uchar list")

text \<open>\<^verbatim>\<open>StringBuilder::toString\<close>: 8-bit storage as long as every appended unit fits.\<close>

definition builderString :: "uchar list \<Rightarrow> wtf_string" where
  "builderString cs = WString (list_all (\<lambda>c. c \<le> 0xFF) cs) cs"

definition string_ok :: "wtf_string \<Rightarrow> bool" where
  "string_ok s \<longleftrightarrow> is8Bit_str s \<longrightarrow> (\<forall>c\<in>set (chars s). c \<le> 0xFF)"

section \<open>Code points\<close>

text \<open>The ICU macros of \<^verbatim>\<open>unicode/utf.h\<close> and \<^verbatim>\<open>unicode/utf16.h\<close>.\<close>

definition isSurrogate :: "uchar32 \<Rightarrow> bool" where
  "isSurrogate c \<longleftrightarrow> c AND 0xFFFFF800 = 0xD800"

definition U16_LEAD :: "uchar32 \<Rightarrow> uchar" where
  "U16_LEAD c = ucast (drop_bit 10 c + 0xD7C0)"

definition U16_TRAIL :: "uchar32 \<Rightarrow> uchar" where
  "U16_TRAIL c = ucast ((c AND 0x3FF) OR 0xDC00)"

text \<open>\<^verbatim>\<open>StringBuilder::append(UChar32)\<close>: the code units of a code point.\<close>

definition append32 :: "uchar32 \<Rightarrow> uchar list" where
  "append32 c = (if c \<le> 0xFFFF then [ucast c] else [U16_LEAD c, U16_TRAIL c])"

section \<open>Shared facts\<close>

text \<open>
  The case-folding functions set bit 5 of a code unit. On the value of the word that is an
  addition of 32 exactly when the bit is clear, which turns the range tests of
  \<^verbatim>\<open>ASCIICType.h\<close> into linear arithmetic.
\<close>

lemma nat_or_32: "(n::nat) OR 32 = (if odd (n div 32) then n else n + 32)"
proof -
  have eq: "n OR 32 = set_bit 5 n"
    by (simp add: set_bit_eq_or)
  show ?thesis
  proof (cases "bit n 5")
    case True
    then have "set_bit 5 n = n"
      by (intro bit_eqI) (auto simp: bit_set_bit_iff)
    with True eq show ?thesis by (simp add: bit_iff_odd)
  next
    case False
    then have "set_bit 5 n = n + 32"
      by (simp add: set_bit_eq)
    with False eq show ?thesis by (simp add: bit_iff_odd)
  qed
qed

lemma unat_or_0x20:
  "unat (c OR 0x20 :: uchar) = (if odd (unat c div 32) then unat c else unat c + 32)"
  by (simp add: unsigned_or_eq nat_or_32)

lemma or_0x20_range:
  fixes n lo hi :: nat
  assumes "97 \<le> lo" and "hi \<le> 127"
  shows "(lo \<le> (if odd (n div 32) then n else n + 32) \<and> (if odd (n div 32) then n else n + 32) \<le> hi)
    \<longleftrightarrow> (lo \<le> n + 32 \<and> n + 32 \<le> hi) \<or> (lo \<le> n \<and> n \<le> hi)"
proof -
  consider "n < 64" | "64 \<le> n \<and> n < 96" | "96 \<le> n \<and> n < 128" | "128 \<le> n"
    by linarith
  then show ?thesis
  proof cases
    case 1
    with assms show ?thesis by auto
  next
    case 2
    then have "n div 32 = 2" by linarith
    with 2 assms show ?thesis by auto
  next
    case 3
    then have "n div 32 = 3" by linarith
    with 3 assms show ?thesis by auto
  next
    case 4
    with assms show ?thesis by auto
  qed
qed

lemma isASCIIAlpha_iff:
  "isASCIIAlpha c \<longleftrightarrow> (0x41 \<le> c \<and> c \<le> 0x5A) \<or> (0x61 \<le> c \<and> c \<le> 0x7A)"
  unfolding isASCIIAlpha_def word_le_nat_alt unat_or_0x20
  by (subst or_0x20_range) auto

lemma isASCIIHexDigit_iff:
  "isASCIIHexDigit c \<longleftrightarrow> isASCIIDigit c \<or> (0x41 \<le> c \<and> c \<le> 0x46) \<or> (0x61 \<le> c \<and> c \<le> 0x66)"
proof -
  have "(c OR 0x20 \<ge> 0x61 \<and> c OR 0x20 \<le> 0x66) \<longleftrightarrow>
      (0x41 \<le> c \<and> c \<le> 0x46) \<or> (0x61 \<le> c \<and> c \<le> 0x66)"
    unfolding word_le_nat_alt unat_or_0x20 by (subst or_0x20_range) auto
  then show ?thesis by (simp add: isASCIIHexDigit_def)
qed

lemma toASCIILowerUnchecked_range:
  "isASCIIAlpha c \<Longrightarrow> 0x61 \<le> toASCIILowerUnchecked c \<and> toASCIILowerUnchecked c \<le> 0x7A"
  by (simp add: isASCIIAlpha_def toASCIILowerUnchecked_def)

lemma isASCIIUpper_div: "isASCIIUpper c \<Longrightarrow> unat c div 32 = 2"
  unfolding isASCIIUpper_def word_le_nat_alt by simp linarith

lemma unat_toASCIILower: "unat (toASCIILower c) = (if isASCIIUpper c then unat c + 32 else unat c)"
  by (auto simp: toASCIILower_def unat_or_0x20 dest: isASCIIUpper_div)

lemma toASCIILower_not_upper [simp]: "\<not> isASCIIUpper (toASCIILower c)"
  using unat_toASCIILower [of c] by (auto simp: isASCIIUpper_def word_le_nat_alt split: if_splits)

lemma toASCIILower_eq_0 [simp]: "toASCIILower c = 0 \<longleftrightarrow> c = 0"
  using unat_toASCIILower [of c] by (auto simp: word_unat_eq_iff isASCIIUpper_def word_le_nat_alt split: if_splits)

lemma not_isASCIIAlpha_0 [simp]: "\<not> isASCIIAlpha 0"
  by (simp add: isASCIIAlpha_iff)

lemma and_not_mask_nat: "c AND NOT (mask k) = of_nat (2 ^ k * (unat c div 2 ^ k))" for c :: "'a :: len word"
proof -
  have "c AND NOT (mask k) = push_bit k (drop_bit k c)"
    by (rule bit_eqI) (auto simp: bit_simps)
  also have "\<dots> = push_bit k (of_nat (unat (drop_bit k c)))" by simp
  also have "\<dots> = of_nat (2 ^ k * (unat c div 2 ^ k))"
    unfolding push_bit_of_nat [symmetric] unat_drop_bit_eq
    by (simp add: push_bit_eq_mult drop_bit_eq_div mult.commute)
  finally show ?thesis .
qed

lemma isASCII_iff: "isASCII c \<longleftrightarrow> unat c < 128"
proof -
  have "c AND NOT 0x7F = c AND NOT (mask 7)" by (simp add: mask_eq_exp_minus_1)
  then have "isASCII c \<longleftrightarrow> (of_nat (128 * (unat c div 128)) :: uchar) = 0"
    by (simp add: isASCII_def and_not_mask_nat)
  also have "\<dots> \<longleftrightarrow> 128 * (unat c div 128) = 0"
  proof -
    have "128 * (unat c div 128) < 2 ^ 16"
      using unsigned_less [of c, where ?'a = nat] times_div_less_eq_dividend [of 128 "unat c"] by simp
    moreover have "n < 2 ^ 16 \<Longrightarrow> (of_nat n :: uchar) = 0 \<longleftrightarrow> n = 0" for n
      by (auto simp: word_of_nat_eq_0_iff dest: dvd_imp_le)
    ultimately show ?thesis by blast
  qed
  also have "\<dots> \<longleftrightarrow> unat c < 128" by auto
  finally show ?thesis .
qed

lemma isASCII_alpha: "isASCIIAlpha c \<Longrightarrow> isASCII c"
  by (auto simp: isASCIIAlpha_iff isASCII_iff word_le_nat_alt)

lemma unat_widen_narrow: "unat c < 256 \<Longrightarrow> unat (widen (narrow c)) = unat c"
  by (simp add: narrow_def widen_def unsigned_ucast_eq unsigned_take_bit_eq take_bit_nat_eq_self)

lemma of_nat_inj_32: "a < 2 ^ 32 \<Longrightarrow> b < 2 ^ 32 \<Longrightarrow> (of_nat a :: uchar32) = of_nat b \<longleftrightarrow> a = b"
  by (simp add: word_of_nat_eq_iff take_bit_eq_mod)

lemma and_not_mask_eq:
  fixes c :: uchar32
  assumes "m < 2 ^ 32"
  shows "c AND NOT (mask k) = of_nat m \<longleftrightarrow> 2 ^ k * (unat c div 2 ^ k) = m"
proof -
  have "2 ^ k * (unat c div 2 ^ k) \<le> unat c" by (rule times_div_less_eq_dividend)
  also have "unat c < 2 ^ 32" using unsigned_less [of c, where ?'a = nat] by simp
  finally have "2 ^ k * (unat c div 2 ^ k) < 2 ^ 32" .
  from of_nat_inj_32 [OF this assms] show ?thesis unfolding and_not_mask_nat .
qed

lemma isSurrogate_iff: "isSurrogate c \<longleftrightarrow> 0xD800 \<le> unat c \<and> unat c \<le> 0xDFFF"
proof -
  have "(0xFFFFF800 :: uchar32) = NOT (mask 11)" by code_simp
  then have "isSurrogate c \<longleftrightarrow> c AND NOT (mask 11) = of_nat 0xD800"
    by (simp add: isSurrogate_def)
  also have "\<dots> \<longleftrightarrow> 2 ^ 11 * (unat c div 2 ^ 11) = 0xD800"
    by (rule and_not_mask_eq) simp
  also have "\<dots> \<longleftrightarrow> unat c div 2048 = 27" by simp
  also have "\<dots> \<longleftrightarrow> 0xD800 \<le> unat c \<and> unat c \<le> 0xDFFF" by auto
  finally show ?thesis .
qed

end
