(* ===== verification/Segmented_String.thy ===== *)
theory Segmented_String
  imports Prelude
begin

text \<open>
  The character source of the HTML parser: \<^verbatim>\<open>platform/text/SegmentedString.h\<close> and
  \<^verbatim>\<open>SegmentedString.cpp\<close>. A segmented string is a current substring, a queue of further
  substrings and up to two pushed-back characters; it caches its current character and
  selects its advance routine through two member-function pointers and a flag byte.

  Modelling choices.
  \<^item> A substring keeps its \<^verbatim>\<open>String\<close> and the character pointer of \<^verbatim>\<open>m_data\<close> as an offset into
    it (\<open>None\<close> is the null pointer); \<^verbatim>\<open>m_length\<close> is the number of characters left.
  \<^item> \<^verbatim>\<open>int\<close> counters are unbounded integers; WTF strings are shorter than \<^verbatim>\<open>2^31\<close> units.
  \<^item> The two last fields of the state record what a checked build observes:
    \<open>assertsHold\<close> is the conjunction of all \<^verbatim>\<open>ASSERT\<close>s executed so far and
    \<open>readsInBounds\<close> says that every character pointer read so far was inside its string.
    No operation's other results depend on them.
  \<^item> \<^verbatim>\<open>u_foldCase\<close> (ICU) is the argument \<open>fold\<close> of the case-insensitive operations.
\<close>

section \<open>Data\<close>

record SegmentedSubstring =
  m_string :: wtf_string
  m_dataPtr :: "nat option"
  m_length :: int
  m_doNotExcludeLineNumbers :: bool
  m_is8Bit :: bool

datatype member_function =
    F_advanceEmpty
  | F_advance8
  | F_advance16
  | F_advanceSlowCase
  | F_advanceAndUpdateLineNumber8
  | F_advanceAndUpdateLineNumber16
  | F_advanceAndUpdateLineNumberSlowCase

record SegmentedString =
  m_pushedChar1 :: uchar
  m_pushedChar2 :: uchar
  m_currentString :: SegmentedSubstring
  m_currentChar :: uchar
  m_numberOfCharactersConsumedPriorToCurrentString :: int
  m_numberOfCharactersConsumedPriorToCurrentLine :: int
  m_currentLine :: int
  m_substrings :: "SegmentedSubstring list"
  m_closed :: bool
  m_empty :: bool
  m_fastPathFlags :: "8 word"
  m_advanceFunc :: member_function
  m_advanceAndUpdateLineNumberFunc :: member_function
  assertsHold :: bool
  readsInBounds :: bool

datatype AdvancePastResult = DidNotMatch | DidMatch | NotEnoughCharacters

abbreviation NoFastPath :: "8 word" where "NoFastPath \<equiv> 0"
abbreviation Use8BitAdvanceAndUpdateLineNumbers :: "8 word" where
  "Use8BitAdvanceAndUpdateLineNumbers \<equiv> 1"
abbreviation Use8BitAdvance :: "8 word" where "Use8BitAdvance \<equiv> 2"

section \<open>SegmentedSubstring\<close>

definition emptySubstring :: SegmentedSubstring where
  "emptySubstring = \<lparr>m_string = WString True [], m_dataPtr = None, m_length = 0,
     m_doNotExcludeLineNumbers = True, m_is8Bit = False\<rparr>"

definition substringOf :: "wtf_string \<Rightarrow> SegmentedSubstring" where
  "substringOf str =
     (if chars str \<noteq> []
      then \<lparr>m_string = str, m_dataPtr = Some 0, m_length = int (length (chars str)),
             m_doNotExcludeLineNumbers = True, m_is8Bit = is8Bit_str str\<rparr>
      else \<lparr>m_string = str, m_dataPtr = None, m_length = 0,
             m_doNotExcludeLineNumbers = True, m_is8Bit = False\<rparr>)"

definition clearSubstring :: "SegmentedSubstring \<Rightarrow> SegmentedSubstring" where
  "clearSubstring x = x\<lparr>m_length := 0, m_dataPtr := None, m_is8Bit := False\<rparr>"

definition setExcludeLineNumbersSub :: "SegmentedSubstring \<Rightarrow> SegmentedSubstring" where
  "setExcludeLineNumbersSub x = x\<lparr>m_doNotExcludeLineNumbers := False\<rparr>"

definition stringLength :: "SegmentedSubstring \<Rightarrow> int" where
  "stringLength x = int (length (chars (m_string x)))"

definition numberOfCharactersConsumedSub :: "SegmentedSubstring \<Rightarrow> int" where
  "numberOfCharactersConsumedSub x = stringLength x - m_length x"

text \<open>\<^verbatim>\<open>appendTo\<close>: what the substring contributes to a string builder.\<close>

definition appendTo :: "SegmentedSubstring \<Rightarrow> uchar list" where
  "appendTo x =
     (let offset = stringLength x - m_length x in
      if offset = 0 then (if m_length x \<noteq> 0 then chars (m_string x) else [])
      else take (nat (m_length x)) (drop (nat offset) (chars (m_string x))))"

text \<open>
  \<^verbatim>\<open>getCurrentChar8\<close> dereferences its pointer, \<^verbatim>\<open>getCurrentChar16\<close> yields 0 for the null
  pointer; \<open>readable\<close> is the condition under which the dereference is in bounds.
\<close>

definition getCurrentChar :: "SegmentedSubstring \<Rightarrow> uchar" where
  "getCurrentChar x =
     (case m_dataPtr x of
        None \<Rightarrow> 0
      | Some p \<Rightarrow> if p < length (chars (m_string x)) then chars (m_string x) ! p else 0)"

definition readable :: "SegmentedSubstring \<Rightarrow> bool" where
  "readable x \<longleftrightarrow>
     (case m_dataPtr x of
        None \<Rightarrow> \<not> m_is8Bit x
      | Some p \<Rightarrow> p < length (chars (m_string x)))"

definition incrementPtr :: "SegmentedSubstring \<Rightarrow> SegmentedSubstring" where
  "incrementPtr x = x\<lparr>m_dataPtr := map_option Suc (m_dataPtr x)\<rparr>"

definition currentSubString :: "SegmentedSubstring \<Rightarrow> nat \<Rightarrow> wtf_string" where
  "currentSubString x len =
     (let offset = nat (stringLength x - m_length x) in
      WString (is8Bit_str (m_string x)) (take len (drop offset (chars (m_string x)))))"

section \<open>Construction, copying and simple queries\<close>

definition emptySegmentedString :: SegmentedString where
  "emptySegmentedString =
     \<lparr>m_pushedChar1 = 0, m_pushedChar2 = 0, m_currentString = emptySubstring,
      m_currentChar = 0, m_numberOfCharactersConsumedPriorToCurrentString = 0,
      m_numberOfCharactersConsumedPriorToCurrentLine = 0, m_currentLine = 0,
      m_substrings = [], m_closed = False, m_empty = True, m_fastPathFlags = NoFastPath,
      m_advanceFunc = F_advanceEmpty, m_advanceAndUpdateLineNumberFunc = F_advanceEmpty,
      assertsHold = True, readsInBounds = True\<rparr>"

definition assertSS :: "bool \<Rightarrow> SegmentedString \<Rightarrow> SegmentedString" where
  "assertSS P s = s\<lparr>assertsHold := assertsHold s \<and> P\<rparr>"

definition isComposite :: "SegmentedString \<Rightarrow> bool" where
  "isComposite s \<longleftrightarrow> m_substrings s \<noteq> []"

definition updateSlowCaseFunctionPointers :: "SegmentedString \<Rightarrow> SegmentedString" where
  "updateSlowCaseFunctionPointers s =
     s\<lparr>m_fastPathFlags := NoFastPath, m_advanceFunc := F_advanceSlowCase,
       m_advanceAndUpdateLineNumberFunc := F_advanceAndUpdateLineNumberSlowCase\<rparr>"

definition setEmptyFunctionPointers :: "SegmentedString \<Rightarrow> SegmentedString" where
  "setEmptyFunctionPointers s =
     s\<lparr>m_fastPathFlags := NoFastPath, m_advanceFunc := F_advanceEmpty,
       m_advanceAndUpdateLineNumberFunc := F_advanceEmpty\<rparr>"

definition updateAdvanceFunctionPointers :: "SegmentedString \<Rightarrow> SegmentedString" where
  "updateAdvanceFunctionPointers s =
     (let x = m_currentString s in
      if m_length x > 1 \<and> m_pushedChar1 s = 0
      then if m_is8Bit x
           then if m_doNotExcludeLineNumbers x
                then s\<lparr>m_advanceFunc := F_advance8,
                       m_advanceAndUpdateLineNumberFunc := F_advanceAndUpdateLineNumber8,
                       m_fastPathFlags := Use8BitAdvance OR Use8BitAdvanceAndUpdateLineNumbers\<rparr>
                else s\<lparr>m_advanceFunc := F_advance8,
                       m_advanceAndUpdateLineNumberFunc := F_advance8,
                       m_fastPathFlags := Use8BitAdvance\<rparr>
           else if m_doNotExcludeLineNumbers x
                then s\<lparr>m_advanceFunc := F_advance16, m_fastPathFlags := NoFastPath,
                       m_advanceAndUpdateLineNumberFunc := F_advanceAndUpdateLineNumber16\<rparr>
                else s\<lparr>m_advanceFunc := F_advance16, m_fastPathFlags := NoFastPath,
                       m_advanceAndUpdateLineNumberFunc := F_advance16\<rparr>
      else updateSlowCaseFunctionPointers
             (if m_length x = 0 \<and> \<not> isComposite s then setEmptyFunctionPointers s else s))"

text \<open>
  \<^verbatim>\<open>m_currentChar\<close> takes the character under the pointer, with the read recorded;
  \<^verbatim>\<open>SegmentedSubstring::getCurrentChar\<close> asserts that characters are left.
\<close>

definition readCurrentChar :: "SegmentedString \<Rightarrow> SegmentedString" where
  "readCurrentChar s =
     s\<lparr>m_currentChar := getCurrentChar (m_currentString s),
       readsInBounds := readsInBounds s \<and> readable (m_currentString s)\<rparr>"

definition loadCurrentChar :: "SegmentedString \<Rightarrow> SegmentedString" where
  "loadCurrentChar s = readCurrentChar (assertSS (m_length (m_currentString s) \<noteq> 0) s)"

text \<open>\<^verbatim>\<open>m_currentChar = m_currentString.m_length ? m_currentString.getCurrentChar() : 0\<close>.\<close>

definition reloadCurrentChar :: "SegmentedString \<Rightarrow> SegmentedString" where
  "reloadCurrentChar s =
     (if m_length (m_currentString s) \<noteq> 0 then loadCurrentChar s else s\<lparr>m_currentChar := 0\<rparr>)"

definition segmentedStringOf :: "wtf_string \<Rightarrow> SegmentedString" where
  "segmentedStringOf str =
     (let s = emptySegmentedString\<lparr>m_currentString := substringOf str, m_empty := (chars str = [])\<rparr> in
      updateAdvanceFunctionPointers
        (if m_length (m_currentString s) \<noteq> 0 then loadCurrentChar s else s))"

definition copySegmentedString :: "SegmentedString \<Rightarrow> SegmentedString" where
  "copySegmentedString other =
     (if m_pushedChar2 other \<noteq> 0 then other\<lparr>m_currentChar := m_pushedChar2 other\<rparr>
      else if m_pushedChar1 other \<noteq> 0 then other\<lparr>m_currentChar := m_pushedChar1 other\<rparr>
      else reloadCurrentChar other)"

text \<open>\<^verbatim>\<open>operator=\<close>: every field is taken from \<open>other\<close> and the current character recomputed.\<close>

definition assignSegmentedString :: "SegmentedString \<Rightarrow> SegmentedString \<Rightarrow> SegmentedString" where
  "assignSegmentedString other s =
     (let s = s\<lparr>m_pushedChar1 := m_pushedChar1 other, m_pushedChar2 := m_pushedChar2 other,
                m_currentString := m_currentString other, m_substrings := m_substrings other\<rparr>;
          s = (if m_pushedChar2 s \<noteq> 0 then s\<lparr>m_currentChar := m_pushedChar2 s\<rparr>
               else if m_pushedChar1 s \<noteq> 0 then s\<lparr>m_currentChar := m_pushedChar1 s\<rparr>
               else reloadCurrentChar s)
      in s\<lparr>m_closed := m_closed other, m_empty := m_empty other,
           m_fastPathFlags := m_fastPathFlags other,
           m_numberOfCharactersConsumedPriorToCurrentString :=
             m_numberOfCharactersConsumedPriorToCurrentString other,
           m_numberOfCharactersConsumedPriorToCurrentLine :=
             m_numberOfCharactersConsumedPriorToCurrentLine other,
           m_currentLine := m_currentLine other, m_advanceFunc := m_advanceFunc other,
           m_advanceAndUpdateLineNumberFunc := m_advanceAndUpdateLineNumberFunc other\<rparr>)"

definition isEmpty :: "SegmentedString \<Rightarrow> bool" where
  "isEmpty s = m_empty s"

definition isClosed :: "SegmentedString \<Rightarrow> bool" where
  "isClosed s = m_closed s"

definition currentChar :: "SegmentedString \<Rightarrow> uchar" where
  "currentChar s = m_currentChar s"

definition pushedCount :: "SegmentedString \<Rightarrow> int" where
  "pushedCount s =
     (if m_pushedChar1 s \<noteq> 0 then (if m_pushedChar2 s \<noteq> 0 then 2 else 1) else 0)"

definition lengthSS :: "SegmentedString \<Rightarrow> int" where
  "lengthSS s = m_length (m_currentString s) + pushedCount s
     + sum_list (map m_length (m_substrings s))"

definition numberOfCharactersConsumed :: "SegmentedString \<Rightarrow> int" where
  "numberOfCharactersConsumed s =
     m_numberOfCharactersConsumedPriorToCurrentString s
     + numberOfCharactersConsumedSub (m_currentString s) - pushedCount s"

definition currentLine :: "SegmentedString \<Rightarrow> int" where
  "currentLine s = m_currentLine s"

definition currentColumn :: "SegmentedString \<Rightarrow> int" where
  "currentColumn s =
     numberOfCharactersConsumed s - m_numberOfCharactersConsumedPriorToCurrentLine s"

definition setCurrentPosition :: "int \<Rightarrow> int \<Rightarrow> int \<Rightarrow> SegmentedString \<Rightarrow> SegmentedString" where
  "setCurrentPosition line columnAfterProlog prologLength s =
     s\<lparr>m_currentLine := line,
       m_numberOfCharactersConsumedPriorToCurrentLine :=
         numberOfCharactersConsumed s + prologLength - columnAfterProlog\<rparr>"

definition toStringSS :: "SegmentedString \<Rightarrow> uchar list" where
  "toStringSS s =
     (if m_pushedChar1 s \<noteq> 0
      then m_pushedChar1 s # (if m_pushedChar2 s \<noteq> 0 then [m_pushedChar2 s] else [])
      else [])
     @ appendTo (m_currentString s) @ concat (map appendTo (m_substrings s))"

definition setExcludeLineNumbers :: "SegmentedString \<Rightarrow> SegmentedString" where
  "setExcludeLineNumbers s =
     s\<lparr>m_currentString := setExcludeLineNumbersSub (m_currentString s),
       m_substrings := map setExcludeLineNumbersSub (m_substrings s)\<rparr>"

definition clearSS :: "SegmentedString \<Rightarrow> SegmentedString" where
  "clearSS s =
     s\<lparr>m_pushedChar1 := 0, m_pushedChar2 := 0, m_currentChar := 0,
       m_currentString := clearSubstring (m_currentString s),
       m_numberOfCharactersConsumedPriorToCurrentString := 0,
       m_numberOfCharactersConsumedPriorToCurrentLine := 0, m_currentLine := 0,
       m_substrings := [], m_closed := False, m_empty := True,
       m_fastPathFlags := NoFastPath, m_advanceFunc := F_advanceEmpty,
       m_advanceAndUpdateLineNumberFunc := F_advanceEmpty\<rparr>"

definition closeSS :: "SegmentedString \<Rightarrow> SegmentedString" where
  "closeSS s = (assertSS (\<not> m_closed s) s)\<lparr>m_closed := True\<rparr>"

definition push :: "uchar \<Rightarrow> SegmentedString \<Rightarrow> SegmentedString" where
  "push c s =
     (if m_pushedChar1 s = 0
      then updateSlowCaseFunctionPointers
             (let s' = s\<lparr>m_pushedChar1 := c\<rparr> in
              if c \<noteq> 0 then s'\<lparr>m_currentChar := c\<rparr> else loadCurrentChar s')
      else (assertSS (m_pushedChar2 s = 0) s)\<lparr>m_pushedChar2 := c\<rparr>)"

section \<open>Appending and pushing back\<close>

definition appendSubstring :: "SegmentedSubstring \<Rightarrow> SegmentedString \<Rightarrow> SegmentedString" where
  "appendSubstring x s0 =
     (let s = assertSS (\<not> m_closed s0) s0 in
      if m_length x = 0 then s
      else if m_length (m_currentString s) = 0
      then (updateAdvanceFunctionPointers
             (s\<lparr>m_numberOfCharactersConsumedPriorToCurrentString :=
                  m_numberOfCharactersConsumedPriorToCurrentString s
                  + numberOfCharactersConsumedSub (m_currentString s),
                m_currentString := x\<rparr>))\<lparr>m_empty := False\<rparr>
      else s\<lparr>m_substrings := m_substrings s @ [x], m_empty := False\<rparr>)"

definition pushBackSubstring :: "SegmentedSubstring \<Rightarrow> SegmentedString \<Rightarrow> SegmentedString" where
  "pushBackSubstring x s0 =
     (let s = assertSS (m_pushedChar1 s0 = 0 \<and> numberOfCharactersConsumedSub x = 0) s0 in
      if m_length x = 0 then s
      else let s = s\<lparr>m_numberOfCharactersConsumedPriorToCurrentString :=
                       m_numberOfCharactersConsumedPriorToCurrentString s
                       + numberOfCharactersConsumedSub (m_currentString s) - m_length x\<rparr>
           in (if m_length (m_currentString s) = 0
               then updateAdvanceFunctionPointers (s\<lparr>m_currentString := x\<rparr>)
               else updateAdvanceFunctionPointers
                      (s\<lparr>m_substrings := m_currentString s # m_substrings s,
                         m_currentString := x\<rparr>))\<lparr>m_empty := False\<rparr>)"

definition loadAfterAppend :: "SegmentedString \<Rightarrow> SegmentedString" where
  "loadAfterAppend s =
     (if m_pushedChar1 s \<noteq> 0 then s\<lparr>m_currentChar := m_pushedChar1 s\<rparr> else reloadCurrentChar s)"

definition appendSS :: "SegmentedString \<Rightarrow> SegmentedString \<Rightarrow> SegmentedString" where
  "appendSS other s0 =
     (let s = assertSS (\<not> m_closed s0 \<and> m_pushedChar1 other = 0) s0
      in loadAfterAppend
           (fold appendSubstring (m_substrings other)
             (appendSubstring (m_currentString other) s)))"

definition pushBackSS :: "SegmentedString \<Rightarrow> SegmentedString \<Rightarrow> SegmentedString" where
  "pushBackSS other s0 =
     (let s = assertSS (m_pushedChar1 s0 = 0 \<and> m_pushedChar1 other = 0) s0
      in loadAfterAppend
           (pushBackSubstring (m_currentString other)
             (fold pushBackSubstring (rev (m_substrings other)) s)))"

section \<open>Advancing\<close>

definition advanceSubstring :: "SegmentedString \<Rightarrow> SegmentedString" where
  "advanceSubstring s =
     (case m_substrings s of
        y # ys \<Rightarrow>
          updateAdvanceFunctionPointers
            (s\<lparr>m_numberOfCharactersConsumedPriorToCurrentString :=
                 m_numberOfCharactersConsumedPriorToCurrentString s
                 + numberOfCharactersConsumedSub (m_currentString s)
                 - numberOfCharactersConsumedSub y,
               m_currentString := y, m_substrings := ys\<rparr>)
      | [] \<Rightarrow>
          setEmptyFunctionPointers
            (s\<lparr>m_currentString := clearSubstring (m_currentString s), m_empty := True\<rparr>))"

definition decrementAndCheckLength :: "SegmentedString \<Rightarrow> SegmentedString" where
  "decrementAndCheckLength s0 =
     (let s = assertSS (m_length (m_currentString s0) > 1) s0;
          x = m_currentString s;
          s' = s\<lparr>m_currentString := x\<lparr>m_length := m_length x - 1\<rparr>\<rparr>
      in if m_length x - 1 = 1 then updateSlowCaseFunctionPointers s' else s')"

definition incrementAndLoad :: "SegmentedString \<Rightarrow> SegmentedString" where
  "incrementAndLoad s =
     readCurrentChar
       ((assertSS (m_dataPtr (m_currentString s) \<noteq> None) s)
          \<lparr>m_currentString := incrementPtr (m_currentString s)\<rparr>)"

definition advance8 :: "SegmentedString \<Rightarrow> SegmentedString" where
  "advance8 s = incrementAndLoad (decrementAndCheckLength (assertSS (m_pushedChar1 s = 0) s))"

definition advance16 :: "SegmentedString \<Rightarrow> SegmentedString" where
  "advance16 s = incrementAndLoad (decrementAndCheckLength (assertSS (m_pushedChar1 s = 0) s))"

definition countNewLine :: "SegmentedString \<Rightarrow> SegmentedString" where
  "countNewLine s =
     s\<lparr>m_currentLine := m_currentLine s + 1,
       m_numberOfCharactersConsumedPriorToCurrentLine := numberOfCharactersConsumed s + 1\<rparr>"

definition advanceAndUpdateLineNumber8 :: "SegmentedString \<Rightarrow> SegmentedString" where
  "advanceAndUpdateLineNumber8 s0 =
     (let s = assertSS (m_pushedChar1 s0 = 0
                \<and> getCurrentChar (m_currentString s0) = m_currentChar s0) s0;
          s = (if m_currentChar s = c_LF then countNewLine s else s)
      in incrementAndLoad (decrementAndCheckLength s))"

definition advanceAndUpdateLineNumber16 :: "SegmentedString \<Rightarrow> SegmentedString" where
  "advanceAndUpdateLineNumber16 s0 =
     (let s = assertSS (m_pushedChar1 s0 = 0
                \<and> getCurrentChar (m_currentString s0) = m_currentChar s0) s0;
          s = (if m_currentChar s = c_LF then countNewLine s else s)
      in incrementAndLoad (decrementAndCheckLength s))"

definition becomeEmpty :: "SegmentedString \<Rightarrow> SegmentedString" where
  "becomeEmpty s =
     setEmptyFunctionPointers
       (s\<lparr>m_currentString := clearSubstring (m_currentString s), m_empty := True\<rparr>)"

definition advanceSlowCase :: "SegmentedString \<Rightarrow> SegmentedString" where
  "advanceSlowCase s =
     (if m_pushedChar1 s \<noteq> 0
      then let s = s\<lparr>m_pushedChar1 := m_pushedChar2 s, m_pushedChar2 := 0\<rparr>
           in if m_pushedChar1 s \<noteq> 0 then s\<lparr>m_currentChar := m_pushedChar1 s\<rparr>
              else reloadCurrentChar (updateAdvanceFunctionPointers s)
      else if m_length (m_currentString s) \<noteq> 0
      then let x = m_currentString s;
               s = s\<lparr>m_currentString := x\<lparr>m_length := m_length x - 1\<rparr>\<rparr>
           in reloadCurrentChar (if m_length x - 1 = 0 then advanceSubstring s else s)
      else reloadCurrentChar (if \<not> isComposite s then becomeEmpty s else s))"

definition advanceAndUpdateLineNumberSlowCase :: "SegmentedString \<Rightarrow> SegmentedString" where
  "advanceAndUpdateLineNumberSlowCase s =
     (if m_pushedChar1 s \<noteq> 0
      then let s = s\<lparr>m_pushedChar1 := m_pushedChar2 s, m_pushedChar2 := 0\<rparr>
           in if m_pushedChar1 s \<noteq> 0 then s\<lparr>m_currentChar := m_pushedChar1 s\<rparr>
              else reloadCurrentChar (updateAdvanceFunctionPointers s)
      else if m_length (m_currentString s) \<noteq> 0
      then let x = m_currentString s;
               s = s\<lparr>readsInBounds := readsInBounds s \<and> readable x\<rparr>;
               s = (if getCurrentChar x = c_LF \<and> m_doNotExcludeLineNumbers x
                    then countNewLine s else s);
               s = s\<lparr>m_currentString := x\<lparr>m_length := m_length x - 1\<rparr>\<rparr>
           in reloadCurrentChar
                (if m_length x - 1 = 0 then advanceSubstring s
                 else let y = incrementPtr (m_currentString s)
                      in s\<lparr>m_currentString := y,
                           readsInBounds := readsInBounds s \<and> readable y\<rparr>)
      else reloadCurrentChar (if \<not> isComposite s then becomeEmpty s else s))"

definition advanceEmpty :: "SegmentedString \<Rightarrow> SegmentedString" where
  "advanceEmpty s =
     (assertSS (m_length (m_currentString s) = 0 \<and> \<not> isComposite s) s)\<lparr>m_currentChar := 0\<rparr>"

fun callMember :: "member_function \<Rightarrow> SegmentedString \<Rightarrow> SegmentedString" where
  "callMember F_advanceEmpty s = advanceEmpty s"
| "callMember F_advance8 s = advance8 s"
| "callMember F_advance16 s = advance16 s"
| "callMember F_advanceSlowCase s = advanceSlowCase s"
| "callMember F_advanceAndUpdateLineNumber8 s = advanceAndUpdateLineNumber8 s"
| "callMember F_advanceAndUpdateLineNumber16 s = advanceAndUpdateLineNumber16 s"
| "callMember F_advanceAndUpdateLineNumberSlowCase s = advanceAndUpdateLineNumberSlowCase s"

definition advance :: "SegmentedString \<Rightarrow> SegmentedString" where
  "advance s0 =
     (if m_fastPathFlags s0 AND Use8BitAdvance \<noteq> 0
      then let s = assertSS (m_pushedChar1 s0 = 0) s0;
               x = m_currentString s;
               haveOneCharacterLeft = (m_length x - 1 = 1);
               s = incrementAndLoad (s\<lparr>m_currentString := x\<lparr>m_length := m_length x - 1\<rparr>\<rparr>)
           in if \<not> haveOneCharacterLeft then s else updateSlowCaseFunctionPointers s
      else callMember (m_advanceFunc s0) s0)"

definition advanceAndUpdateLineNumber :: "SegmentedString \<Rightarrow> SegmentedString" where
  "advanceAndUpdateLineNumber s0 =
     (if m_fastPathFlags s0 AND Use8BitAdvance \<noteq> 0
      then let s = assertSS (m_pushedChar1 s0 = 0) s0;
               x = m_currentString s;
               haveNewLine = (m_currentChar s = c_LF
                 \<and> m_fastPathFlags s AND Use8BitAdvanceAndUpdateLineNumbers \<noteq> 0);
               haveOneCharacterLeft = (m_length x - 1 = 1);
               s = incrementAndLoad (s\<lparr>m_currentString := x\<lparr>m_length := m_length x - 1\<rparr>\<rparr>);
               s = (if haveNewLine
                    then s\<lparr>m_currentLine := m_currentLine s + 1,
                           m_numberOfCharactersConsumedPriorToCurrentLine :=
                             m_numberOfCharactersConsumedPriorToCurrentString s
                             + numberOfCharactersConsumedSub (m_currentString s)\<rparr>
                    else s)
           in if haveOneCharacterLeft then updateSlowCaseFunctionPointers s else s
      else callMember (m_advanceAndUpdateLineNumberFunc s0) s0)"

definition advancePastNonNewline :: "SegmentedString \<Rightarrow> SegmentedString" where
  "advancePastNonNewline s = advance (assertSS (currentChar s \<noteq> c_LF) s)"

definition advancePastNewlineAndUpdateLineNumber :: "SegmentedString \<Rightarrow> SegmentedString" where
  "advancePastNewlineAndUpdateLineNumber s0 =
     (let s = assertSS (currentChar s0 = c_LF) s0 in
      if m_pushedChar1 s = 0 \<and> m_length (m_currentString s) > 1
      then let newLineFlag = m_doNotExcludeLineNumbers (m_currentString s);
               s = (if newLineFlag then countNewLine s else s)
           in incrementAndLoad (decrementAndCheckLength s)
      else advanceAndUpdateLineNumberSlowCase s)"

section \<open>Consuming a literal\<close>

text \<open>\<^verbatim>\<open>StringImpl::latin1CaseFoldTable\<close>.\<close>

definition latin1CaseFold :: "uchar \<Rightarrow> uchar" where
  "latin1CaseFold c =
     (if 0x41 \<le> c \<and> c \<le> 0x5A then c + 0x20
      else if c = 0xB5 then 0x03BC
      else if 0xC0 \<le> c \<and> c \<le> 0xDE \<and> c \<noteq> 0xD7 then c + 0x20
      else c)"

text \<open>
  \<^verbatim>\<open>equalIgnoringCase\<close> against an 8-bit literal: the Latin-1 table folds an 8-bit text,
  ICU's \<^verbatim>\<open>u_foldCase\<close> a 16-bit one.
\<close>

definition equalIgnoringCase :: "(uchar \<Rightarrow> uchar) \<Rightarrow> bool \<Rightarrow> uchar list \<Rightarrow> uchar list \<Rightarrow> bool" where
  "equalIgnoringCase foldc is8 a b \<longleftrightarrow>
     list_all2 (\<lambda>x y. (if is8 then latin1CaseFold x else foldc x) = latin1CaseFold y) a b"

definition startsWith :: "(uchar \<Rightarrow> uchar) \<Rightarrow> wtf_string \<Rightarrow> uchar list \<Rightarrow> bool \<Rightarrow> bool" where
  "startsWith foldc str literal caseSensitive \<longleftrightarrow>
     length literal \<le> length (chars str) \<and>
     (if caseSensitive then take (length literal) (chars str) = literal
      else equalIgnoringCase foldc (is8Bit_str str) (take (length literal) (chars str)) literal)"

fun advancePastNonNewlines :: "nat \<Rightarrow> SegmentedString \<Rightarrow> SegmentedString" where
  "advancePastNonNewlines 0 s = s"
| "advancePastNonNewlines (Suc count) s = advancePastNonNewlines count (advancePastNonNewline s)"

fun advancePastNonNewlinesInto ::
  "nat \<Rightarrow> SegmentedString \<Rightarrow> uchar list \<times> SegmentedString" where
  "advancePastNonNewlinesInto 0 s = ([], s)"
| "advancePastNonNewlinesInto (Suc count) s =
     (let c = currentChar s;
          (consumed, s') = advancePastNonNewlinesInto count (advancePastNonNewline s)
      in (c # consumed, s'))"

definition advancePastSlowCase ::
  "(uchar \<Rightarrow> uchar) \<Rightarrow> uchar list \<Rightarrow> bool \<Rightarrow> SegmentedString \<Rightarrow> AdvancePastResult \<times> SegmentedString" where
  "advancePastSlowCase foldc literal caseSensitive s =
     (if int (length literal) > lengthSS s then (NotEnoughCharacters, s)
      else let (consumed, s') = advancePastNonNewlinesInto (length literal) s;
               consumedString = WString False consumed
           in if startsWith foldc consumedString literal caseSensitive then (DidMatch, s')
              else (DidNotMatch, pushBackSS (segmentedStringOf consumedString) s'))"

definition advancePast ::
  "(uchar \<Rightarrow> uchar) \<Rightarrow> uchar list \<Rightarrow> bool \<Rightarrow> SegmentedString \<Rightarrow> AdvancePastResult \<times> SegmentedString" where
  "advancePast foldc literal caseSensitive s =
     (if m_pushedChar1 s = 0 \<and> int (length literal) \<le> m_length (m_currentString s)
      then if \<not> startsWith foldc (currentSubString (m_currentString s) (length literal))
                 literal caseSensitive
           then (DidNotMatch, s)
           else (DidMatch, advancePastNonNewlines (length literal) s)
      else advancePastSlowCase foldc literal caseSensitive s)"

section \<open>Putting characters back\<close>

text \<open>\<^verbatim>\<open>unconsumeCharacters\<close> of \<^verbatim>\<open>CharacterReferenceParserInlines.h\<close>.\<close>

definition unconsumeCharacters :: "uchar list \<Rightarrow> SegmentedString \<Rightarrow> SegmentedString" where
  "unconsumeCharacters consumed s = pushBackSS (segmentedStringOf (builderString consumed)) s"

end
