(* ===== verification/Input_Stream.thy ===== *)
theory Input_Stream
  imports Main
begin

text \<open>
  The interface through which the preprocessor, the character-reference parser and the
  tokenizer consume characters: a stream with a current character, an operation that moves
  to the next one and an operation that puts characters back, specified over the list of
  pending characters and the number of characters consumed. The \<open>inv\<close> parameter is the
  representation invariant of the provider.

  The locale's lemmas are the two facts every speculative reader needs: reading \<open>n\<close>
  characters one by one yields the first \<open>n\<close> pending characters, and putting back what was
  read restores the stream.
\<close>

locale input_stream =
  fixes inv :: "'s \<Rightarrow> bool"
    and pending :: "'s \<Rightarrow> 'c list"
    and position :: "'s \<Rightarrow> int"
    and atEnd :: "'s \<Rightarrow> bool"
    and current :: "'s \<Rightarrow> 'c"
    and forward :: "'s \<Rightarrow> 's"
    and unread :: "'c list \<Rightarrow> 's \<Rightarrow> 's"
  assumes atEnd_iff: "inv s \<Longrightarrow> atEnd s \<longleftrightarrow> pending s = []"
    and current_hd: "inv s \<Longrightarrow> \<not> atEnd s \<Longrightarrow> current s = hd (pending s)"
    and inv_forward: "inv s \<Longrightarrow> \<not> atEnd s \<Longrightarrow> inv (forward s)"
    and pending_forward: "inv s \<Longrightarrow> \<not> atEnd s \<Longrightarrow> pending (forward s) = tl (pending s)"
    and position_forward: "inv s \<Longrightarrow> \<not> atEnd s \<Longrightarrow> position (forward s) = position s + 1"
    and inv_unread: "inv s \<Longrightarrow> inv (unread cs s)"
    and pending_unread: "inv s \<Longrightarrow> pending (unread cs s) = cs @ pending s"
    and position_unread: "inv s \<Longrightarrow> position (unread cs s) = position s - int (length cs)"
begin

lemma pending_Cons: "inv s \<Longrightarrow> \<not> atEnd s \<Longrightarrow> pending s = current s # pending (forward s)"
  by (cases "pending s") (auto simp: atEnd_iff current_hd pending_forward)

lemma length_pending_forward:
  "inv s \<Longrightarrow> \<not> atEnd s \<Longrightarrow> length (pending s) = Suc (length (pending (forward s)))"
  by (simp add: pending_Cons)

lemma forward_n:
  assumes "inv s" and "n \<le> length (pending s)"
  shows "inv ((forward ^^ n) s) \<and> pending ((forward ^^ n) s) = drop n (pending s)
    \<and> position ((forward ^^ n) s) = position s + int n"
  using assms(2)
proof (induction n)
  case 0
  with assms(1) show ?case by simp
next
  case (Suc n)
  then have IH: "inv ((forward ^^ n) s)" "pending ((forward ^^ n) s) = drop n (pending s)"
    "position ((forward ^^ n) s) = position s + int n" by auto
  with Suc.prems have "\<not> atEnd ((forward ^^ n) s)" by (simp add: atEnd_iff)
  with IH show ?case
    by (simp add: inv_forward pending_forward position_forward tl_drop drop_Suc)
qed

text \<open>A speculative read that is undone leaves the pending characters and the position.\<close>

lemma unread_forward_n:
  assumes "inv s" and "n \<le> length (pending s)" and "cs = take n (pending s)"
  shows "inv (unread cs ((forward ^^ n) s))"
    and "pending (unread cs ((forward ^^ n) s)) = pending s"
    and "position (unread cs ((forward ^^ n) s)) = position s"
  using forward_n [OF assms(1,2)] assms(2,3)
  by (simp_all add: inv_unread pending_unread position_unread)

end

end
