(* ===== verification/Segmented_String_Refine.thy ===== *)
theory Segmented_String_Refine
  imports Segmented_String Input_Stream
begin

text \<open>
  Correctness of \<^verbatim>\<open>SegmentedString\<close>: the representation invariant \<open>wf_source\<close> (substring
  pointers agree with the remaining lengths, the cached character and the empty flag are
  up to date, the member-function pointers select a routine that fits the current
  substring), the abstraction \<open>toStringSS\<close> to the list of pending characters, and one
  refinement lemma per operation. The theory ends with the interpretation of the
  input-stream interface by the parser's sources.
\<close>

section \<open>Invariant and abstraction\<close>

definition substring_ok :: "SegmentedSubstring \<Rightarrow> bool" where
  "substring_ok x \<longleftrightarrow>
     0 \<le> m_length x \<and> m_length x \<le> stringLength x \<and>
     (m_length x > 0 \<longrightarrow> m_dataPtr x = Some (nat (stringLength x - m_length x)))"

definition pointers_ok :: "SegmentedString \<Rightarrow> bool" where
  "pointers_ok s \<longleftrightarrow>
     (let len = m_length (m_currentString s); flags = m_fastPathFlags s;
          counts = m_doNotExcludeLineNumbers (m_currentString s) in
      if m_pushedChar1 s = 0 \<and> len > 1
      then m_advanceFunc s \<in> {F_advance8, F_advance16} \<and>
           m_advanceAndUpdateLineNumberFunc s \<in>
             (if counts then {F_advanceAndUpdateLineNumber8, F_advanceAndUpdateLineNumber16}
              else {F_advance8, F_advance16}) \<and>
           (flags AND Use8BitAdvance \<noteq> 0 \<longrightarrow>
              (flags AND Use8BitAdvanceAndUpdateLineNumbers \<noteq> 0) = counts)
      else flags = NoFastPath \<and>
           (if m_pushedChar1 s = 0 \<and> len = 0
            then m_advanceFunc s \<in> {F_advanceSlowCase, F_advanceEmpty} \<and>
                 m_advanceAndUpdateLineNumberFunc s \<in>
                   {F_advanceAndUpdateLineNumberSlowCase, F_advanceEmpty}
            else m_advanceFunc s = F_advanceSlowCase \<and>
                 m_advanceAndUpdateLineNumberFunc s = F_advanceAndUpdateLineNumberSlowCase))"

definition pushed :: "SegmentedString \<Rightarrow> uchar list" where
  "pushed s = (if m_pushedChar1 s \<noteq> 0
               then m_pushedChar1 s # (if m_pushedChar2 s \<noteq> 0 then [m_pushedChar2 s] else [])
               else [])"

definition wf_source :: "SegmentedString \<Rightarrow> bool" where
  "wf_source s \<longleftrightarrow>
     substring_ok (m_currentString s) \<and>
     (\<forall>x\<in>set (m_substrings s). substring_ok x \<and> m_length x > 0) \<and>
     (m_length (m_currentString s) = 0 \<longrightarrow> m_substrings s = [] \<and> m_pushedChar1 s = 0) \<and>
     (m_pushedChar1 s = 0 \<longrightarrow> m_pushedChar2 s = 0) \<and>
     m_empty s = (m_length (m_currentString s) = 0) \<and>
     m_currentChar s =
       (if m_pushedChar1 s \<noteq> 0 then m_pushedChar1 s
        else if m_length (m_currentString s) = 0 then 0 else getCurrentChar (m_currentString s)) \<and>
     pointers_ok s \<and> readsInBounds s"

lemma appendTo_drop:
  "substring_ok x \<Longrightarrow> appendTo x = drop (nat (stringLength x - m_length x)) (chars (m_string x))"
  by (auto simp: appendTo_def substring_ok_def stringLength_def Let_def)

lemma length_appendTo: "substring_ok x \<Longrightarrow> int (length (appendTo x)) = m_length x"
  by (auto simp: appendTo_drop) (auto simp: substring_ok_def stringLength_def)

lemma appendTo_Nil: "substring_ok x \<Longrightarrow> appendTo x = [] \<longleftrightarrow> m_length x = 0"
  using length_appendTo [of x] by auto

lemma substring_ptr:
  assumes "substring_ok x" and "m_length x > 0"
  shows "m_dataPtr x = Some (nat (stringLength x - m_length x))"
    and "nat (stringLength x - m_length x) < length (chars (m_string x))"
  using assms by (auto simp: substring_ok_def stringLength_def)

lemma readable_ok: "substring_ok x \<Longrightarrow> m_length x > 0 \<Longrightarrow> readable x"
  using substring_ptr [of x] by (simp add: readable_def)

lemma appendTo_Cons:
  assumes "substring_ok x" and "m_length x > 0"
  shows "appendTo x = getCurrentChar x # appendTo (x\<lparr>m_length := m_length x - 1, m_dataPtr := map_option Suc (m_dataPtr x)\<rparr>)"
proof -
  let ?n = "nat (stringLength x - m_length x)"
  let ?y = "x\<lparr>m_length := m_length x - 1, m_dataPtr := map_option Suc (m_dataPtr x)\<rparr>"
  have ok: "substring_ok ?y"
    using assms by (auto simp: substring_ok_def stringLength_def nat_diff_distrib' Suc_nat_eq_nat_zadd1)
  have n: "nat (stringLength ?y - m_length ?y) = Suc ?n"
    using assms by (auto simp: substring_ok_def stringLength_def)
  have "appendTo x = chars (m_string x) ! ?n # drop (Suc ?n) (chars (m_string x))"
    using assms substring_ptr(2) [OF assms] by (simp add: appendTo_drop Cons_nth_drop_Suc)
  then show ?thesis
    using substring_ptr [OF assms] appendTo_drop [OF ok] n by (simp add: getCurrentChar_def)
qed


section \<open>Advancing one character\<close>

definition nextSubstring :: "SegmentedSubstring \<Rightarrow> SegmentedSubstring" where
  "nextSubstring x = x\<lparr>m_length := m_length x - 1, m_dataPtr := map_option Suc (m_dataPtr x)\<rparr>"

lemma nextSubstring_simps [simp]:
  "m_string (nextSubstring x) = m_string x" "m_length (nextSubstring x) = m_length x - 1"
  "m_doNotExcludeLineNumbers (nextSubstring x) = m_doNotExcludeLineNumbers x"
  "stringLength (nextSubstring x) = stringLength x"
  by (simp_all add: nextSubstring_def stringLength_def)

lemma substring_ok_next: "substring_ok x \<Longrightarrow> m_length x > 0 \<Longrightarrow> substring_ok (nextSubstring x)"
  by (auto simp: substring_ok_def stringLength_def nextSubstring_def Suc_nat_eq_nat_zadd1)

lemma appendTo_next:
  "substring_ok x \<Longrightarrow> m_length x > 0 \<Longrightarrow> appendTo x = getCurrentChar x # appendTo (nextSubstring x)"
  unfolding nextSubstring_def by (rule appendTo_Cons)

lemma toStringSS_pushed:
  "toStringSS s = pushed s @ appendTo (m_currentString s) @ concat (map appendTo (m_substrings s))"
  by (simp add: toStringSS_def pushed_def)

lemma toStringSS_Nil: "wf_source s \<Longrightarrow> toStringSS s = [] \<longleftrightarrow> m_empty s"
  by (auto simp: toStringSS_pushed pushed_def wf_source_def appendTo_Nil)

text \<open>What a successful advance does: the abstraction loses its head, the count grows by one.\<close>

definition advances :: "SegmentedString \<Rightarrow> SegmentedString \<Rightarrow> bool" where
  "advances s s' \<longleftrightarrow>
     wf_source s' \<and> toStringSS s' = tl (toStringSS s) \<and>
     numberOfCharactersConsumed s' = numberOfCharactersConsumed s + 1 \<and>
     assertsHold s' = assertsHold s \<and> m_closed s' = m_closed s \<and>
     (m_pushedChar1 s = 0 \<longrightarrow> m_pushedChar1 s' = 0)"

lemmas ss_frame =
  assertSS_def countNewLine_def updateSlowCaseFunctionPointers_def setEmptyFunctionPointers_def
  readCurrentChar_def loadCurrentChar_def reloadCurrentChar_def

lemma fast_advance:
  assumes wf: "wf_source s" and "m_pushedChar1 s = 0" and "m_length (m_currentString s) > 1"
    and s': "s' = s\<lparr>m_currentString := nextSubstring (m_currentString s),
                 m_currentChar := getCurrentChar (nextSubstring (m_currentString s)),
                 readsInBounds := readsInBounds s \<and> readable (nextSubstring (m_currentString s)),
                 m_currentLine := l, m_numberOfCharactersConsumedPriorToCurrentLine := p,
                 m_fastPathFlags := f, m_advanceFunc := g, m_advanceAndUpdateLineNumberFunc := h\<rparr>"
    and ptrs: "if m_length (m_currentString s) - 1 = 1
          then f = NoFastPath \<and> g = F_advanceSlowCase \<and> h = F_advanceAndUpdateLineNumberSlowCase
          else f = m_fastPathFlags s \<and> g = m_advanceFunc s \<and> h = m_advanceAndUpdateLineNumberFunc s"
  shows "advances s s'"
proof -
  let ?x = "m_currentString s"
  have ok: "substring_ok ?x" and pos: "m_length ?x > 0"
    using wf assms(3) by (auto simp: wf_source_def)
  note ok' = substring_ok_next [OF ok pos]
  have rd: "readable (nextSubstring ?x)"
    by (rule readable_ok [OF ok']) (use assms(3) in simp)
  have p: "pointers_ok s'"
    using wf ptrs assms(2,3) unfolding s' wf_source_def
    by (auto simp: pointers_ok_def Let_def split: if_splits)
  have "wf_source s'"
    using wf ok' rd p assms(2,3) unfolding s' wf_source_def by auto
  moreover have "toStringSS s' = tl (toStringSS s)"
    using appendTo_next [OF ok pos] assms(2) unfolding s' by (simp add: toStringSS_pushed pushed_def)
  ultimately show ?thesis
    unfolding s' advances_def
    by (simp add: numberOfCharactersConsumed_def numberOfCharactersConsumedSub_def pushedCount_def)
qed

lemma incrementAndLoad_decrement:
  assumes wf: "wf_source s" and "m_pushedChar1 s = 0" and "m_length (m_currentString s) > 1"
    and frame: "t = s\<lparr>m_currentLine := l, m_numberOfCharactersConsumedPriorToCurrentLine := p\<rparr>"
  shows "advances s (incrementAndLoad (decrementAndCheckLength t))"
    and "m_currentLine (incrementAndLoad (decrementAndCheckLength t)) = l"
    and "m_numberOfCharactersConsumedPriorToCurrentLine
           (incrementAndLoad (decrementAndCheckLength t)) = p"
proof -
  let ?s' = "incrementAndLoad (decrementAndCheckLength t)"
  have ptr: "m_dataPtr (m_currentString s) \<noteq> None"
    using wf assms(3) substring_ptr(1) [of "m_currentString s"] by (auto simp: wf_source_def)
  show "advances s ?s'"
    by (rule fast_advance [OF wf assms(2,3), where l = l and p = p and f = "m_fastPathFlags ?s'"
          and g = "m_advanceFunc ?s'" and h = "m_advanceAndUpdateLineNumberFunc ?s'"])
      (use assms ptr in \<open>auto simp: frame incrementAndLoad_def decrementAndCheckLength_def ss_frame
         nextSubstring_def incrementPtr_def Let_def intro!: SegmentedString.equality\<close>)
  show "m_currentLine ?s' = l" "m_numberOfCharactersConsumedPriorToCurrentLine ?s' = p"
    by (auto simp: frame incrementAndLoad_def decrementAndCheckLength_def ss_frame Let_def)
qed


lemma updateAdvance_frame [simp]:
  "m_pushedChar1 (updateAdvanceFunctionPointers s) = m_pushedChar1 s"
  "m_pushedChar2 (updateAdvanceFunctionPointers s) = m_pushedChar2 s"
  "m_currentString (updateAdvanceFunctionPointers s) = m_currentString s"
  "m_currentChar (updateAdvanceFunctionPointers s) = m_currentChar s"
  "m_numberOfCharactersConsumedPriorToCurrentString (updateAdvanceFunctionPointers s)
     = m_numberOfCharactersConsumedPriorToCurrentString s"
  "m_numberOfCharactersConsumedPriorToCurrentLine (updateAdvanceFunctionPointers s)
     = m_numberOfCharactersConsumedPriorToCurrentLine s"
  "m_currentLine (updateAdvanceFunctionPointers s) = m_currentLine s"
  "m_substrings (updateAdvanceFunctionPointers s) = m_substrings s"
  "m_closed (updateAdvanceFunctionPointers s) = m_closed s"
  "m_empty (updateAdvanceFunctionPointers s) = m_empty s"
  "assertsHold (updateAdvanceFunctionPointers s) = assertsHold s"
  "readsInBounds (updateAdvanceFunctionPointers s) = readsInBounds s"
  by (simp_all add: updateAdvanceFunctionPointers_def ss_frame Let_def)

lemma pointers_ok_update [simp]:
  "0 \<le> m_length (m_currentString s) \<Longrightarrow> pointers_ok (updateAdvanceFunctionPointers s)"
  by (auto simp: pointers_ok_def updateAdvanceFunctionPointers_def ss_frame Let_def)

text \<open>Reading the current character of a string whose current substring has characters left.\<close>

lemma reloadCurrentChar_ok:
  assumes "substring_ok (m_currentString s)"
  shows "reloadCurrentChar s =
     s\<lparr>m_currentChar := (if m_length (m_currentString s) = 0 then 0
                         else getCurrentChar (m_currentString s))\<rparr>"
proof (cases "m_length (m_currentString s) = 0")
  case True
  then show ?thesis by (simp add: reloadCurrentChar_def)
next
  case False
  with assms have "readable (m_currentString s)"
    by (intro readable_ok) (auto simp: substring_ok_def)
  with False show ?thesis by (simp add: ss_frame)
qed

lemma pointers_ok_frame [simp]:
  "pointers_ok (s\<lparr>m_currentChar := c\<rparr>) = pointers_ok s"
  "pointers_ok (s\<lparr>m_empty := b\<rparr>) = pointers_ok s"
  "pointers_ok (s\<lparr>m_substrings := xs\<rparr>) = pointers_ok s"
  "pointers_ok (s\<lparr>m_closed := b\<rparr>) = pointers_ok s"
  "pointers_ok (s\<lparr>assertsHold := b\<rparr>) = pointers_ok s"
  "pointers_ok (s\<lparr>m_numberOfCharactersConsumedPriorToCurrentString := n\<rparr>) = pointers_ok s"
  by (simp_all add: pointers_ok_def)

lemma wf_sourceD:
  assumes "wf_source s"
  shows "substring_ok (m_currentString s)" "0 \<le> m_length (m_currentString s)"
    "\<And>x. x \<in> set (m_substrings s) \<Longrightarrow> substring_ok x \<and> m_length x > 0"
    "m_length (m_currentString s) = 0 \<Longrightarrow> m_substrings s = [] \<and> m_pushedChar1 s = 0"
    "m_pushedChar1 s = 0 \<Longrightarrow> m_pushedChar2 s = 0"
    "m_empty s = (m_length (m_currentString s) = 0)"
    "pointers_ok s" "readsInBounds s"
  using assms by (auto simp: wf_source_def substring_ok_def)

text \<open>The part of both slow routines that consumes a pushed-back character.\<close>

definition popPushed :: "SegmentedString \<Rightarrow> SegmentedString" where
  "popPushed s =
     (let s = s\<lparr>m_pushedChar1 := m_pushedChar2 s, m_pushedChar2 := 0\<rparr>
      in if m_pushedChar1 s \<noteq> 0 then s\<lparr>m_currentChar := m_pushedChar1 s\<rparr>
         else reloadCurrentChar (updateAdvanceFunctionPointers s))"

lemma popPushed_advances:
  assumes wf: "wf_source s" and p: "m_pushedChar1 s \<noteq> 0"
  shows "advances s (popPushed s)"
    and "m_currentLine (popPushed s) = m_currentLine s"
    and "m_numberOfCharactersConsumedPriorToCurrentLine (popPushed s)
           = m_numberOfCharactersConsumedPriorToCurrentLine s"
proof -
  note wfD = wf_sourceD [OF wf]
  have len: "m_length (m_currentString s) \<noteq> 0" using wfD(4) p by auto
  show "advances s (popPushed s)"
  proof (cases "m_pushedChar2 s = 0")
    case True
    with wf p len show ?thesis
      unfolding advances_def popPushed_def
      by (auto simp: wf_source_def reloadCurrentChar_ok substring_ok_def toStringSS_pushed pushed_def
          numberOfCharactersConsumed_def pushedCount_def)
  next
    case False
    with wf p len show ?thesis
      unfolding advances_def popPushed_def
      by (auto simp: wf_source_def toStringSS_pushed pushed_def pointers_ok_def
          numberOfCharactersConsumed_def pushedCount_def Let_def)
  qed
  show "m_currentLine (popPushed s) = m_currentLine s"
    "m_numberOfCharactersConsumedPriorToCurrentLine (popPushed s)
       = m_numberOfCharactersConsumedPriorToCurrentLine s"
    by (auto simp: popPushed_def Let_def reloadCurrentChar_ok wfD)
qed

text \<open>The part of both slow routines that moves on to the next substring.\<close>

lemma advanceSubstring_advances:
  assumes wf: "wf_source s" and p: "m_pushedChar1 s = 0" and len: "m_length (m_currentString s) = 1"
    and s1: "s1 = s\<lparr>m_currentString := (m_currentString s)\<lparr>m_length := 0\<rparr>,
                   m_currentLine := l, m_numberOfCharactersConsumedPriorToCurrentLine := q\<rparr>"
  shows "advances s (reloadCurrentChar (advanceSubstring s1))"
    and "m_currentLine (reloadCurrentChar (advanceSubstring s1)) = l"
    and "m_numberOfCharactersConsumedPriorToCurrentLine (reloadCurrentChar (advanceSubstring s1)) = q"
proof -
  note wfD = wf_sourceD [OF wf]
  have one: "appendTo (m_currentString s) = [getCurrentChar (m_currentString s)]"
    using appendTo_next [of "m_currentString s"] substring_ok_next [of "m_currentString s"] wfD(1) len
    by (simp add: appendTo_Nil)
  show "advances s (reloadCurrentChar (advanceSubstring s1))"
  proof (cases "m_substrings s")
    case Nil
    then have r: "reloadCurrentChar (advanceSubstring s1) =
        (setEmptyFunctionPointers (s1\<lparr>m_currentString := clearSubstring (m_currentString s1),
            m_empty := True\<rparr>))\<lparr>m_currentChar := 0\<rparr>"
      by (simp add: s1 advanceSubstring_def reloadCurrentChar_def ss_frame clearSubstring_def)
    show ?thesis
      using Nil wfD p one unfolding r advances_def
      by (auto simp: s1 wf_source_def clearSubstring_def substring_ok_def stringLength_def ss_frame
          pointers_ok_def toStringSS_pushed pushed_def appendTo_def numberOfCharactersConsumed_def
          numberOfCharactersConsumedSub_def pushedCount_def len)
  next
    case (Cons y ys)
    then have y: "substring_ok y" "m_length y \<noteq> 0" "0 \<le> m_length y" using wfD(3) [of y] by auto
    then show ?thesis
      using Cons wfD p one unfolding advances_def
      by (auto simp: s1 advanceSubstring_def wf_source_def reloadCurrentChar_ok toStringSS_pushed
          pushed_def numberOfCharactersConsumed_def numberOfCharactersConsumedSub_def pushedCount_def
          stringLength_def len)
  qed
  show "m_currentLine (reloadCurrentChar (advanceSubstring s1)) = l"
    "m_numberOfCharactersConsumedPriorToCurrentLine (reloadCurrentChar (advanceSubstring s1)) = q"
    by (auto simp: s1 advanceSubstring_def ss_frame split: list.splits)
qed


lemma advanceSlowCase_advances:
  assumes wf: "wf_source s" and "m_pushedChar1 s \<noteq> 0 \<or> m_length (m_currentString s) = 1"
  shows "advances s (advanceSlowCase s)"
    and "m_currentLine (advanceSlowCase s) = m_currentLine s"
    and "m_numberOfCharactersConsumedPriorToCurrentLine (advanceSlowCase s)
           = m_numberOfCharactersConsumedPriorToCurrentLine s"
proof -
  consider (pushed) "m_pushedChar1 s \<noteq> 0"
    | (last) "m_pushedChar1 s = 0" "m_length (m_currentString s) = 1"
    using assms(2) by blast
  then have "advances s (advanceSlowCase s) \<and> m_currentLine (advanceSlowCase s) = m_currentLine s \<and>
      m_numberOfCharactersConsumedPriorToCurrentLine (advanceSlowCase s)
        = m_numberOfCharactersConsumedPriorToCurrentLine s"
  proof cases
    case pushed
    then have "advanceSlowCase s = popPushed s"
      by (simp add: advanceSlowCase_def popPushed_def Let_def)
    with popPushed_advances [OF wf pushed] show ?thesis by simp
  next
    case last
    then have "advanceSlowCase s = reloadCurrentChar (advanceSubstring
        (s\<lparr>m_currentString := (m_currentString s)\<lparr>m_length := 0\<rparr>\<rparr>))"
      by (simp add: advanceSlowCase_def)
    with advanceSubstring_advances [OF wf last, where l = "m_currentLine s"
        and q = "m_numberOfCharactersConsumedPriorToCurrentLine s", OF refl]
    show ?thesis by simp
  qed
  then show "advances s (advanceSlowCase s)"
    "m_currentLine (advanceSlowCase s) = m_currentLine s"
    "m_numberOfCharactersConsumedPriorToCurrentLine (advanceSlowCase s)
       = m_numberOfCharactersConsumedPriorToCurrentLine s"
    by auto
qed

text \<open>The line a newline-aware advance ends on and where that line starts.\<close>

definition countsNewLine :: "SegmentedString \<Rightarrow> bool" where
  "countsNewLine s \<longleftrightarrow> m_pushedChar1 s = 0 \<and> m_empty s = False \<and> m_currentChar s = c_LF
     \<and> m_doNotExcludeLineNumbers (m_currentString s)"

definition advancesLine :: "SegmentedString \<Rightarrow> SegmentedString \<Rightarrow> bool" where
  "advancesLine s s' \<longleftrightarrow>
     m_currentLine s' = m_currentLine s + (if countsNewLine s then 1 else 0) \<and>
     m_numberOfCharactersConsumedPriorToCurrentLine s' =
       (if countsNewLine s then numberOfCharactersConsumed s + 1
        else m_numberOfCharactersConsumedPriorToCurrentLine s)"

lemma advanceAndUpdateLineNumberSlowCase_advances:
  assumes wf: "wf_source s" and "m_pushedChar1 s \<noteq> 0 \<or> m_length (m_currentString s) = 1"
  shows "advances s (advanceAndUpdateLineNumberSlowCase s)"
    and "advancesLine s (advanceAndUpdateLineNumberSlowCase s)"
proof -
  consider (pushed) "m_pushedChar1 s \<noteq> 0"
    | (last) "m_pushedChar1 s = 0" "m_length (m_currentString s) = 1"
    using assms(2) by blast
  then have "advances s (advanceAndUpdateLineNumberSlowCase s)
      \<and> advancesLine s (advanceAndUpdateLineNumberSlowCase s)"
  proof cases
    case pushed
    then have "advanceAndUpdateLineNumberSlowCase s = popPushed s"
      by (simp add: advanceAndUpdateLineNumberSlowCase_def popPushed_def Let_def)
    with popPushed_advances [OF wf pushed] pushed show ?thesis
      by (simp add: advancesLine_def countsNewLine_def)
  next
    case last
    let ?x = "m_currentString s"
    let ?l = "m_currentLine s + (if countsNewLine s then 1 else 0)"
    let ?q = "if countsNewLine s then numberOfCharactersConsumed s + 1
        else m_numberOfCharactersConsumedPriorToCurrentLine s"
    have rd: "readable ?x"
      using wf last by (intro readable_ok) (auto simp: wf_source_def)
    have nl: "countsNewLine s \<longleftrightarrow> getCurrentChar ?x = c_LF \<and> m_doNotExcludeLineNumbers ?x"
      using wf last by (auto simp: countsNewLine_def wf_source_def)
    have "advanceAndUpdateLineNumberSlowCase s = reloadCurrentChar (advanceSubstring
        (s\<lparr>m_currentString := ?x\<lparr>m_length := 0\<rparr>, m_currentLine := ?l,
           m_numberOfCharactersConsumedPriorToCurrentLine := ?q\<rparr>))"
      using last rd wf nl
      by (auto simp: advanceAndUpdateLineNumberSlowCase_def countNewLine_def wf_source_def
          numberOfCharactersConsumed_def pushedCount_def Let_def
          intro!: arg_cong [where f = "\<lambda>s. reloadCurrentChar (advanceSubstring s)"] SegmentedString.equality)
    with advanceSubstring_advances [OF wf last, where l = ?l and q = ?q, OF refl]
    show ?thesis by (simp add: advancesLine_def)
  qed
  then show "advances s (advanceAndUpdateLineNumberSlowCase s)"
    "advancesLine s (advanceAndUpdateLineNumberSlowCase s)" by auto
qed


lemma wf_source_cases:
  assumes "wf_source s" and "\<not> m_empty s"
  obtains (fast) "m_pushedChar1 s = 0" "m_length (m_currentString s) > 1"
  | (slow) "m_pushedChar1 s \<noteq> 0 \<or> m_length (m_currentString s) = 1"
      "m_fastPathFlags s = NoFastPath" "m_advanceFunc s = F_advanceSlowCase"
      "m_advanceAndUpdateLineNumberFunc s = F_advanceAndUpdateLineNumberSlowCase"
proof (cases "m_pushedChar1 s = 0 \<and> m_length (m_currentString s) > 1")
  case True
  with fast show thesis by blast
next
  case False
  note wfD = wf_sourceD [OF assms(1)]
  have "m_pushedChar1 s \<noteq> 0 \<or> m_length (m_currentString s) = 1"
    using False wfD(2,6) assms(2) by auto
  with False wfD(4,7) show thesis
    by (intro slow) (auto simp: pointers_ok_def Let_def split: if_splits)
qed

lemma advance8_advances:
  assumes wf: "wf_source s" and fast: "m_pushedChar1 s = 0" "m_length (m_currentString s) > 1"
  shows "advances s (advance8 s)" and "m_currentLine (advance8 s) = m_currentLine s"
    and "m_numberOfCharactersConsumedPriorToCurrentLine (advance8 s)
           = m_numberOfCharactersConsumedPriorToCurrentLine s"
    and "advance16 s = advance8 s"
  using incrementAndLoad_decrement [OF wf fast, where t = s and l = "m_currentLine s"
      and p = "m_numberOfCharactersConsumedPriorToCurrentLine s"] fast(1)
  by (simp_all add: advance8_def advance16_def assertSS_def)

lemma assertSS_True [simp]: "assertSS True s = s"
  by (simp add: assertSS_def)

lemma advance_advances:
  assumes wf: "wf_source s" and ne: "\<not> m_empty s"
  shows "advances s (advance s)" and "m_currentLine (advance s) = m_currentLine s"
    and "m_numberOfCharactersConsumedPriorToCurrentLine (advance s)
           = m_numberOfCharactersConsumedPriorToCurrentLine s"
proof -
  from wf ne have "advances s (advance s) \<and> m_currentLine (advance s) = m_currentLine s \<and>
      m_numberOfCharactersConsumedPriorToCurrentLine (advance s)
        = m_numberOfCharactersConsumedPriorToCurrentLine s"
  proof (cases rule: wf_source_cases)
    case fast
    have ptr: "m_dataPtr (m_currentString s) \<noteq> None"
      using wf fast substring_ptr(1) [of "m_currentString s"] by (auto simp: wf_source_def)
    show ?thesis
    proof (cases "m_fastPathFlags s AND Use8BitAdvance = 0")
      case True
      have "m_advanceFunc s = F_advance8 \<or> m_advanceFunc s = F_advance16"
        using wf_sourceD(7) [OF wf] fast by (auto simp: pointers_ok_def Let_def)
      then have "advance s = advance8 s"
        using True advance8_advances(4) [OF wf fast] by (auto simp: advance_def)
      then show ?thesis using advance8_advances [OF wf fast] by simp
    next
      case False
      then have "advance s = incrementAndLoad (decrementAndCheckLength s)"
        using fast ptr
        by (auto simp: advance_def incrementAndLoad_def decrementAndCheckLength_def ss_frame Let_def)
      then show ?thesis
        using incrementAndLoad_decrement [OF wf fast, where t = s and l = "m_currentLine s"
            and p = "m_numberOfCharactersConsumedPriorToCurrentLine s"] by simp
    qed
  next
    case slow
    then have "advance s = advanceSlowCase s" by (simp add: advance_def)
    with advanceSlowCase_advances [OF wf slow(1)] show ?thesis by simp
  qed
  then show "advances s (advance s)" "m_currentLine (advance s) = m_currentLine s"
    "m_numberOfCharactersConsumedPriorToCurrentLine (advance s)
       = m_numberOfCharactersConsumedPriorToCurrentLine s" by auto
qed

lemma countNewLine_fast:
  assumes wf: "wf_source s" and fast: "m_pushedChar1 s = 0" "m_length (m_currentString s) > 1"
    and s1: "s1 = (if countsNewLine s then countNewLine s else s)"
  shows "advances s (incrementAndLoad (decrementAndCheckLength s1))"
    and "advancesLine s (incrementAndLoad (decrementAndCheckLength s1))"
  using incrementAndLoad_decrement [OF wf fast, where t = s1 and l = "m_currentLine s1"
      and p = "m_numberOfCharactersConsumedPriorToCurrentLine s1"]
  by (auto simp: s1 countNewLine_def advancesLine_def)

lemma advanceAndUpdateLineNumber_advances:
  assumes wf: "wf_source s" and ne: "\<not> m_empty s"
  shows "advances s (advanceAndUpdateLineNumber s)" and "advancesLine s (advanceAndUpdateLineNumber s)"
proof -
  from wf ne have "advances s (advanceAndUpdateLineNumber s)
      \<and> advancesLine s (advanceAndUpdateLineNumber s)"
  proof (cases rule: wf_source_cases)
    case fast
    let ?x = "m_currentString s"
    let ?s1 = "if countsNewLine s then countNewLine s else s"
    have ptr: "m_dataPtr ?x \<noteq> None"
      using wf fast substring_ptr(1) [of ?x] by (auto simp: wf_source_def)
    have cc: "getCurrentChar ?x = m_currentChar s"
      using wf fast by (auto simp: wf_source_def)
    have nl: "countsNewLine s \<longleftrightarrow> m_currentChar s = c_LF \<and> m_doNotExcludeLineNumbers ?x"
      using fast ne by (auto simp: countsNewLine_def)
    note ptrs = wf_sourceD(7) [OF wf, unfolded pointers_ok_def Let_def]
    have "advanceAndUpdateLineNumber s = incrementAndLoad (decrementAndCheckLength ?s1)"
    proof (cases "m_fastPathFlags s AND Use8BitAdvance = 0")
      case True
      then have "advanceAndUpdateLineNumber s = callMember (m_advanceAndUpdateLineNumberFunc s) s"
        by (simp add: advanceAndUpdateLineNumber_def)
      then show ?thesis
        using ptrs fast cc nl
        by (auto simp: advanceAndUpdateLineNumber8_def advanceAndUpdateLineNumber16_def
            advance8_def advance16_def Let_def split: if_splits)
    next
      case False
      then show ?thesis
        using ptrs fast ptr nl
        by (auto simp: advanceAndUpdateLineNumber_def incrementAndLoad_def countNewLine_def
            decrementAndCheckLength_def ss_frame numberOfCharactersConsumed_def pushedCount_def
            numberOfCharactersConsumedSub_def stringLength_def incrementPtr_def Let_def)
    qed
    with countNewLine_fast [OF wf fast refl] show ?thesis by simp
  next
    case slow
    then have "advanceAndUpdateLineNumber s = advanceAndUpdateLineNumberSlowCase s"
      by (simp add: advanceAndUpdateLineNumber_def)
    with advanceAndUpdateLineNumberSlowCase_advances [OF wf slow(1)] show ?thesis by simp
  qed
  then show "advances s (advanceAndUpdateLineNumber s)"
    "advancesLine s (advanceAndUpdateLineNumber s)" by auto
qed

lemma advancePastNewlineAndUpdateLineNumber_advances:
  assumes wf: "wf_source s" and ne: "\<not> m_empty s" and nl: "currentChar s = c_LF"
  shows "advances s (advancePastNewlineAndUpdateLineNumber s)"
    and "advancesLine s (advancePastNewlineAndUpdateLineNumber s)"
proof -
  from wf ne have "advances s (advancePastNewlineAndUpdateLineNumber s)
      \<and> advancesLine s (advancePastNewlineAndUpdateLineNumber s)"
  proof (cases rule: wf_source_cases)
    case fast
    then have "advancePastNewlineAndUpdateLineNumber s =
        incrementAndLoad (decrementAndCheckLength (if countsNewLine s then countNewLine s else s))"
      using nl ne
      by (simp add: advancePastNewlineAndUpdateLineNumber_def Let_def countsNewLine_def currentChar_def)
    with countNewLine_fast [OF wf fast refl] show ?thesis by simp
  next
    case slow
    then have "advancePastNewlineAndUpdateLineNumber s = advanceAndUpdateLineNumberSlowCase s"
      using nl by (auto simp: advancePastNewlineAndUpdateLineNumber_def Let_def)
    with advanceAndUpdateLineNumberSlowCase_advances [OF wf slow(1)] show ?thesis by simp
  qed
  then show "advances s (advancePastNewlineAndUpdateLineNumber s)"
    "advancesLine s (advancePastNewlineAndUpdateLineNumber s)" by auto
qed


section \<open>Empty sources, appending and pushing back\<close>

lemma advance_at_end:
  assumes "wf_source s" and "m_empty s"
  shows "wf_source (advance s)" and "m_empty (advance s)" and "toStringSS (advance s) = []"
    and "assertsHold (advance s) = assertsHold s"
proof -
  note wfD = wf_sourceD [OF assms(1)]
  have z: "m_length (m_currentString s) = 0" "m_substrings s = []" "m_pushedChar1 s = 0"
    using wfD(4,6) assms(2) by auto
  have f: "m_fastPathFlags s = NoFastPath" "m_advanceFunc s \<in> {F_advanceSlowCase, F_advanceEmpty}"
    using wfD(7) z by (auto simp: pointers_ok_def Let_def)
  have "advance s = advanceEmpty s \<or> advance s = advanceSlowCase s"
    using f by (auto simp: advance_def)
  moreover have "advanceEmpty s = s\<lparr>m_currentChar := 0\<rparr>"
    using z by (simp add: advanceEmpty_def isComposite_def assertSS_def)
  moreover have "advanceSlowCase s = (becomeEmpty s)\<lparr>m_currentChar := 0\<rparr>"
    using z by (simp add: advanceSlowCase_def isComposite_def becomeEmpty_def clearSubstring_def ss_frame)
  moreover have "wf_source (s\<lparr>m_currentChar := 0\<rparr>)"
    using assms z by (simp add: wf_source_def)
  moreover have "wf_source ((becomeEmpty s)\<lparr>m_currentChar := 0\<rparr>)"
    using assms z by (auto simp: wf_source_def becomeEmpty_def clearSubstring_def substring_ok_def
        stringLength_def pointers_ok_def ss_frame)
  ultimately show "wf_source (advance s)" "m_empty (advance s)" "toStringSS (advance s) = []"
      "assertsHold (advance s) = assertsHold s"
    using assms z by (auto simp: toStringSS_Nil becomeEmpty_def ss_frame)
qed

text \<open>
  While a sequence of substrings is appended or pushed back the cached character is stale;
  \<open>wf_shape\<close> is the invariant without it.
\<close>

definition wf_shape :: "SegmentedString \<Rightarrow> bool" where
  "wf_shape s \<longleftrightarrow>
     substring_ok (m_currentString s) \<and>
     (\<forall>x\<in>set (m_substrings s). substring_ok x \<and> m_length x > 0) \<and>
     (m_length (m_currentString s) = 0 \<longrightarrow> m_substrings s = [] \<and> m_pushedChar1 s = 0) \<and>
     (m_pushedChar1 s = 0 \<longrightarrow> m_pushedChar2 s = 0) \<and>
     m_empty s = (m_length (m_currentString s) = 0) \<and>
     pointers_ok s \<and> readsInBounds s"

lemma wf_source_shape: "wf_source s \<Longrightarrow> wf_shape s"
  by (simp add: wf_source_def wf_shape_def)

lemma loadAfterAppend_ok:
  assumes "wf_shape s"
  shows "wf_source (loadAfterAppend s)" and "toStringSS (loadAfterAppend s) = toStringSS s"
    and "numberOfCharactersConsumed (loadAfterAppend s) = numberOfCharactersConsumed s"
    and "assertsHold (loadAfterAppend s) = assertsHold s" and "m_closed (loadAfterAppend s) = m_closed s"
    and "m_pushedChar1 (loadAfterAppend s) = m_pushedChar1 s"
    and "m_currentLine (loadAfterAppend s) = m_currentLine s"
proof -
  have ok: "substring_ok (m_currentString s)" using assms by (simp add: wf_shape_def)
  show "wf_source (loadAfterAppend s)"
    using assms by (auto simp: loadAfterAppend_def reloadCurrentChar_ok ok wf_source_def wf_shape_def)
  show "toStringSS (loadAfterAppend s) = toStringSS s"
    "numberOfCharactersConsumed (loadAfterAppend s) = numberOfCharactersConsumed s"
    "assertsHold (loadAfterAppend s) = assertsHold s" "m_closed (loadAfterAppend s) = m_closed s"
    "m_pushedChar1 (loadAfterAppend s) = m_pushedChar1 s"
    "m_currentLine (loadAfterAppend s) = m_currentLine s"
    by (simp_all add: loadAfterAppend_def reloadCurrentChar_ok ok toStringSS_pushed pushed_def
        numberOfCharactersConsumed_def pushedCount_def)
qed

lemma appendSubstring_cases:
  assumes "\<not> m_closed s"
  obtains (nothing) "m_length x = 0" "appendSubstring x s = s"
  | (first) "m_length x \<noteq> 0" "m_length (m_currentString s) = 0"
      "appendSubstring x s = (updateAdvanceFunctionPointers
         (s\<lparr>m_numberOfCharactersConsumedPriorToCurrentString :=
              m_numberOfCharactersConsumedPriorToCurrentString s
              + numberOfCharactersConsumedSub (m_currentString s),
            m_currentString := x\<rparr>))\<lparr>m_empty := False\<rparr>"
  | (queued) "m_length x \<noteq> 0" "m_length (m_currentString s) \<noteq> 0"
      "appendSubstring x s = s\<lparr>m_substrings := m_substrings s @ [x], m_empty := False\<rparr>"
  using assms by (cases "m_length x = 0"; cases "m_length (m_currentString s) = 0")
    (auto simp: appendSubstring_def Let_def)

lemma appendSubstring_ok:
  assumes wf: "wf_shape s" and x: "substring_ok x" and "\<not> m_closed s"
  shows "wf_shape (appendSubstring x s)"
    and "toStringSS (appendSubstring x s) = toStringSS s @ appendTo x"
    and "assertsHold (appendSubstring x s) = assertsHold s"
    and "m_closed (appendSubstring x s) = m_closed s"
    and "m_currentLine (appendSubstring x s) = m_currentLine s"
    and "m_pushedChar1 (appendSubstring x s) = m_pushedChar1 s"
    and "numberOfCharactersConsumedSub x = 0 \<Longrightarrow>
      numberOfCharactersConsumed (appendSubstring x s) = numberOfCharactersConsumed s"
proof -
  have x0: "0 \<le> m_length x" using x by (simp add: substring_ok_def)
  from assms(3) have "wf_shape (appendSubstring x s)
      \<and> toStringSS (appendSubstring x s) = toStringSS s @ appendTo x
      \<and> assertsHold (appendSubstring x s) = assertsHold s
      \<and> m_closed (appendSubstring x s) = m_closed s
      \<and> m_currentLine (appendSubstring x s) = m_currentLine s
      \<and> m_pushedChar1 (appendSubstring x s) = m_pushedChar1 s
      \<and> (numberOfCharactersConsumedSub x = 0 \<longrightarrow>
      numberOfCharactersConsumed (appendSubstring x s) = numberOfCharactersConsumed s)"
  proof (cases rule: appendSubstring_cases [where x = x])
    case nothing
    with wf x show ?thesis by (simp add: appendTo_Nil)
  next
    case first
    with wf x x0 show ?thesis
      by (auto simp: wf_shape_def toStringSS_pushed pushed_def appendTo_Nil
          numberOfCharactersConsumed_def pushedCount_def)
  next
    case queued
    with wf x x0 show ?thesis
      by (auto simp: wf_shape_def toStringSS_pushed pushed_def
          numberOfCharactersConsumed_def pushedCount_def)
  qed
  then show "wf_shape (appendSubstring x s)"
    "toStringSS (appendSubstring x s) = toStringSS s @ appendTo x"
    "assertsHold (appendSubstring x s) = assertsHold s"
    "m_closed (appendSubstring x s) = m_closed s"
    "m_currentLine (appendSubstring x s) = m_currentLine s"
    "m_pushedChar1 (appendSubstring x s) = m_pushedChar1 s"
    "numberOfCharactersConsumedSub x = 0 \<Longrightarrow>
      numberOfCharactersConsumed (appendSubstring x s) = numberOfCharactersConsumed s"
    by blast+
qed

lemma fold_appendSubstring_ok:
  assumes "wf_shape s" and "\<forall>x\<in>set xs. substring_ok x" and "\<not> m_closed s"
  shows "wf_shape (fold appendSubstring xs s)
    \<and> toStringSS (fold appendSubstring xs s) = toStringSS s @ concat (map appendTo xs)
    \<and> assertsHold (fold appendSubstring xs s) = assertsHold s
    \<and> m_closed (fold appendSubstring xs s) = m_closed s
    \<and> m_currentLine (fold appendSubstring xs s) = m_currentLine s
    \<and> m_pushedChar1 (fold appendSubstring xs s) = m_pushedChar1 s
    \<and> ((\<forall>x\<in>set xs. numberOfCharactersConsumedSub x = 0) \<longrightarrow>
         numberOfCharactersConsumed (fold appendSubstring xs s) = numberOfCharactersConsumed s)"
  using assms
proof (induction xs arbitrary: s)
  case Nil
  then show ?case by simp
next
  case (Cons x xs)
  then show ?case using appendSubstring_ok [of s x] by simp
qed

definition substrings_ok :: "SegmentedString \<Rightarrow> bool" where
  "substrings_ok s \<longleftrightarrow> substring_ok (m_currentString s) \<and> (\<forall>x\<in>set (m_substrings s). substring_ok x)"

definition unconsumed :: "SegmentedString \<Rightarrow> bool" where
  "unconsumed s \<longleftrightarrow> numberOfCharactersConsumedSub (m_currentString s) = 0
     \<and> (\<forall>x\<in>set (m_substrings s). numberOfCharactersConsumedSub x = 0)"

lemma appendSS_ok:
  assumes wf: "wf_source s" and ok: "substrings_ok other"
    and "m_pushedChar1 other = 0" and open': "\<not> m_closed s"
  shows "wf_source (appendSS other s)"
    and "toStringSS (appendSS other s) = toStringSS s @ toStringSS other"
    and "assertsHold (appendSS other s) = assertsHold s"
    and "m_closed (appendSS other s) = m_closed s"
    and "m_currentLine (appendSS other s) = m_currentLine s"
    and "m_pushedChar1 (appendSS other s) = m_pushedChar1 s"
    and "unconsumed other \<Longrightarrow>
      numberOfCharactersConsumed (appendSS other s) = numberOfCharactersConsumed s"
proof -
  let ?xs = "m_currentString other # m_substrings other"
  have eq: "appendSS other s = loadAfterAppend (fold appendSubstring ?xs s)"
    using assms(3) open' by (simp add: appendSS_def)
  have str: "toStringSS other = concat (map appendTo ?xs)"
    using assms(3) by (simp add: toStringSS_pushed pushed_def)
  have xs: "\<forall>x\<in>set ?xs. substring_ok x" using ok by (simp add: substrings_ok_def)
  note f = fold_appendSubstring_ok [OF wf_source_shape [OF wf] xs open']
  then have sh: "wf_shape (fold appendSubstring ?xs s)" by blast
  show "wf_source (appendSS other s)"
    "toStringSS (appendSS other s) = toStringSS s @ toStringSS other"
    "assertsHold (appendSS other s) = assertsHold s"
    "m_closed (appendSS other s) = m_closed s"
    "m_currentLine (appendSS other s) = m_currentLine s"
    "m_pushedChar1 (appendSS other s) = m_pushedChar1 s"
    using f loadAfterAppend_ok [OF sh] unfolding eq str by simp_all
  assume "unconsumed other"
  then have "\<forall>x\<in>set ?xs. numberOfCharactersConsumedSub x = 0"
    by (simp add: unconsumed_def)
  with f loadAfterAppend_ok [OF sh]
  show "numberOfCharactersConsumed (appendSS other s) = numberOfCharactersConsumed s"
    unfolding eq by auto
qed

lemma pushBackSubstring_ok:
  assumes wf: "wf_shape s" and x: "substring_ok x"
    and p: "m_pushedChar1 s = 0" and fresh: "numberOfCharactersConsumedSub x = 0"
  shows "wf_shape (pushBackSubstring x s)
    \<and> toStringSS (pushBackSubstring x s) = appendTo x @ toStringSS s
    \<and> assertsHold (pushBackSubstring x s) = assertsHold s
    \<and> m_closed (pushBackSubstring x s) = m_closed s
    \<and> m_currentLine (pushBackSubstring x s) = m_currentLine s
    \<and> m_pushedChar1 (pushBackSubstring x s) = 0
    \<and> numberOfCharactersConsumed (pushBackSubstring x s) = numberOfCharactersConsumed s - m_length x"
proof (cases "m_length x = 0")
  case True
  with wf x p fresh show ?thesis by (simp add: pushBackSubstring_def appendTo_Nil)
next
  case False
  moreover have "0 \<le> m_length x" "0 \<le> m_length (m_currentString s)"
    using x wf by (simp_all add: substring_ok_def wf_shape_def)
  ultimately show ?thesis
    using wf x p fresh
    by (cases "m_length (m_currentString s) = 0")
      (auto simp: pushBackSubstring_def wf_shape_def toStringSS_pushed pushed_def appendTo_Nil
        numberOfCharactersConsumed_def pushedCount_def)
qed


lemma fold_pushBackSubstring_ok:
  assumes "wf_shape s" and "\<forall>x\<in>set xs. substring_ok x \<and> numberOfCharactersConsumedSub x = 0"
    and "m_pushedChar1 s = 0"
  shows "wf_shape (fold pushBackSubstring xs s)
    \<and> toStringSS (fold pushBackSubstring xs s) = concat (map appendTo (rev xs)) @ toStringSS s
    \<and> assertsHold (fold pushBackSubstring xs s) = assertsHold s
    \<and> m_closed (fold pushBackSubstring xs s) = m_closed s
    \<and> m_currentLine (fold pushBackSubstring xs s) = m_currentLine s
    \<and> m_pushedChar1 (fold pushBackSubstring xs s) = 0
    \<and> numberOfCharactersConsumed (fold pushBackSubstring xs s)
        = numberOfCharactersConsumed s - sum_list (map m_length xs)"
  using assms
proof (induction xs arbitrary: s)
  case Nil
  then show ?case by simp
next
  case (Cons x xs)
  then show ?case using pushBackSubstring_ok [of s x] by simp
qed

lemma pushBackSS_ok:
  assumes wf: "wf_source s" and ok: "substrings_ok other" and fresh: "unconsumed other"
    and p: "m_pushedChar1 s = 0" and p': "m_pushedChar1 other = 0"
  shows "wf_source (pushBackSS other s)"
    and "toStringSS (pushBackSS other s) = toStringSS other @ toStringSS s"
    and "assertsHold (pushBackSS other s) = assertsHold s"
    and "m_closed (pushBackSS other s) = m_closed s"
    and "m_currentLine (pushBackSS other s) = m_currentLine s"
    and "m_pushedChar1 (pushBackSS other s) = 0"
    and "numberOfCharactersConsumed (pushBackSS other s)
           = numberOfCharactersConsumed s - int (length (toStringSS other))"
proof -
  let ?xs = "rev (m_substrings other) @ [m_currentString other]"
  have eq: "pushBackSS other s = loadAfterAppend (fold pushBackSubstring ?xs s)"
    using p p' by (simp add: pushBackSS_def)
  have str: "toStringSS other = concat (map appendTo (rev ?xs))"
    using p' by (simp add: toStringSS_pushed pushed_def)
  have xs: "\<forall>x\<in>set ?xs. substring_ok x \<and> numberOfCharactersConsumedSub x = 0"
    using ok fresh by (auto simp: substrings_ok_def unconsumed_def)
  have "sum_list (map m_length ys) = int (length (concat (map appendTo (rev ys))))"
    if "\<forall>x\<in>set ys. substring_ok x" for ys
    using that by (induction ys) (auto simp: length_appendTo)
  with xs have len: "sum_list (map m_length ?xs) = int (length (toStringSS other))"
    unfolding str by blast
  note f = fold_pushBackSubstring_ok [OF wf_source_shape [OF wf] xs p]
  then have sh: "wf_shape (fold pushBackSubstring ?xs s)" by blast
  show "wf_source (pushBackSS other s)"
    "toStringSS (pushBackSS other s) = toStringSS other @ toStringSS s"
    "assertsHold (pushBackSS other s) = assertsHold s"
    "m_closed (pushBackSS other s) = m_closed s"
    "m_currentLine (pushBackSS other s) = m_currentLine s"
    "m_pushedChar1 (pushBackSS other s) = 0"
    "numberOfCharactersConsumed (pushBackSS other s)
       = numberOfCharactersConsumed s - int (length (toStringSS other))"
    using f loadAfterAppend_ok [OF sh] len unfolding eq str by simp_all
qed

lemma segmentedStringOf_ok:
  "wf_source (segmentedStringOf str)" "toStringSS (segmentedStringOf str) = chars str"
  "substrings_ok (segmentedStringOf str)" "unconsumed (segmentedStringOf str)"
  "m_pushedChar1 (segmentedStringOf str) = 0" "m_closed (segmentedStringOf str) = False"
  "assertsHold (segmentedStringOf str)" "numberOfCharactersConsumed (segmentedStringOf str) = 0"
proof -
  let ?s = "segmentedStringOf str"
  have sub: "substring_ok (substringOf str)" "numberOfCharactersConsumedSub (substringOf str) = 0"
    "m_length (substringOf str) = int (length (chars str))" "m_string (substringOf str) = str"
    by (auto simp: substringOf_def substring_ok_def stringLength_def numberOfCharactersConsumedSub_def)
  have rd: "chars str \<noteq> [] \<Longrightarrow> readable (substringOf str)"
    using sub by (intro readable_ok) auto
  have app: "appendTo (substringOf str) = chars str"
    using sub(2,3,4) by (auto simp: appendTo_def numberOfCharactersConsumedSub_def)
  show "wf_source ?s"
    using sub rd
    by (auto simp: segmentedStringOf_def wf_source_def emptySegmentedString_def ss_frame Let_def)
  show "toStringSS ?s = chars str"
    using app
    by (auto simp: segmentedStringOf_def toStringSS_pushed pushed_def emptySegmentedString_def ss_frame Let_def)
  show "substrings_ok ?s" "unconsumed ?s" "m_pushedChar1 ?s = 0" "m_closed ?s = False" "assertsHold ?s"
    "numberOfCharactersConsumed ?s = 0"
    using sub
    by (auto simp: segmentedStringOf_def substrings_ok_def unconsumed_def emptySegmentedString_def
        numberOfCharactersConsumed_def pushedCount_def ss_frame Let_def)
qed

lemma emptySegmentedString_ok:
  "wf_source emptySegmentedString" "toStringSS emptySegmentedString = []"
  by (auto simp: wf_source_def emptySegmentedString_def emptySubstring_def substring_ok_def
      stringLength_def pointers_ok_def toStringSS_def appendTo_def)

section \<open>The input-stream interface\<close>

text \<open>
  The HTML parser never pushes single characters back; \<open>source_ok\<close> is the invariant of its
  sources. Characters are put back with \<open>unconsumeCharacters\<close>.
\<close>

definition source_ok :: "SegmentedString \<Rightarrow> bool" where
  "source_ok s \<longleftrightarrow> wf_source s \<and> m_pushedChar1 s = 0"

lemma source_ok_unconsume:
  assumes "source_ok s"
  shows "source_ok (unconsumeCharacters cs s)"
    and "toStringSS (unconsumeCharacters cs s) = cs @ toStringSS s"
    and "numberOfCharactersConsumed (unconsumeCharacters cs s)
           = numberOfCharactersConsumed s - int (length cs)"
    and "assertsHold (unconsumeCharacters cs s) = assertsHold s"
    and "m_closed (unconsumeCharacters cs s) = m_closed s"
  using assms pushBackSS_ok [of s "segmentedStringOf (builderString cs)"]
    segmentedStringOf_ok [of "builderString cs"]
  by (simp_all add: source_ok_def unconsumeCharacters_def builderString_def)

lemma source_ok_current:
  assumes "source_ok s" and "\<not> isEmpty s"
  shows "currentChar s = hd (toStringSS s)"
proof -
  note wfD = wf_sourceD [of s]
  have "m_length (m_currentString s) > 0" "substring_ok (m_currentString s)"
    using assms wfD by (auto simp: source_ok_def isEmpty_def)
  with assms appendTo_next [of "m_currentString s"] show ?thesis
    by (auto simp: source_ok_def wf_source_def currentChar_def toStringSS_pushed pushed_def)
qed

lemma advancesD:
  assumes "advances s s'" and "source_ok s"
  shows "source_ok s'" "toStringSS s' = tl (toStringSS s)"
    "numberOfCharactersConsumed s' = numberOfCharactersConsumed s + 1"
    "assertsHold s' = assertsHold s" "m_closed s' = m_closed s"
  using assms by (auto simp: advances_def source_ok_def)

lemma source_ok_advances:
  assumes "source_ok s" and "\<not> isEmpty s"
  shows "advances s (advance s)" "advances s (advanceAndUpdateLineNumber s)"
  using assms advance_advances advanceAndUpdateLineNumber_advances
  by (auto simp: source_ok_def isEmpty_def)

interpretation src: input_stream source_ok toStringSS numberOfCharactersConsumed isEmpty
  currentChar advance unconsumeCharacters
proof unfold_locales
  fix s
  assume ok: "source_ok s"
  show "isEmpty s \<longleftrightarrow> toStringSS s = []"
    using ok by (simp add: source_ok_def isEmpty_def toStringSS_Nil)
  show "source_ok (unconsumeCharacters cs s)"
    "toStringSS (unconsumeCharacters cs s) = cs @ toStringSS s"
    "numberOfCharactersConsumed (unconsumeCharacters cs s)
       = numberOfCharactersConsumed s - int (length cs)" for cs
    using ok by (simp_all add: source_ok_unconsume)
  assume ne: "\<not> isEmpty s"
  note adv = advancesD [OF source_ok_advances(1) [OF ok ne] ok]
  show "currentChar s = hd (toStringSS s)" by (rule source_ok_current [OF ok ne])
  show "source_ok (advance s)" "toStringSS (advance s) = tl (toStringSS s)"
    "numberOfCharactersConsumed (advance s) = numberOfCharactersConsumed s + 1"
    using adv by simp_all
qed

interpretation lsrc: input_stream source_ok toStringSS numberOfCharactersConsumed isEmpty
  currentChar advanceAndUpdateLineNumber unconsumeCharacters
proof unfold_locales
  fix s
  assume ok: "source_ok s" and ne: "\<not> isEmpty s"
  note adv = advancesD [OF source_ok_advances(2) [OF ok ne] ok]
  show "source_ok (advanceAndUpdateLineNumber s)"
    "toStringSS (advanceAndUpdateLineNumber s) = tl (toStringSS s)"
    "numberOfCharactersConsumed (advanceAndUpdateLineNumber s) = numberOfCharactersConsumed s + 1"
    using adv by simp_all
qed (simp_all add: src.atEnd_iff src.current_hd src.inv_unread src.pending_unread src.position_unread)

lemma lengthSS_toString:
  assumes "wf_source s"
  shows "lengthSS s = int (length (toStringSS s))"
proof -
  have "sum_list (map m_length xs) = int (length (concat (map appendTo xs)))"
    if "\<forall>x\<in>set xs. substring_ok x" for xs
    using that by (induction xs) (auto simp: length_appendTo)
  then have "sum_list (map m_length (m_substrings s)) = int (length (concat (map appendTo (m_substrings s))))"
    using assms by (auto simp: wf_source_def)
  with assms show ?thesis
    by (auto simp: lengthSS_def toStringSS_pushed pushed_def pushedCount_def length_appendTo wf_source_def)
qed

section \<open>Consuming a literal\<close>

lemma advancePastNonNewline_ok:
  assumes "source_ok s" and "\<not> isEmpty s"
  shows "source_ok (advancePastNonNewline s)"
    and "toStringSS (advancePastNonNewline s) = tl (toStringSS s)"
    and "m_closed (advancePastNonNewline s) = m_closed s"
    and "numberOfCharactersConsumed (advancePastNonNewline s) = numberOfCharactersConsumed s + 1"
    and "assertsHold (advancePastNonNewline s) \<longleftrightarrow> assertsHold s \<and> currentChar s \<noteq> c_LF"
proof -
  let ?a = "assertSS (currentChar s \<noteq> c_LF) s"
  have "source_ok ?a" "\<not> isEmpty ?a" and str: "toStringSS ?a = toStringSS s"
    and pos: "numberOfCharactersConsumed ?a = numberOfCharactersConsumed s"
    using assms
    by (simp_all add: assertSS_def source_ok_def wf_source_def isEmpty_def toStringSS_def
        numberOfCharactersConsumed_def pushedCount_def)
  from advancesD [OF source_ok_advances(1) [OF this(1,2)] this(1)]
  show "source_ok (advancePastNonNewline s)"
    "toStringSS (advancePastNonNewline s) = tl (toStringSS s)"
    "m_closed (advancePastNonNewline s) = m_closed s"
    "numberOfCharactersConsumed (advancePastNonNewline s) = numberOfCharactersConsumed s + 1"
    "assertsHold (advancePastNonNewline s) \<longleftrightarrow> assertsHold s \<and> currentChar s \<noteq> c_LF"
    by (auto simp: advancePastNonNewline_def str pos) (auto simp: assertSS_def)
qed

lemma advancePastNonNewlinesInto_ok:
  assumes "source_ok s" and "n \<le> length (toStringSS s)"
    and "advancePastNonNewlinesInto n s = (cs, s')"
  shows "source_ok s' \<and> cs = take n (toStringSS s) \<and> toStringSS s' = drop n (toStringSS s)
    \<and> m_closed s' = m_closed s
    \<and> numberOfCharactersConsumed s' = numberOfCharactersConsumed s + int n
    \<and> (assertsHold s' \<longleftrightarrow> assertsHold s \<and> c_LF \<notin> set (take n (toStringSS s)))"
  using assms
proof (induction n arbitrary: s cs)
  case 0
  then show ?case by simp
next
  case (Suc n)
  then have ne: "\<not> isEmpty s" by (auto simp: src.atEnd_iff)
  note step = advancePastNonNewline_ok [OF Suc.prems(1) ne]
  from Suc.prems(3) obtain ds where ds: "advancePastNonNewlinesInto n (advancePastNonNewline s) = (ds, s')"
      "cs = currentChar s # ds"
    by (auto simp: Let_def split: prod.splits)
  have p: "toStringSS s = currentChar s # toStringSS (advancePastNonNewline s)"
    using src.pending_Cons [OF Suc.prems(1) ne] src.pending_forward [OF Suc.prems(1) ne] step(2) by simp
  then have "n \<le> length (toStringSS (advancePastNonNewline s))" using Suc.prems(2) by simp
  from Suc.IH [OF step(1) this ds(1)] step(3-5) ds(2) show ?case
    unfolding p by auto
qed

lemma advancePastNonNewlines_Into: "advancePastNonNewlines n s = snd (advancePastNonNewlinesInto n s)"
  by (induction n arbitrary: s) (auto simp: Let_def split: prod.splits)


lemma currentSubString_take:
  assumes "source_ok s" and "int n \<le> m_length (m_currentString s)"
  shows "chars (currentSubString (m_currentString s) n) = take n (toStringSS s)"
proof -
  have ok: "substring_ok (m_currentString s)" and p: "m_pushedChar1 s = 0"
    using assms(1) by (auto simp: source_ok_def wf_source_def)
  have "n \<le> length (appendTo (m_currentString s))"
    using assms(2) length_appendTo [OF ok] by simp
  with p show ?thesis
    by (simp add: currentSubString_def Let_def toStringSS_pushed pushed_def appendTo_drop [OF ok])
qed

lemma advancePast_cases:
  assumes ok: "source_ok s" and r: "advancePast f lit b s = (r, s')"
  obtains (short) "r = NotEnoughCharacters" "length (toStringSS s) < length lit" "s' = s"
  | (no) is8 where "r = DidNotMatch" "length lit \<le> length (toStringSS s)"
      "\<not> startsWith f (WString is8 (take (length lit) (toStringSS s))) lit b"
      "source_ok s'" "toStringSS s' = toStringSS s"
      "numberOfCharactersConsumed s' = numberOfCharactersConsumed s" "m_closed s' = m_closed s"
      "c_LF \<notin> set (take (length lit) (toStringSS s)) \<Longrightarrow> assertsHold s' = assertsHold s"
  | (yes) is8 where "r = DidMatch" "length lit \<le> length (toStringSS s)"
      "startsWith f (WString is8 (take (length lit) (toStringSS s))) lit b"
      "source_ok s'" "toStringSS s' = drop (length lit) (toStringSS s)"
      "numberOfCharactersConsumed s' = numberOfCharactersConsumed s + int (length lit)"
      "m_closed s' = m_closed s"
      "c_LF \<notin> set (take (length lit) (toStringSS s)) \<Longrightarrow> assertsHold s' = assertsHold s"
proof -
  let ?n = "length lit"
  have wf: "wf_source s" and p: "m_pushedChar1 s = 0" using ok by (auto simp: source_ok_def)
  note len = lengthSS_toString [OF wf]
  obtain cs t where into: "advancePastNonNewlinesInto ?n s = (cs, t)" by (meson surj_pair)
  show thesis
  proof (cases "int ?n \<le> m_length (m_currentString s)")
    case True
    have le: "?n \<le> length (toStringSS s)"
    proof -
      have "substring_ok (m_currentString s)" using wf by (simp add: wf_source_def)
      then have "int ?n \<le> int (length (appendTo (m_currentString s)))"
        using True by (simp add: length_appendTo)
      then show ?thesis using p by (simp add: toStringSS_pushed pushed_def)
    qed
    note I = advancePastNonNewlinesInto_ok [OF ok le into]
    let ?w = "currentSubString (m_currentString s) ?n"
    have w: "?w = WString (is8Bit_str ?w) (take ?n (toStringSS s))"
      using currentSubString_take [OF ok True] by (metis wtf_string.collapse)
    show thesis
    proof (cases "startsWith f ?w lit b")
      case sw: True
      with True p r have "r = DidMatch" "s' = t"
        by (auto simp: advancePast_def advancePastNonNewlines_Into into)
      with I le sw show thesis by (intro yes [of "is8Bit_str ?w"]) (auto simp: w [symmetric])
    next
      case sw: False
      with True p r have "r = DidNotMatch" "s' = s" by (auto simp: advancePast_def)
      with ok le sw show thesis by (intro no [of "is8Bit_str ?w"]) (auto simp: w [symmetric])
    qed
  next
    case False
    then have slow: "advancePast f lit b s = advancePastSlowCase f lit b s"
      by (simp add: advancePast_def)
    show thesis
    proof (cases "?n \<le> length (toStringSS s)")
      case le: True
      note I = advancePastNonNewlinesInto_ok [OF ok le into]
      show thesis
      proof (cases "startsWith f (WString False cs) lit b")
        case True
        with slow r le len into have "r = DidMatch" "s' = t"
          by (auto simp: advancePastSlowCase_def)
        with I le True show thesis by (intro yes [of False]) auto
      next
        case False
        with slow r le len into
        have "r = DidNotMatch" "s' = pushBackSS (segmentedStringOf (WString False cs)) t"
          by (auto simp: advancePastSlowCase_def)
        with I le False pushBackSS_ok [of t "segmentedStringOf (WString False cs)"]
          segmentedStringOf_ok [of "WString False cs"]
        show thesis by (intro no [of False]) (auto simp: source_ok_def)
      qed
    next
      case False
      with slow r len have "r = NotEnoughCharacters" "s' = s"
        by (auto simp: advancePastSlowCase_def)
      with False short show thesis by simp
    qed
  qed
qed

section \<open>Net consumption\<close>

text \<open>\<open>moves n s t\<close>: from \<open>s\<close> to \<open>t\<close> the first \<open>n\<close> pending characters have been consumed.\<close>

definition moves :: "nat \<Rightarrow> SegmentedString \<Rightarrow> SegmentedString \<Rightarrow> bool" where
  "moves n s t \<longleftrightarrow>
     source_ok t \<and> n \<le> length (toStringSS s) \<and> toStringSS t = drop n (toStringSS s) \<and>
     numberOfCharactersConsumed t = numberOfCharactersConsumed s + int n \<and>
     m_closed t = m_closed s \<and> assertsHold t = assertsHold s"

lemma moves_refl [intro, simp]: "source_ok s \<Longrightarrow> moves 0 s s"
  by (simp add: moves_def)

lemma moves_ok: "moves n s t \<Longrightarrow> source_ok t"
  by (simp add: moves_def)

lemma moves_trans: "moves m s t \<Longrightarrow> moves n t u \<Longrightarrow> moves (m + n) s u"
  by (auto simp: moves_def add.commute)

lemma moves_advances:
  assumes "advances s t" and "source_ok s" and "\<not> isEmpty s"
  shows "moves 1 s t"
proof -
  have "toStringSS s \<noteq> []" using assms(2,3) by (simp add: src.atEnd_iff)
  then show ?thesis using advancesD [OF assms(1,2)] by (cases "toStringSS s") (auto simp: moves_def)
qed

lemma moves_advance: "source_ok s \<Longrightarrow> \<not> isEmpty s \<Longrightarrow> moves 1 s (advance s)"
  by (rule moves_advances [OF source_ok_advances(1)])

lemma moves_advanceLine: "source_ok s \<Longrightarrow> \<not> isEmpty s \<Longrightarrow> moves 1 s (advanceAndUpdateLineNumber s)"
  by (rule moves_advances [OF source_ok_advances(2)])

lemma moves_step:
  assumes "moves n s t" and "\<not> isEmpty t"
  shows "moves (Suc n) s (advance t)"
  using moves_trans [OF assms(1) moves_advance [OF moves_ok [OF assms(1)] assms(2)]] by simp

lemma moves_current:
  assumes "moves n s t" and "\<not> isEmpty t"
  shows "take (Suc n) (toStringSS s) = take n (toStringSS s) @ [currentChar t]"
proof -
  have "toStringSS t = currentChar t # toStringSS (advance t)"
    by (rule src.pending_Cons [OF moves_ok [OF assms(1)] assms(2)])
  then have "drop n (toStringSS s) = currentChar t # toStringSS (advance t)"
    using assms(1) by (simp add: moves_def)
  then show ?thesis
    by (metis hd_drop_conv_nth linorder_not_le list.sel(1) drop_all list.distinct(1) take_Suc_conv_app_nth)
qed

lemma moves_isEmpty: "moves n s t \<Longrightarrow> isEmpty t \<longleftrightarrow> n = length (toStringSS s)"
  by (auto simp: moves_def src.atEnd_iff)

text \<open>Putting back what was consumed undoes the consumption.\<close>

lemma moves_unread:
  assumes "moves n s t"
  shows "moves 0 s (unconsumeCharacters (take n (toStringSS s)) t)"
  using assms source_ok_unconsume [of t "take n (toStringSS s)"] by (auto simp: moves_def)

lemma moves_pushBack:
  assumes "moves n s t" and "chars str = take n (toStringSS s)"
  shows "moves 0 s (pushBackSS (segmentedStringOf str) t)"
  using assms pushBackSS_ok [of t "segmentedStringOf str"] segmentedStringOf_ok [of str]
  by (auto simp: moves_def source_ok_def)

end
