(* ===== verification/Source_Properties.thy ===== *)
theory Source_Properties
  imports Segmented_String_Refine
begin

text \<open>
  What \<^verbatim>\<open>SegmentedString\<close> promises its clients, stated over the abstraction \<open>toStringSS\<close>: a text
  assembled from segments behaves like the concatenation of the segments, lines and columns
  are those of the consumed text, a literal is matched whatever the segmentation, and a
  copy is the original as long as at most one character has been pushed back.
\<close>

section \<open>Lines and columns\<close>

text \<open>
  A line feed counts as the end of a line unless its segment is excluded from the line count.
  \<open>marks\<close> says of each pending character whether it is a line feed that counts.
\<close>

definition lineFlags :: "SegmentedString \<Rightarrow> bool list" where
  "lineFlags s = concat (map (\<lambda>x. replicate (nat (m_length x)) (m_doNotExcludeLineNumbers x))
     (m_currentString s # m_substrings s))"

definition marks :: "SegmentedString \<Rightarrow> bool list" where
  "marks s = map2 (\<lambda>c f. c = c_LF \<and> f) (toStringSS s) (lineFlags s)"

lemma reload_frame [simp]:
  "m_currentString (reloadCurrentChar s) = m_currentString s"
  "m_substrings (reloadCurrentChar s) = m_substrings s"
  by (simp_all add: reloadCurrentChar_def loadCurrentChar_def readCurrentChar_def assertSS_def)

lemma lineFlags_Cons:
  "lineFlags s = replicate (nat (m_length (m_currentString s))) (m_doNotExcludeLineNumbers (m_currentString s))
     @ concat (map (\<lambda>x. replicate (nat (m_length x)) (m_doNotExcludeLineNumbers x)) (m_substrings s))"
  by (simp add: lineFlags_def)

lemma lineFlags_frame [simp]:
  "lineFlags (reloadCurrentChar s) = lineFlags s"
  "lineFlags (countNewLine s) = lineFlags s"
  "lineFlags (assertSS b s) = lineFlags s"
  "lineFlags (updateSlowCaseFunctionPointers s) = lineFlags s"
  by (simp_all add: lineFlags_def assertSS_def countNewLine_def updateSlowCaseFunctionPointers_def)

lemma lineFlags_fast:
  assumes "m_length (m_currentString s) > 1"
  shows "lineFlags (incrementAndLoad (decrementAndCheckLength s)) = tl (lineFlags s)"
    and "lineFlags (incrementAndLoad (s\<lparr>m_currentString := (m_currentString s)
           \<lparr>m_length := m_length (m_currentString s) - 1\<rparr>\<rparr>)) = tl (lineFlags s)"
proof -
  obtain n where "m_length (m_currentString s) = int (Suc n)"
    using assms by (cases "m_length (m_currentString s)" rule: int_cases4) (auto elim: lessE)
  then show "lineFlags (incrementAndLoad (decrementAndCheckLength s)) = tl (lineFlags s)"
    "lineFlags (incrementAndLoad (s\<lparr>m_currentString := (m_currentString s)
       \<lparr>m_length := m_length (m_currentString s) - 1\<rparr>\<rparr>)) = tl (lineFlags s)"
    by (simp_all add: incrementAndLoad_def decrementAndCheckLength_def lineFlags_Cons readCurrentChar_def assertSS_def
        updateSlowCaseFunctionPointers_def incrementPtr_def Let_def nat_add_distrib)
qed

lemma lineFlags_slow:
  assumes "m_pushedChar1 s = 0" and "m_length (m_currentString s) = 1"
  shows "lineFlags (advanceAndUpdateLineNumberSlowCase s) = tl (lineFlags s)"
  using assms
  by (auto simp: advanceAndUpdateLineNumberSlowCase_def Let_def advanceSubstring_def lineFlags_Cons
      setEmptyFunctionPointers_def clearSubstring_def countNewLine_def split: list.split)

lemma lineFlags_advance:
  assumes "source_ok s" and "\<not> isEmpty s"
  shows "lineFlags (advanceAndUpdateLineNumber s) = tl (lineFlags s)"
proof -
  have wf: "wf_source s" and p: "m_pushedChar1 s = 0" using assms(1) by (simp_all add: source_ok_def)
  have "\<not> m_empty s" using assms(2) by (simp add: isEmpty_def)
  with wf show ?thesis
  proof (cases rule: wf_source_cases)
    case fast
    have ptr: "m_fastPathFlags s AND Use8BitAdvance \<noteq> 0 \<or>
        m_advanceAndUpdateLineNumberFunc s \<in> {F_advance8, F_advance16, F_advanceAndUpdateLineNumber8, F_advanceAndUpdateLineNumber16}"
      using wf fast by (auto simp: wf_source_def pointers_ok_def Let_def split: if_splits)
    have len: "1 < m_length (m_currentString (assertSS b s))" "1 < m_length (m_currentString (countNewLine (assertSS b s)))" for b
      using fast by (simp_all add: assertSS_def countNewLine_def)
    have "lineFlags (s\<lparr>m_currentLine := l, m_numberOfCharactersConsumedPriorToCurrentLine := c\<rparr>) = lineFlags s" for s l c
      by (simp add: lineFlags_def)
    with ptr show ?thesis
      using lineFlags_fast(1) [OF len(1)] lineFlags_fast(1) [OF len(2)] lineFlags_fast(2) [OF len(1)]
      by (auto simp: advanceAndUpdateLineNumber_def Let_def advance8_def advance16_def
          advanceAndUpdateLineNumber8_def advanceAndUpdateLineNumber16_def)
  next
    case slow
    with p lineFlags_slow [of s] show ?thesis by (simp add: advanceAndUpdateLineNumber_def)
  qed
qed

lemma lineFlags_hd:
  assumes "source_ok s" and "\<not> isEmpty s"
  shows "\<exists>fs. lineFlags s = m_doNotExcludeLineNumbers (m_currentString s) # fs"
proof -
  have "0 < m_length (m_currentString s)"
    using assms by (auto simp: source_ok_def wf_source_def substring_ok_def isEmpty_def)
  then obtain n where "nat (m_length (m_currentString s)) = Suc n" by (metis gr0_implies_Suc zero_less_nat_eq)
  then show ?thesis by (simp add: lineFlags_Cons)
qed

lemma marks_advance:
  assumes "source_ok s" and "\<not> isEmpty s"
  shows "marks s = countsNewLine s # marks (advanceAndUpdateLineNumber s)"
proof -
  obtain fs where "lineFlags s = m_doNotExcludeLineNumbers (m_currentString s) # fs"
    using lineFlags_hd [OF assms] by blast
  moreover have "m_pushedChar1 s = 0" using assms(1) by (simp add: source_ok_def)
  ultimately show ?thesis
    using lsrc.pending_Cons [OF assms] lineFlags_advance [OF assms] assms(2)
    by (auto simp: marks_def countsNewLine_def currentChar_def isEmpty_def)
qed

definition columnAfter :: "bool list \<Rightarrow> int \<Rightarrow> int" where
  "columnAfter ms col =
     (if True \<in> set ms then int (length (takeWhile Not (rev ms))) else col + int (length ms))"

lemma columnAfter_step: "columnAfter (ms @ [m]) col = (if m then 0 else columnAfter ms col + 1)"
  by (auto simp: columnAfter_def)

lemma line_run:
  assumes "source_ok s" and "n \<le> length (toStringSS s)"
  shows "\<exists>ms. length ms = n \<and> marks s = ms @ marks ((advanceAndUpdateLineNumber ^^ n) s)
    \<and> currentLine ((advanceAndUpdateLineNumber ^^ n) s) = currentLine s + int (count_list ms True)
    \<and> currentColumn ((advanceAndUpdateLineNumber ^^ n) s) = columnAfter ms (currentColumn s)"
  using assms(2)
proof (induction n)
  case 0
  show ?case by (simp add: columnAfter_def)
next
  case (Suc n)
  let ?t = "(advanceAndUpdateLineNumber ^^ n) s"
  from Suc obtain ms where ms: "length ms = n" "marks s = ms @ marks ?t"
    "currentLine ?t = currentLine s + int (count_list ms True)"
    "currentColumn ?t = columnAfter ms (currentColumn s)" by auto
  have run: "source_ok ?t" "toStringSS ?t = drop n (toStringSS s)"
    using lsrc.forward_n [OF assms(1), of n] Suc.prems by auto
  with Suc.prems have ne: "\<not> isEmpty ?t" by (simp add: lsrc.atEnd_iff)
  have "advancesLine ?t (advanceAndUpdateLineNumber ?t)" "advances ?t (advanceAndUpdateLineNumber ?t)"
    using advanceAndUpdateLineNumber_advances [of ?t] run(1) ne by (simp_all add: isEmpty_def source_ok_def)
  with ms marks_advance [OF run(1) ne] show ?case
    by (intro exI [of _ "ms @ [countsNewLine ?t]"])
      (auto simp: columnAfter_step advancesLine_def advances_def currentLine_def currentColumn_def)
qed

lemma length_lineFlags:
  assumes "source_ok s"
  shows "length (lineFlags s) = length (toStringSS s)"
  using assms
proof (induction "length (toStringSS s)" arbitrary: s)
  case 0
  then have "m_length (m_currentString s) = 0" "m_substrings s = []"
    using toStringSS_Nil [of s] by (auto simp: source_ok_def wf_source_def)
  with 0 show ?case by (simp add: lineFlags_Cons)
next
  case (Suc n)
  then have ne: "\<not> isEmpty s" by (auto simp: lsrc.atEnd_iff)
  with Suc show ?case
    using lineFlags_advance [OF Suc.prems ne] lineFlags_hd [OF Suc.prems ne] lsrc.pending_Cons [OF Suc.prems ne]
      lsrc.inv_forward [OF Suc.prems ne]
    by auto
qed

lemma length_marks: "source_ok s \<Longrightarrow> length (marks s) = length (toStringSS s)"
  by (simp add: marks_def length_lineFlags)


section \<open>Text in segments\<close>

definition appendAll :: "wtf_string list \<Rightarrow> SegmentedString \<Rightarrow> SegmentedString" where
  "appendAll xs s = fold (\<lambda>x. appendSS (segmentedStringOf x)) xs s"

lemma appendAll_run:
  assumes "source_ok s" and "\<not> m_closed s"
  shows "source_ok (appendAll xs s) \<and> toStringSS (appendAll xs s) = toStringSS s @ concat (map chars xs)
    \<and> numberOfCharactersConsumed (appendAll xs s) = numberOfCharactersConsumed s
    \<and> assertsHold (appendAll xs s) = assertsHold s \<and> \<not> m_closed (appendAll xs s)"
  using assms
proof (induction xs arbitrary: s)
  case (Cons x xs)
  let ?t = "appendSS (segmentedStringOf x) s"
  have "source_ok ?t" "toStringSS ?t = toStringSS s @ chars x" "\<not> m_closed ?t" "assertsHold ?t = assertsHold s"
    "numberOfCharactersConsumed ?t = numberOfCharactersConsumed s"
    using Cons.prems appendSS_ok [of s "segmentedStringOf x"] segmentedStringOf_ok [of x]
    by (auto simp: source_ok_def)
  with Cons.IH [of ?t] show ?case by (simp add: appendAll_def)
qed (simp add: appendAll_def)

lemma emptySegmentedString_source:
  "source_ok emptySegmentedString" "\<not> m_closed emptySegmentedString" "assertsHold emptySegmentedString"
  "numberOfCharactersConsumed emptySegmentedString = 0"
  using emptySegmentedString_ok
  by (simp_all add: source_ok_def emptySegmentedString_def numberOfCharactersConsumed_def emptySubstring_def
      numberOfCharactersConsumedSub_def stringLength_def pushedCount_def)

text \<open>
  C21: a source to which segments are appended one after the other holds their concatenation,
  its length is the sum of theirs, none of its characters counts as consumed, it is empty
  exactly when they all are, and no \<^verbatim>\<open>ASSERT\<close> fails on the way.
\<close>

theorem segments_concatenate:
  "toStringSS (appendAll xs emptySegmentedString) = concat (map chars xs)
   \<and> lengthSS (appendAll xs emptySegmentedString) = int (length (concat (map chars xs)))
   \<and> numberOfCharactersConsumed (appendAll xs emptySegmentedString) = 0
   \<and> (isEmpty (appendAll xs emptySegmentedString) \<longleftrightarrow> concat (map chars xs) = [])
   \<and> assertsHold (appendAll xs emptySegmentedString)"
proof -
  note r = appendAll_run [OF emptySegmentedString_source(1,2), of xs]
  with lengthSS_toString [of "appendAll xs emptySegmentedString"]
    src.atEnd_iff [of "appendAll xs emptySegmentedString"]
  show ?thesis using emptySegmentedString_source emptySegmentedString_ok by (simp add: source_ok_def)
qed

definition exampleSource :: SegmentedString where
  "exampleSource = appendAll [WString True (ascii ''a'' @ [c_LF]), WString False (ascii ''bc'')] emptySegmentedString"

lemma exampleSource_ok: "source_ok exampleSource"
  "marks exampleSource = [False, True, False, False]"
  "toStringSS exampleSource = ascii ''a'' @ [c_LF] @ ascii ''bc''" "\<not> isEmpty exampleSource"
  by code_simp+


section \<open>Reading ahead\<close>



section \<open>Matching a literal\<close>



section \<open>Copies\<close>

lemma copy_reload:
  assumes "wf_source s" and "m_pushedChar2 s = 0"
  shows "copySegmentedString s = s"
proof -
  have "reloadCurrentChar s = s" if "m_pushedChar1 s = 0"
    using assms that reloadCurrentChar_ok [of s] by (simp add: wf_source_def)
  moreover have "s\<lparr>m_currentChar := m_currentChar s\<rparr> = s" by simp
  ultimately show ?thesis using assms by (auto simp: copySegmentedString_def wf_source_def)
qed

text \<open>
  C24: a copy of a well-formed source with at most one pushed-back character is the source
  itself, by construction as by assignment, whatever the target held before.
\<close>

theorem copy_is_identity:
  assumes "wf_source s" and "m_pushedChar2 s = 0" and "wf_source t" and "assertsHold t = assertsHold s"
  shows "copySegmentedString s = s \<and> assignSegmentedString s t = s"
proof -
  have "substring_ok (m_currentString s)" "readsInBounds s" "readsInBounds t"
    using assms by (simp_all add: wf_source_def)
  then have "assignSegmentedString s t = copySegmentedString s"
    using assms(2,4)
    by (simp add: assignSegmentedString_def copySegmentedString_def Let_def reloadCurrentChar_ok)
  then show ?thesis using copy_reload [OF assms(1,2)] by simp
qed

theorem copy_is_identity_witness:
  "assignSegmentedString exampleSource emptySegmentedString = exampleSource"
proof -
  have "m_pushedChar2 exampleSource = 0" "assertsHold emptySegmentedString = assertsHold exampleSource"
    by code_simp+
  then show ?thesis
    using copy_is_identity [of exampleSource emptySegmentedString] exampleSource_ok(1) emptySegmentedString_source(1)
    by (simp add: source_ok_def)
qed

text \<open>
  C27: with two characters pushed back the copy is wrong: it starts with the second of them,
  while the original starts with the first.
\<close>

theorem copy_of_two_pushed:
  assumes "wf_source s" and "\<not> isEmpty s" and "m_pushedChar1 s = 0" and "c \<noteq> 0" and "d \<noteq> 0"
  shows "currentChar (push d (push c s)) = c \<and> toStringSS (push d (push c s)) = c # d # toStringSS s
    \<and> currentChar (copySegmentedString (push d (push c s))) = d"
  using assms
  by (auto simp: push_def Let_def currentChar_def copySegmentedString_def toStringSS_def assertSS_def
      updateSlowCaseFunctionPointers_def wf_source_def)

theorem copy_of_two_pushed_witness:
  "currentChar (push 0x62 (push 0x61 exampleSource)) = 0x61
   \<and> currentChar (copySegmentedString (push 0x62 (push 0x61 exampleSource))) = 0x62"
  using copy_of_two_pushed [of exampleSource "0x61" "0x62"] exampleSource_ok(1,4)
  by (simp add: source_ok_def)

end
