(* ===== verification/Tokenizer_State.thy ===== *)
theory Tokenizer_State
  imports Main
begin

text \<open>
  The states of the HTML tokenizer (\<^verbatim>\<open>enum State\<close> of \<^verbatim>\<open>html/parser/HTMLTokenizer.h\<close>), one
  constructor per enumerator, in the order of the source.
\<close>

datatype (plugins only: code size) State =
    DataState
  | CharacterReferenceInDataState
  | RCDATAState
  | CharacterReferenceInRCDATAState
  | RAWTEXTState
  | ScriptDataState
  | PLAINTEXTState
  | TagOpenState
  | EndTagOpenState
  | TagNameState
  | RCDATALessThanSignState
  | RCDATAEndTagOpenState
  | RCDATAEndTagNameState
  | RAWTEXTLessThanSignState
  | RAWTEXTEndTagOpenState
  | RAWTEXTEndTagNameState
  | ScriptDataLessThanSignState
  | ScriptDataEndTagOpenState
  | ScriptDataEndTagNameState
  | ScriptDataEscapeStartState
  | ScriptDataEscapeStartDashState
  | ScriptDataEscapedState
  | ScriptDataEscapedDashState
  | ScriptDataEscapedDashDashState
  | ScriptDataEscapedLessThanSignState
  | ScriptDataEscapedEndTagOpenState
  | ScriptDataEscapedEndTagNameState
  | ScriptDataDoubleEscapeStartState
  | ScriptDataDoubleEscapedState
  | ScriptDataDoubleEscapedDashState
  | ScriptDataDoubleEscapedDashDashState
  | ScriptDataDoubleEscapedLessThanSignState
  | ScriptDataDoubleEscapeEndState
  | BeforeAttributeNameState
  | AttributeNameState
  | AfterAttributeNameState
  | BeforeAttributeValueState
  | AttributeValueDoubleQuotedState
  | AttributeValueSingleQuotedState
  | AttributeValueUnquotedState
  | CharacterReferenceInAttributeValueState
  | AfterAttributeValueQuotedState
  | SelfClosingStartTagState
  | BogusCommentState
  | ContinueBogusCommentState
  | MarkupDeclarationOpenState
  | CommentStartState
  | CommentStartDashState
  | CommentState
  | CommentEndDashState
  | CommentEndState
  | CommentEndBangState
  | DOCTYPEState
  | BeforeDOCTYPENameState
  | DOCTYPENameState
  | AfterDOCTYPENameState
  | AfterDOCTYPEPublicKeywordState
  | BeforeDOCTYPEPublicIdentifierState
  | DOCTYPEPublicIdentifierDoubleQuotedState
  | DOCTYPEPublicIdentifierSingleQuotedState
  | AfterDOCTYPEPublicIdentifierState
  | BetweenDOCTYPEPublicAndSystemIdentifiersState
  | AfterDOCTYPESystemKeywordState
  | BeforeDOCTYPESystemIdentifierState
  | DOCTYPESystemIdentifierDoubleQuotedState
  | DOCTYPESystemIdentifierSingleQuotedState
  | AfterDOCTYPESystemIdentifierState
  | BogusDOCTYPEState
  | CDATASectionState
  | CDATASectionRightSquareBracketState
  | CDATASectionDoubleRightSquareBracketState

end
