(* ===== verification/Html_Token.thy ===== *)
theory Html_Token
  imports Prelude
begin

text \<open>
  The token under construction: \<^verbatim>\<open>html/parser/HTMLToken.h\<close>. One definition per member
  function. The field \<open>tokenAsserts\<close> is the conjunction of the \<^verbatim>\<open>ASSERT\<close>s the member
  functions have executed on this token; the other fields never depend on it.
  \<^verbatim>\<open>m_currentAttribute\<close> is an index into \<^verbatim>\<open>m_attributes\<close> and is reset where an
  assertion-enabled build resets it; \<^verbatim>\<open>endOffset\<close> is \<open>None\<close> until \<^verbatim>\<open>endAttribute\<close> writes it.
\<close>

datatype TokenType =
    Uninitialized | DOCTYPE | StartTag | EndTag | Comment | Character | EndOfFile

record DoctypeData =
  hasPublicIdentifier :: bool
  hasSystemIdentifier :: bool
  publicIdentifier :: "uchar list"
  systemIdentifier :: "uchar list"
  forceQuirks :: bool

record Attribute =
  attributeName :: "uchar list"
  attributeValue :: "uchar list"
  startOffset :: int
  endOffset :: "int option"

record HTMLToken =
  m_type :: TokenType
  m_data :: "uchar list"
  m_data8BitCheck :: uchar
  m_selfClosing :: bool
  m_attributes :: "Attribute list"
  m_currentAttribute :: "nat option"
  m_doctypeData :: "DoctypeData option"
  tokenAsserts :: bool

definition newToken :: HTMLToken where
  "newToken = \<lparr>m_type = Uninitialized, m_data = [], m_data8BitCheck = 0, m_selfClosing = False,
     m_attributes = [], m_currentAttribute = None, m_doctypeData = None, tokenAsserts = True\<rparr>"

definition assertTok :: "bool \<Rightarrow> HTMLToken \<Rightarrow> HTMLToken" where
  "assertTok P t = t\<lparr>tokenAsserts := tokenAsserts t \<and> P\<rparr>"

definition clearToken :: "HTMLToken \<Rightarrow> HTMLToken" where
  "clearToken t = t\<lparr>m_type := Uninitialized, m_data := [], m_data8BitCheck := 0\<rparr>"

definition makeEndOfFile :: "HTMLToken \<Rightarrow> HTMLToken" where
  "makeEndOfFile t = (assertTok (m_type t = Uninitialized) t)\<lparr>m_type := EndOfFile\<rparr>"

definition appendToName :: "uchar \<Rightarrow> HTMLToken \<Rightarrow> HTMLToken" where
  "appendToName c t =
     (assertTok (m_type t \<in> {StartTag, EndTag, DOCTYPE} \<and> c \<noteq> 0) t)
       \<lparr>m_data := m_data t @ [c], m_data8BitCheck := m_data8BitCheck t OR c\<rparr>"

definition setForceQuirks :: "HTMLToken \<Rightarrow> HTMLToken" where
  "setForceQuirks t =
     (assertTok (m_type t = DOCTYPE) t)
       \<lparr>m_doctypeData := map_option (\<lambda>d. d\<lparr>forceQuirks := True\<rparr>) (m_doctypeData t)\<rparr>"

definition newDoctypeData :: DoctypeData where
  "newDoctypeData = \<lparr>hasPublicIdentifier = False, hasSystemIdentifier = False,
     publicIdentifier = [], systemIdentifier = [], forceQuirks = False\<rparr>"

definition beginDOCTYPE :: "HTMLToken \<Rightarrow> HTMLToken" where
  "beginDOCTYPE t =
     (assertTok (m_type t = Uninitialized) t)
       \<lparr>m_type := DOCTYPE, m_doctypeData := Some newDoctypeData\<rparr>"

definition beginDOCTYPEWith :: "uchar \<Rightarrow> HTMLToken \<Rightarrow> HTMLToken" where
  "beginDOCTYPEWith c t0 =
     (let t = beginDOCTYPE (assertTok (c \<noteq> 0) t0)
      in t\<lparr>m_data := m_data t @ [c], m_data8BitCheck := m_data8BitCheck t OR c\<rparr>)"

definition setPublicIdentifierToEmptyString :: "HTMLToken \<Rightarrow> HTMLToken" where
  "setPublicIdentifierToEmptyString t =
     (assertTok (m_type t = DOCTYPE) t)
       \<lparr>m_doctypeData := map_option
          (\<lambda>d. d\<lparr>hasPublicIdentifier := True, publicIdentifier := []\<rparr>) (m_doctypeData t)\<rparr>"

definition setSystemIdentifierToEmptyString :: "HTMLToken \<Rightarrow> HTMLToken" where
  "setSystemIdentifierToEmptyString t =
     (assertTok (m_type t = DOCTYPE) t)
       \<lparr>m_doctypeData := map_option
          (\<lambda>d. d\<lparr>hasSystemIdentifier := True, systemIdentifier := []\<rparr>) (m_doctypeData t)\<rparr>"

definition doctypeHas :: "(DoctypeData \<Rightarrow> bool) \<Rightarrow> HTMLToken \<Rightarrow> bool" where
  "doctypeHas f t \<longleftrightarrow> (case m_doctypeData t of None \<Rightarrow> False | Some d \<Rightarrow> f d)"

definition appendToPublicIdentifier :: "uchar \<Rightarrow> HTMLToken \<Rightarrow> HTMLToken" where
  "appendToPublicIdentifier c t =
     (assertTok (c \<noteq> 0 \<and> m_type t = DOCTYPE \<and> doctypeHas hasPublicIdentifier t) t)
       \<lparr>m_doctypeData := map_option
          (\<lambda>d. d\<lparr>publicIdentifier := publicIdentifier d @ [c]\<rparr>) (m_doctypeData t)\<rparr>"

definition appendToSystemIdentifier :: "uchar \<Rightarrow> HTMLToken \<Rightarrow> HTMLToken" where
  "appendToSystemIdentifier c t =
     (assertTok (c \<noteq> 0 \<and> m_type t = DOCTYPE \<and> doctypeHas hasSystemIdentifier t) t)
       \<lparr>m_doctypeData := map_option
          (\<lambda>d. d\<lparr>systemIdentifier := systemIdentifier d @ [c]\<rparr>) (m_doctypeData t)\<rparr>"

definition releaseDoctypeData :: "HTMLToken \<Rightarrow> DoctypeData option \<times> HTMLToken" where
  "releaseDoctypeData t = (m_doctypeData t, t\<lparr>m_doctypeData := None\<rparr>)"

definition isTag :: "HTMLToken \<Rightarrow> bool" where
  "isTag t \<longleftrightarrow> m_type t = StartTag \<or> m_type t = EndTag"

definition setSelfClosing :: "HTMLToken \<Rightarrow> HTMLToken" where
  "setSelfClosing t = (assertTok (isTag t) t)\<lparr>m_selfClosing := True\<rparr>"

definition beginStartTag :: "uchar \<Rightarrow> HTMLToken \<Rightarrow> HTMLToken" where
  "beginStartTag c t =
     (assertTok (c \<noteq> 0 \<and> m_type t = Uninitialized) t)
       \<lparr>m_type := StartTag, m_selfClosing := False, m_attributes := [],
        m_currentAttribute := None, m_data := m_data t @ [c], m_data8BitCheck := c\<rparr>"

definition beginEndTag :: "lchar \<Rightarrow> HTMLToken \<Rightarrow> HTMLToken" where
  "beginEndTag c t =
     (assertTok (m_type t = Uninitialized) t)
       \<lparr>m_type := EndTag, m_selfClosing := False, m_attributes := [],
        m_currentAttribute := None, m_data := m_data t @ [widen c]\<rparr>"

definition beginEndTagNamed :: "lchar list \<Rightarrow> HTMLToken \<Rightarrow> HTMLToken" where
  "beginEndTagNamed cs t =
     (assertTok (m_type t = Uninitialized) t)
       \<lparr>m_type := EndTag, m_selfClosing := False, m_attributes := [],
        m_currentAttribute := None, m_data := m_data t @ map widen cs\<rparr>"

definition beginAttribute :: "int \<Rightarrow> HTMLToken \<Rightarrow> HTMLToken" where
  "beginAttribute offset t =
     (assertTok (isTag t \<and> offset \<noteq> 0) t)
       \<lparr>m_attributes := m_attributes t @
          [\<lparr>attributeName = [], attributeValue = [], startOffset = offset, endOffset = None\<rparr>],
        m_currentAttribute := Some (length (m_attributes t))\<rparr>"

definition updateCurrentAttribute :: "(Attribute \<Rightarrow> Attribute) \<Rightarrow> HTMLToken \<Rightarrow> HTMLToken" where
  "updateCurrentAttribute f t =
     (case m_currentAttribute t of
        None \<Rightarrow> t
      | Some i \<Rightarrow> t\<lparr>m_attributes := (m_attributes t)[i := f (m_attributes t ! i)]\<rparr>)"

definition endAttribute :: "int \<Rightarrow> HTMLToken \<Rightarrow> HTMLToken" where
  "endAttribute offset t =
     (updateCurrentAttribute (\<lambda>a. a\<lparr>endOffset := Some offset\<rparr>)
        (assertTok (offset \<noteq> 0 \<and> m_currentAttribute t \<noteq> None) t))\<lparr>m_currentAttribute := None\<rparr>"

definition appendToAttributeName :: "uchar \<Rightarrow> HTMLToken \<Rightarrow> HTMLToken" where
  "appendToAttributeName c t =
     updateCurrentAttribute (\<lambda>a. a\<lparr>attributeName := attributeName a @ [c]\<rparr>)
       (assertTok (c \<noteq> 0 \<and> isTag t \<and> m_currentAttribute t \<noteq> None) t)"

definition appendToAttributeValue :: "uchar \<Rightarrow> HTMLToken \<Rightarrow> HTMLToken" where
  "appendToAttributeValue c t =
     updateCurrentAttribute (\<lambda>a. a\<lparr>attributeValue := attributeValue a @ [c]\<rparr>)
       (assertTok (c \<noteq> 0 \<and> isTag t \<and> m_currentAttribute t \<noteq> None) t)"

definition appendToAttributeValueAt :: "nat \<Rightarrow> uchar list \<Rightarrow> HTMLToken \<Rightarrow> HTMLToken" where
  "appendToAttributeValueAt i value t0 =
     (let t = assertTok (value \<noteq> [] \<and> isTag t0) t0; a = m_attributes t ! i
      in t\<lparr>m_attributes := (m_attributes t)[i := a\<lparr>attributeValue := attributeValue a @ value\<rparr>]\<rparr>)"

definition eraseValueOfAttribute :: "nat \<Rightarrow> HTMLToken \<Rightarrow> HTMLToken" where
  "eraseValueOfAttribute i t0 =
     (let t = assertTok (isTag t0 \<and> i < length (m_attributes t0)) t0
      in t\<lparr>m_attributes := (m_attributes t)[i := (m_attributes t ! i)\<lparr>attributeValue := []\<rparr>]\<rparr>)"

definition appendToCharacter8 :: "lchar \<Rightarrow> HTMLToken \<Rightarrow> HTMLToken" where
  "appendToCharacter8 c t =
     (assertTok (m_type t \<in> {Uninitialized, Character}) t)
       \<lparr>m_type := Character, m_data := m_data t @ [widen c]\<rparr>"

definition appendToCharacter :: "uchar \<Rightarrow> HTMLToken \<Rightarrow> HTMLToken" where
  "appendToCharacter c t =
     (assertTok (m_type t \<in> {Uninitialized, Character}) t)
       \<lparr>m_type := Character, m_data := m_data t @ [c], m_data8BitCheck := m_data8BitCheck t OR c\<rparr>"

definition appendToCharacters :: "lchar list \<Rightarrow> HTMLToken \<Rightarrow> HTMLToken" where
  "appendToCharacters cs t =
     (assertTok (m_type t \<in> {Uninitialized, Character}) t)
       \<lparr>m_type := Character, m_data := m_data t @ map widen cs\<rparr>"

definition isAll8BitData :: "HTMLToken \<Rightarrow> bool" where
  "isAll8BitData t \<longleftrightarrow> m_data8BitCheck t \<le> 0xFF"

definition beginComment :: "HTMLToken \<Rightarrow> HTMLToken" where
  "beginComment t = (assertTok (m_type t = Uninitialized) t)\<lparr>m_type := Comment\<rparr>"

definition appendToComment :: "uchar \<Rightarrow> HTMLToken \<Rightarrow> HTMLToken" where
  "appendToComment c t =
     (assertTok (c \<noteq> 0 \<and> m_type t = Comment) t)
       \<lparr>m_data := m_data t @ [c], m_data8BitCheck := m_data8BitCheck t OR c\<rparr>"

fun nameMatchesFrom :: "uchar list \<Rightarrow> uchar list \<Rightarrow> bool" where
  "nameMatchesFrom (a # as) (n # ns) = (if a \<noteq> n then False else nameMatchesFrom as ns)"
| "nameMatchesFrom _ _ = True"

definition nameMatches :: "Attribute \<Rightarrow> uchar list \<Rightarrow> bool" where
  "nameMatches attribute name =
     (if length (attributeName attribute) \<noteq> length name then False
      else nameMatchesFrom (attributeName attribute) name)"

fun findAttribute :: "Attribute list \<Rightarrow> uchar list \<Rightarrow> Attribute option" where
  "findAttribute [] name = None"
| "findAttribute (a # as) name = (if nameMatches a name then Some a else findAttribute as name)"

end
