(* ===== verification/Char_Reference.thy ===== *)
theory Char_Reference
  imports Segmented_String
begin

text \<open>
  Character references: the incremental binary search of \<^verbatim>\<open>html/parser/HTMLEntitySearch.cpp\<close>,
  the named and numeric references of \<^verbatim>\<open>html/parser/HTMLEntityParser.cpp\<close>, and the driver
  \<^verbatim>\<open>consumeCharacterReference\<close> of \<^verbatim>\<open>xml/parser/CharacterReferenceParserInlines.h\<close>
  instantiated with \<^verbatim>\<open>HTMLEntityParser\<close>.

  \<^verbatim>\<open>HTMLEntityTable\<close> is generated by the build from \<^verbatim>\<open>HTMLEntityNames.in\<close>, so the table is the
  argument \<open>tbl\<close> of every definition that uses it; entries are addressed by their index.
  The loops over the source take fuel, one unit per character, and return \<open>None\<close> only when
  it runs out; the numeric accumulator is the 32-bit \<^verbatim>\<open>UChar32\<close> of the source.
\<close>

section \<open>The entity table and its search\<close>

record HTMLEntityTableEntry =
  entity :: "uchar list"
  entityLength :: nat
  firstValue :: uchar32
  secondValue :: uchar32

record HTMLEntityTable =
  staticEntityTable :: "HTMLEntityTableEntry list"
  firstEntryStartingWith :: "uchar \<Rightarrow> nat option"
  lastEntryStartingWith :: "uchar \<Rightarrow> nat option"

definition nullEntry :: HTMLEntityTableEntry where
  "nullEntry = \<lparr>entity = [], entityLength = 0, firstValue = 0, secondValue = 0\<rparr>"

definition entryAt :: "HTMLEntityTable \<Rightarrow> nat \<Rightarrow> HTMLEntityTableEntry" where
  "entryAt tbl i = (if i < length (staticEntityTable tbl) then staticEntityTable tbl ! i else nullEntry)"

definition entityCharAt :: "HTMLEntityTableEntry \<Rightarrow> nat \<Rightarrow> uchar" where
  "entityCharAt e i = (if i < length (entity e) then entity e ! i else 0)"

definition lastCharacter :: "HTMLEntityTableEntry \<Rightarrow> uchar" where
  "lastCharacter e = entityCharAt e (entityLength e - 1)"

datatype CompareResult = Before | Prefix | After

record HTMLEntitySearch =
  m_currentLength :: nat
  m_mostRecentMatch :: "nat option"
  m_first :: "nat option"
  m_last :: "nat option"

definition newEntitySearch :: "HTMLEntityTable \<Rightarrow> HTMLEntitySearch" where
  "newEntitySearch tbl = \<lparr>m_currentLength = 0, m_mostRecentMatch = None, m_first = Some 0,
     m_last = Some (length (staticEntityTable tbl) - 1)\<rparr>"

definition isEntityPrefix :: "HTMLEntitySearch \<Rightarrow> bool" where
  "isEntityPrefix es \<longleftrightarrow> m_first es \<noteq> None"

definition failSearch :: "HTMLEntitySearch \<Rightarrow> HTMLEntitySearch" where
  "failSearch es = es\<lparr>m_first := None, m_last := None\<rparr>"

definition halfway :: "nat \<Rightarrow> nat \<Rightarrow> nat" where
  "halfway left right = left + (right - left) div 2"

definition compareEntry :: "HTMLEntityTable \<Rightarrow> nat \<Rightarrow> nat \<Rightarrow> uchar \<Rightarrow> CompareResult" where
  "compareEntry tbl currentLength i nextCharacter =
     (let entry = entryAt tbl i in
      if entityLength entry < currentLength + 1 then Before
      else let entryNextCharacter = entityCharAt entry currentLength in
           if entryNextCharacter = nextCharacter then Prefix
           else if entryNextCharacter < nextCharacter then Before else After)"

function findFirstLoop :: "HTMLEntityTable \<Rightarrow> nat \<Rightarrow> uchar \<Rightarrow> nat \<Rightarrow> nat \<Rightarrow> nat" where
  "findFirstLoop tbl currentLength c left right =
     (if left + 1 < right
      then let probe = halfway left right in
           if compareEntry tbl currentLength probe c = Before
           then findFirstLoop tbl currentLength c probe right
           else findFirstLoop tbl currentLength c left probe
      else right)"
  by pat_completeness auto
termination
  by (relation "measure (\<lambda>(tbl, n, c, left, right). right - left)") (auto simp: halfway_def)

declare findFirstLoop.simps [simp del]

definition findFirst :: "HTMLEntityTable \<Rightarrow> nat \<Rightarrow> uchar \<Rightarrow> nat \<Rightarrow> nat \<Rightarrow> nat" where
  "findFirst tbl currentLength c left right =
     (if left = right then left
      else case compareEntry tbl currentLength left c of
             Prefix \<Rightarrow> left
           | After \<Rightarrow> right
           | Before \<Rightarrow> findFirstLoop tbl currentLength c left right)"

function findLastLoop :: "HTMLEntityTable \<Rightarrow> nat \<Rightarrow> uchar \<Rightarrow> nat \<Rightarrow> nat \<Rightarrow> nat" where
  "findLastLoop tbl currentLength c left right =
     (if left + 1 < right
      then let probe = halfway left right in
           if compareEntry tbl currentLength probe c = After
           then findLastLoop tbl currentLength c left probe
           else findLastLoop tbl currentLength c probe right
      else left)"
  by pat_completeness auto
termination
  by (relation "measure (\<lambda>(tbl, n, c, left, right). right - left)") (auto simp: halfway_def)

declare findLastLoop.simps [simp del]

definition findLast :: "HTMLEntityTable \<Rightarrow> nat \<Rightarrow> uchar \<Rightarrow> nat \<Rightarrow> nat \<Rightarrow> nat" where
  "findLast tbl currentLength c left right =
     (if left = right then right
      else case compareEntry tbl currentLength right c of
             Prefix \<Rightarrow> right
           | Before \<Rightarrow> left
           | After \<Rightarrow> findLastLoop tbl currentLength c left right)"

text \<open>The tail of \<^verbatim>\<open>HTMLEntitySearch::advance\<close>, after the range has been narrowed.\<close>

definition noteMatch :: "HTMLEntityTable \<Rightarrow> nat \<Rightarrow> HTMLEntitySearch \<Rightarrow> HTMLEntitySearch" where
  "noteMatch tbl first es =
     (let es = es\<lparr>m_currentLength := m_currentLength es + 1\<rparr> in
      if entityLength (entryAt tbl first) \<noteq> m_currentLength es then es
      else es\<lparr>m_mostRecentMatch := Some first\<rparr>)"

definition advanceSearch :: "HTMLEntityTable \<Rightarrow> uchar \<Rightarrow> HTMLEntitySearch \<Rightarrow> HTMLEntitySearch" where
  "advanceSearch tbl c es =
     (if m_currentLength es = 0
      then case (firstEntryStartingWith tbl c, lastEntryStartingWith tbl c) of
             (Some lo, Some hi) \<Rightarrow> noteMatch tbl lo (es\<lparr>m_first := Some lo, m_last := Some hi\<rparr>)
           | _ \<Rightarrow> failSearch es
      else case (m_first es, m_last es) of
             (Some left, Some right) \<Rightarrow>
               let lo = findFirst tbl (m_currentLength es) c left right;
                   hi = findLast tbl (m_currentLength es) c lo right
               in if lo = hi \<and> compareEntry tbl (m_currentLength es) lo c \<noteq> Prefix
                  then failSearch es
                  else noteMatch tbl lo (es\<lparr>m_first := Some lo, m_last := Some hi\<rparr>)
           | _ \<Rightarrow> failSearch es)"

section \<open>Code points\<close>

definition windowsLatin1ExtensionArray :: "uchar32 list" where
  "windowsLatin1ExtensionArray =
    [0x20AC, 0x0081, 0x201A, 0x0192, 0x201E, 0x2026, 0x2020, 0x2021,
     0x02C6, 0x2030, 0x0160, 0x2039, 0x0152, 0x008D, 0x017D, 0x008F,
     0x0090, 0x2018, 0x2019, 0x201C, 0x201D, 0x2022, 0x2013, 0x2014,
     0x02DC, 0x2122, 0x0161, 0x203A, 0x0153, 0x009D, 0x017E, 0x0178]"

definition legalEntityFor :: "uchar32 \<Rightarrow> uchar32" where
  "legalEntityFor value =
     (if value \<le>s 0 \<or> 0x10FFFF <s value \<or> isSurrogate value then 0xFFFD
      else if value AND NOT 0x1F \<noteq> 0x80 then value
      else windowsLatin1ExtensionArray ! unat (value - 0x80))"

definition acceptMalformed :: bool where
  "acceptMalformed = True"

section \<open>Named references\<close>

record reference_result =
  success :: bool
  decoded :: "uchar list"
  notEnoughCharacters :: bool
  afterSource :: SegmentedString

abbreviation failed :: "SegmentedString \<Rightarrow> reference_result" where
  "failed s \<equiv> \<lparr>success = False, decoded = [], notEnoughCharacters = False, afterSource = s\<rparr>"

abbreviation wantsMore :: "SegmentedString \<Rightarrow> reference_result" where
  "wantsMore s \<equiv> \<lparr>success = False, decoded = [], notEnoughCharacters = True, afterSource = s\<rparr>"

abbreviation consumedAs :: "uchar list \<Rightarrow> SegmentedString \<Rightarrow> reference_result" where
  "consumedAs cs s \<equiv> \<lparr>success = True, decoded = cs, notEnoughCharacters = False, afterSource = s\<rparr>"

text \<open>The first loop of \<^verbatim>\<open>consumeNamedEntity\<close>: the characters consumed, \<open>cc\<close>, the search, the source.\<close>

fun searchLoop ::
  "nat \<Rightarrow> HTMLEntityTable \<Rightarrow> uchar list \<Rightarrow> uchar \<Rightarrow> HTMLEntitySearch \<Rightarrow> SegmentedString \<Rightarrow>
   (uchar list \<times> uchar \<times> HTMLEntitySearch \<times> SegmentedString) option" where
  "searchLoop 0 tbl consumed cc es source = None"
| "searchLoop (Suc fuel) tbl consumed cc es source =
     (if isEmpty source then Some (consumed, cc, es, source)
      else let cc = currentChar source; es = advanceSearch tbl cc es in
           if \<not> isEntityPrefix es then Some (consumed, cc, es, source)
           else searchLoop fuel tbl (consumed @ [cc]) cc es (advance source))"

text \<open>The second loop: \<open>n\<close> characters are consumed again.\<close>

fun reconsumeLoop :: "nat \<Rightarrow> uchar list \<Rightarrow> SegmentedString \<Rightarrow> uchar list \<times> SegmentedString" where
  "reconsumeLoop 0 consumed source = (consumed, source)"
| "reconsumeLoop (Suc n) consumed source =
     reconsumeLoop n (consumed @ [currentChar source]) (advance source)"

definition decodeEntity :: "HTMLEntityTableEntry \<Rightarrow> uchar list" where
  "decodeEntity e = append32 (firstValue e) @ (if secondValue e \<noteq> 0 then append32 (secondValue e) else [])"

definition consumeNamedEntity ::
  "HTMLEntityTable \<Rightarrow> uchar \<Rightarrow> uchar \<Rightarrow> SegmentedString \<Rightarrow> reference_result option" where
  "consumeNamedEntity tbl additionalAllowedCharacter cc0 source0 =
     (case searchLoop (Suc (nat (lengthSS source0))) tbl [] cc0 (newEntitySearch tbl) source0 of
        None \<Rightarrow> None
      | Some (consumed, cc, es, source) \<Rightarrow>
          if isEmpty source then Some (wantsMore (unconsumeCharacters consumed source))
          else (case m_mostRecentMatch es of
                  None \<Rightarrow> Some (failed (unconsumeCharacters consumed source))
                | Some match \<Rightarrow>
                    let entry = entryAt tbl match;
                        (consumed, cc, source) =
                          (if entityLength entry \<noteq> m_currentLength es
                           then let source = unconsumeCharacters consumed source;
                                    (consumed, source) = reconsumeLoop (entityLength entry) [] source
                                in (consumed, currentChar source, source)
                           else (consumed, cc, source))
                    in if lastCharacter entry = c_semi \<or> additionalAllowedCharacter = 0
                          \<or> \<not> (isASCIIAlphanumeric cc \<or> cc = c_eq)
                       then Some (consumedAs (decodeEntity entry) source)
                       else Some (failed (unconsumeCharacters consumed source))))"

section \<open>The reference state machine\<close>

datatype cr_state =
    Initial | Number | MaybeHexLowerCaseX | MaybeHexUpperCaseX | Hex | Decimal

text \<open>
  One iteration of the loop either returns or leaves the machine in a new state with the
  current character consumed. The labels \<^verbatim>\<open>Hex\<close>, \<^verbatim>\<open>Decimal\<close> and \<^verbatim>\<open>Named\<close> are the
  definitions \<open>hexLabel\<close>, \<open>decimalLabel\<close> and \<open>consumeNamedEntity\<close>.
\<close>

datatype cr_step = CrReturn "reference_result option" | CrBreak cr_state uchar32 bool

definition numericResult :: "uchar32 \<Rightarrow> bool \<Rightarrow> uchar list" where
  "numericResult result overflow = append32 (legalEntityFor (if overflow then 0 else result))"

definition endOfNumber ::
  "uchar \<Rightarrow> uchar32 \<Rightarrow> bool \<Rightarrow> uchar list \<Rightarrow> SegmentedString \<Rightarrow> cr_step" where
  "endOfNumber character result overflow consumed source =
     (if character = c_semi
      then CrReturn (Some (consumedAs (numericResult result overflow) (advance source)))
      else if acceptMalformed
      then CrReturn (Some (consumedAs (numericResult result overflow) source))
      else CrReturn (Some (failed (unconsumeCharacters consumed source))))"

definition hexLabel ::
  "uchar \<Rightarrow> uchar32 \<Rightarrow> bool \<Rightarrow> uchar list \<Rightarrow> SegmentedString \<Rightarrow> cr_step" where
  "hexLabel character result overflow consumed source =
     (if isASCIIHexDigit character
      then let result = result * 16 + toASCIIHexValue character
           in CrBreak Hex result (overflow \<or> 0x10FFFF <s result)
      else endOfNumber character result overflow consumed source)"

definition decimalLabel ::
  "uchar \<Rightarrow> uchar32 \<Rightarrow> bool \<Rightarrow> uchar list \<Rightarrow> SegmentedString \<Rightarrow> cr_step" where
  "decimalLabel character result overflow consumed source =
     (if isASCIIDigit character
      then let result = result * 10 + ucast character - 0x30
           in CrBreak Decimal result (overflow \<or> 0x10FFFF <s result)
      else endOfNumber character result overflow consumed source)"

fun crStep ::
  "HTMLEntityTable \<Rightarrow> uchar \<Rightarrow> cr_state \<Rightarrow> uchar \<Rightarrow> uchar32 \<Rightarrow> bool \<Rightarrow> uchar list \<Rightarrow>
   SegmentedString \<Rightarrow> cr_step" where
  "crStep tbl additional Initial character result overflow consumed source =
     (if character = c_TAB \<or> character = c_LF \<or> character = c_FF \<or> character = c_space
         \<or> character = c_lt \<or> character = c_amp
      then CrReturn (Some (failed source))
      else if additional \<noteq> 0 \<and> character = additional then CrReturn (Some (failed source))
      else if character = c_hash then CrBreak Number result overflow
      else if isASCIIAlpha character
      then CrReturn (consumeNamedEntity tbl additional character source)
      else CrReturn (Some (failed source)))"
| "crStep tbl additional Number character result overflow consumed source =
     (if character = 0x78 then CrBreak MaybeHexLowerCaseX result overflow
      else if character = 0x58 then CrBreak MaybeHexUpperCaseX result overflow
      else if isASCIIDigit character then decimalLabel character result overflow consumed source
      else CrReturn (Some (failed (pushBackSS (segmentedStringOf (WString True (ascii ''#''))) source))))"
| "crStep tbl additional MaybeHexLowerCaseX character result overflow consumed source =
     (if isASCIIHexDigit character then hexLabel character result overflow consumed source
      else CrReturn (Some (failed (pushBackSS (segmentedStringOf (WString True (ascii ''#x''))) source))))"
| "crStep tbl additional MaybeHexUpperCaseX character result overflow consumed source =
     (if isASCIIHexDigit character then hexLabel character result overflow consumed source
      else CrReturn (Some (failed (pushBackSS (segmentedStringOf (WString True (ascii ''#X''))) source))))"
| "crStep tbl additional Hex character result overflow consumed source =
     hexLabel character result overflow consumed source"
| "crStep tbl additional Decimal character result overflow consumed source =
     decimalLabel character result overflow consumed source"

fun crLoop ::
  "nat \<Rightarrow> HTMLEntityTable \<Rightarrow> uchar \<Rightarrow> cr_state \<Rightarrow> uchar32 \<Rightarrow> bool \<Rightarrow> uchar list \<Rightarrow>
   SegmentedString \<Rightarrow> reference_result option" where
  "crLoop 0 tbl additional state result overflow consumed source = None"
| "crLoop (Suc fuel) tbl additional state result overflow consumed source =
     (if isEmpty source then Some (wantsMore (unconsumeCharacters consumed source))
      else let character = currentChar source in
           case crStep tbl additional state character result overflow consumed source of
             CrReturn r \<Rightarrow> r
           | CrBreak state' result' overflow' \<Rightarrow>
               crLoop fuel tbl additional state' result' overflow' (consumed @ [character])
                 (advance source))"

definition consumeHTMLEntity ::
  "HTMLEntityTable \<Rightarrow> uchar \<Rightarrow> SegmentedString \<Rightarrow> reference_result option" where
  "consumeHTMLEntity tbl additionalAllowedCharacter source =
     crLoop (Suc (nat (lengthSS source))) tbl additionalAllowedCharacter Initial 0 False [] source"

section \<open>Decoding a whole entity name\<close>

text \<open>
  \<^verbatim>\<open>decodeNamedEntityToUCharArray\<close>: the characters written to the result array, none when the
  source returns 0. The source dereferences \<^verbatim>\<open>mostRecentMatch()\<close> without a check; \<open>None\<close> is
  that dereference of a null pointer.
\<close>

fun searchName :: "HTMLEntityTable \<Rightarrow> uchar list \<Rightarrow> HTMLEntitySearch \<Rightarrow> HTMLEntitySearch option" where
  "searchName tbl [] es = Some es"
| "searchName tbl (c # cs) es =
     (let es = advanceSearch tbl c es in
      if \<not> isEntityPrefix es then None else searchName tbl cs es)"

definition decodeNamedEntityToUCharArray :: "HTMLEntityTable \<Rightarrow> uchar list \<Rightarrow> uchar list option" where
  "decodeNamedEntityToUCharArray tbl name =
     (case searchName tbl (name @ [c_semi]) (newEntitySearch tbl) of
        None \<Rightarrow> Some []
      | Some es \<Rightarrow>
          (case m_mostRecentMatch es of
             None \<Rightarrow> None
           | Some match \<Rightarrow> Some (decodeEntity (entryAt tbl match))))"

end
