(* ===== verification/Html_Tokenizer.thy ===== *)
theory Html_Tokenizer
  imports Tokenizer_State Html_Token Input_Preprocessor Char_Reference
begin

text \<open>
  The HTML tokenizer: \<^verbatim>\<open>html/parser/HTMLTokenizer.h\<close> and \<^verbatim>\<open>HTMLTokenizer.cpp\<close>, with the state
  macros of \<^verbatim>\<open>xml/parser/MarkupTokenizerInlines.h\<close>.

  \<^verbatim>\<open>processToken\<close> is a state machine written with labels and \<^verbatim>\<open>goto\<close>. Each
  \<^verbatim>\<open>BEGIN_STATE ... END_STATE\<close> block is one definition \<open>on\<dots>State\<close> over the current
  character, the tokenizer and the source; it ends in \<open>Return\<close> (a \<^verbatim>\<open>return\<close> statement) or
  \<open>Goto\<close> (a jump to a label with the character to process there). \<open>runStates\<close> follows the
  jumps. It takes fuel because the jumps form a loop; \<open>processToken\<close> supplies
  \<open>tokenFuel\<close>, four units per pending character, and the termination theory shows that
  the machine always returns within it.

  \<open>tokenizerAsserts\<close> is the conjunction of the \<^verbatim>\<open>ASSERT\<close>s of the tokenizer's own functions.
  ICU's \<^verbatim>\<open>u_foldCase\<close> and the generated entity table are the fields of \<open>html_env\<close>.
\<close>

section \<open>State\<close>

record HTMLParserOptions =
  scriptEnabled :: bool
  pluginsEnabled :: bool
  usePreHTML5ParserQuirks :: bool
  maximumDOMTreeDepth :: nat

record HTMLTokenizer =
  m_state :: State
  m_forceNullCharacterReplacement :: bool
  m_shouldAllowCDATA :: bool
  m_token :: HTMLToken
  m_additionalAllowedCharacter :: uchar
  m_preprocessor :: InputStreamPreprocessor
  m_appropriateEndTagName :: "uchar list"
  m_temporaryBuffer :: "lchar list"
  m_bufferedEndTagName :: "lchar list"
  m_options :: HTMLParserOptions
  tokenizerAsserts :: bool

record html_env =
  u_foldCase :: "uchar \<Rightarrow> uchar"
  entityTable :: HTMLEntityTable

datatype outcome =
    Return bool HTMLTokenizer SegmentedString
  | Goto State uchar HTMLTokenizer SegmentedString
  | OutOfFuel

definition newTokenizer :: "HTMLParserOptions \<Rightarrow> HTMLTokenizer" where
  "newTokenizer options =
     \<lparr>m_state = DataState, m_forceNullCharacterReplacement = False, m_shouldAllowCDATA = False,
      m_token = newToken, m_additionalAllowedCharacter = 0, m_preprocessor = resetPreprocessor False,
      m_appropriateEndTagName = [], m_temporaryBuffer = [], m_bufferedEndTagName = [],
      m_options = options, tokenizerAsserts = True\<rparr>"

section \<open>Helpers of the tokenizer\<close>

definition isTokenizerWhitespace :: "uchar \<Rightarrow> bool" where
  "isTokenizerWhitespace c \<longleftrightarrow> c = c_space \<or> c = c_LF \<or> c = c_TAB \<or> c = c_FF"

definition assertTk :: "bool \<Rightarrow> HTMLTokenizer \<Rightarrow> HTMLTokenizer" where
  "assertTk P t = t\<lparr>tokenizerAsserts := tokenizerAsserts t \<and> P\<rparr>"

definition withToken :: "(HTMLToken \<Rightarrow> HTMLToken) \<Rightarrow> HTMLTokenizer \<Rightarrow> HTMLTokenizer" where
  "withToken f t = t\<lparr>m_token := f (m_token t)\<rparr>"

definition convertASCIIAlphaToLower :: "uchar \<Rightarrow> lchar" where
  "convertASCIIAlphaToLower c = narrow (toASCIILowerUnchecked c)"

fun vectorEqualsString :: "lchar list \<Rightarrow> lchar list \<Rightarrow> bool" where
  "vectorEqualsString [] str = (str = [])"
| "vectorEqualsString (v # vs) [] = False"
| "vectorEqualsString (v # vs) (c # str) = (if v \<noteq> c then False else vectorEqualsString vs str)"

definition isNullCharacterSkippingState :: "State \<Rightarrow> bool" where
  "isNullCharacterSkippingState state \<longleftrightarrow>
     state = DataState \<or> state = RCDATAState \<or> state = RAWTEXTState"

definition inEndTagBufferingState :: "HTMLTokenizer \<Rightarrow> bool" where
  "inEndTagBufferingState t \<longleftrightarrow>
     m_state t \<in> {RCDATAEndTagOpenState, RCDATAEndTagNameState, RAWTEXTEndTagOpenState,
       RAWTEXTEndTagNameState, ScriptDataEndTagOpenState, ScriptDataEndTagNameState,
       ScriptDataEscapedEndTagOpenState, ScriptDataEscapedEndTagNameState}"

definition bufferASCIICharacter :: "uchar \<Rightarrow> HTMLTokenizer \<Rightarrow> HTMLTokenizer" where
  "bufferASCIICharacter c t =
     withToken (appendToCharacter8 (narrow c)) (assertTk (c \<noteq> kEndOfFileMarker \<and> isASCII c) t)"

definition bufferCharacter :: "uchar \<Rightarrow> HTMLTokenizer \<Rightarrow> HTMLTokenizer" where
  "bufferCharacter c t = withToken (appendToCharacter c) (assertTk (c \<noteq> kEndOfFileMarker) t)"

definition haveBufferedCharacterToken :: "HTMLTokenizer \<Rightarrow> bool" where
  "haveBufferedCharacterToken t \<longleftrightarrow> m_type (m_token t) = Character"

definition saveEndTagNameIfNeeded :: "HTMLTokenizer \<Rightarrow> HTMLTokenizer" where
  "saveEndTagNameIfNeeded t0 =
     (let t = assertTk (m_type (m_token t0) \<noteq> Uninitialized) t0 in
      if m_type (m_token t) = StartTag
      then t\<lparr>m_appropriateEndTagName := m_data (m_token t)\<rparr> else t)"

definition emitAndResumeInDataState :: "HTMLTokenizer \<Rightarrow> SegmentedString \<Rightarrow> outcome" where
  "emitAndResumeInDataState t source =
     Return True ((saveEndTagNameIfNeeded t)\<lparr>m_state := DataState\<rparr>) (advanceAndUpdateLineNumber source)"

definition emitAndReconsumeInDataState :: "HTMLTokenizer \<Rightarrow> SegmentedString \<Rightarrow> outcome" where
  "emitAndReconsumeInDataState t source =
     Return True ((saveEndTagNameIfNeeded t)\<lparr>m_state := DataState\<rparr>) source"

definition emitEndOfFile :: "HTMLTokenizer \<Rightarrow> SegmentedString \<Rightarrow> outcome" where
  "emitEndOfFile t0 source =
     (let t = t0\<lparr>m_state := DataState\<rparr> in
      if haveBufferedCharacterToken t then Return True t source
      else Return True (withToken (\<lambda>k. makeEndOfFile (clearToken k)) t) (advance source))"

definition processEntity ::
  "html_env \<Rightarrow> HTMLTokenizer \<Rightarrow> SegmentedString \<Rightarrow> (bool \<times> HTMLTokenizer \<times> SegmentedString) option" where
  "processEntity env t source =
     (case consumeHTMLEntity (entityTable env) 0 source of
        None \<Rightarrow> None
      | Some r \<Rightarrow>
          if notEnoughCharacters r then Some (False, t, afterSource r)
          else if \<not> success r then Some (True, bufferASCIICharacter c_amp t, afterSource r)
          else Some (True, fold bufferCharacter (decoded r) t, afterSource r))"

definition appendToTemporaryBuffer :: "uchar \<Rightarrow> HTMLTokenizer \<Rightarrow> HTMLTokenizer" where
  "appendToTemporaryBuffer c t =
     (assertTk (isASCII c) t)\<lparr>m_temporaryBuffer := m_temporaryBuffer t @ [narrow c]\<rparr>"

definition temporaryBufferIs :: "string \<Rightarrow> HTMLTokenizer \<Rightarrow> bool" where
  "temporaryBufferIs expected t =
     vectorEqualsString (m_temporaryBuffer t) (map narrow (ascii expected))"

definition appendToPossibleEndTag :: "uchar \<Rightarrow> HTMLTokenizer \<Rightarrow> HTMLTokenizer" where
  "appendToPossibleEndTag c t =
     (assertTk (isASCII c) t)\<lparr>m_bufferedEndTagName := m_bufferedEndTagName t @ [narrow c]\<rparr>"

fun sameName :: "lchar list \<Rightarrow> uchar list \<Rightarrow> bool" where
  "sameName (b # bs) (a # as) = (if widen b \<noteq> a then False else sameName bs as)"
| "sameName _ _ = True"

definition isAppropriateEndTag :: "HTMLTokenizer \<Rightarrow> bool" where
  "isAppropriateEndTag t =
     (if length (m_bufferedEndTagName t) \<noteq> length (m_appropriateEndTagName t) then False
      else sameName (m_bufferedEndTagName t) (m_appropriateEndTagName t))"

definition flushBufferedEndTag :: "HTMLTokenizer \<Rightarrow> HTMLTokenizer" where
  "flushBufferedEndTag t =
     (withToken (beginEndTagNamed (m_bufferedEndTagName t)) t)
       \<lparr>m_bufferedEndTagName := [], m_appropriateEndTagName := [], m_temporaryBuffer := []\<rparr>"

definition commitToPartialEndTag ::
  "SegmentedString \<Rightarrow> uchar \<Rightarrow> State \<Rightarrow> HTMLTokenizer \<Rightarrow> bool \<times> HTMLTokenizer \<times> SegmentedString" where
  "commitToPartialEndTag source c state t0 =
     (let t = appendToTemporaryBuffer c (assertTk (currentChar source = c) t0);
          source = advanceAndUpdateLineNumber source
      in if haveBufferedCharacterToken t then (True, t\<lparr>m_state := state\<rparr>, source)
         else (False, flushBufferedEndTag t, source))"

definition commitToCompleteEndTag :: "HTMLTokenizer \<Rightarrow> SegmentedString \<Rightarrow> outcome" where
  "commitToCompleteEndTag t0 source =
     (let t = (appendToTemporaryBuffer c_gt (assertTk (currentChar source = c_gt) t0))
                \<lparr>m_state := DataState\<rparr>;
          source = advance source
      in if haveBufferedCharacterToken t then Return True t source
         else Return True (flushBufferedEndTag t) source)"

section \<open>The state macros\<close>

definition SWITCH_TO :: "State \<Rightarrow> HTMLTokenizer \<Rightarrow> SegmentedString \<Rightarrow> outcome" where
  "SWITCH_TO newState t source =
     (case peek (m_forceNullCharacterReplacement t) (isNullCharacterSkippingState newState)
             (m_preprocessor t) source of
        None \<Rightarrow> OutOfFuel
      | Some (ok, p, source) \<Rightarrow>
          let t = t\<lparr>m_preprocessor := p\<rparr> in
          if \<not> ok then Return (haveBufferedCharacterToken t) (t\<lparr>m_state := newState\<rparr>) source
          else Goto newState (m_nextInputCharacter p) t source)"

definition ADVANCE_TO :: "State \<Rightarrow> HTMLTokenizer \<Rightarrow> SegmentedString \<Rightarrow> outcome" where
  "ADVANCE_TO newState t source =
     (case advancePreprocessor (m_forceNullCharacterReplacement t)
             (isNullCharacterSkippingState newState) (m_preprocessor t) source of
        None \<Rightarrow> OutOfFuel
      | Some (ok, p, source) \<Rightarrow>
          let t = t\<lparr>m_preprocessor := p\<rparr> in
          if \<not> ok then Return (haveBufferedCharacterToken t) (t\<lparr>m_state := newState\<rparr>) source
          else Goto newState (m_nextInputCharacter p) t source)"

definition RECONSUME_IN :: "State \<Rightarrow> uchar \<Rightarrow> HTMLTokenizer \<Rightarrow> SegmentedString \<Rightarrow> outcome" where
  "RECONSUME_IN newState c t source = Goto newState c t source"

definition RETURN_IN_CURRENT_STATE ::
  "State \<Rightarrow> bool \<Rightarrow> HTMLTokenizer \<Rightarrow> SegmentedString \<Rightarrow> outcome" where
  "RETURN_IN_CURRENT_STATE currentState b t source = Return b (t\<lparr>m_state := currentState\<rparr>) source"

section \<open>Text states\<close>

definition onDataState :: "uchar \<Rightarrow> HTMLTokenizer \<Rightarrow> SegmentedString \<Rightarrow> outcome" where
  "onDataState c t s =
     (if c = c_amp then ADVANCE_TO CharacterReferenceInDataState t s
      else if c = c_lt
      then if haveBufferedCharacterToken t then RETURN_IN_CURRENT_STATE DataState True t s
           else ADVANCE_TO TagOpenState t s
      else if c = kEndOfFileMarker then emitEndOfFile t s
      else ADVANCE_TO DataState (bufferCharacter c t) s)"

definition onCharacterReferenceInDataState ::
  "html_env \<Rightarrow> HTMLTokenizer \<Rightarrow> SegmentedString \<Rightarrow> outcome" where
  "onCharacterReferenceInDataState env t s =
     (case processEntity env t s of
        None \<Rightarrow> OutOfFuel
      | Some (ok, t, s) \<Rightarrow>
          if \<not> ok then RETURN_IN_CURRENT_STATE CharacterReferenceInDataState
                         (haveBufferedCharacterToken t) t s
          else SWITCH_TO DataState t s)"

definition onRCDATAState :: "uchar \<Rightarrow> HTMLTokenizer \<Rightarrow> SegmentedString \<Rightarrow> outcome" where
  "onRCDATAState c t s =
     (if c = c_amp then ADVANCE_TO CharacterReferenceInRCDATAState t s
      else if c = c_lt then ADVANCE_TO RCDATALessThanSignState t s
      else if c = kEndOfFileMarker then RECONSUME_IN DataState c t s
      else ADVANCE_TO RCDATAState (bufferCharacter c t) s)"

definition onCharacterReferenceInRCDATAState ::
  "html_env \<Rightarrow> HTMLTokenizer \<Rightarrow> SegmentedString \<Rightarrow> outcome" where
  "onCharacterReferenceInRCDATAState env t s =
     (case processEntity env t s of
        None \<Rightarrow> OutOfFuel
      | Some (ok, t, s) \<Rightarrow>
          if \<not> ok then RETURN_IN_CURRENT_STATE CharacterReferenceInRCDATAState
                         (haveBufferedCharacterToken t) t s
          else SWITCH_TO RCDATAState t s)"

definition onRAWTEXTState :: "uchar \<Rightarrow> HTMLTokenizer \<Rightarrow> SegmentedString \<Rightarrow> outcome" where
  "onRAWTEXTState c t s =
     (if c = c_lt then ADVANCE_TO RAWTEXTLessThanSignState t s
      else if c = kEndOfFileMarker then RECONSUME_IN DataState c t s
      else ADVANCE_TO RAWTEXTState (bufferCharacter c t) s)"

definition onScriptDataState :: "uchar \<Rightarrow> HTMLTokenizer \<Rightarrow> SegmentedString \<Rightarrow> outcome" where
  "onScriptDataState c t s =
     (if c = c_lt then ADVANCE_TO ScriptDataLessThanSignState t s
      else if c = kEndOfFileMarker then RECONSUME_IN DataState c t s
      else ADVANCE_TO ScriptDataState (bufferCharacter c t) s)"

definition onPLAINTEXTState :: "uchar \<Rightarrow> HTMLTokenizer \<Rightarrow> SegmentedString \<Rightarrow> outcome" where
  "onPLAINTEXTState c t s =
     (if c = kEndOfFileMarker then RECONSUME_IN DataState c t s
      else ADVANCE_TO PLAINTEXTState (bufferCharacter c t) s)"

section \<open>Opening a tag\<close>

definition onTagOpenState :: "uchar \<Rightarrow> HTMLTokenizer \<Rightarrow> SegmentedString \<Rightarrow> outcome" where
  "onTagOpenState c t s =
     (if c = c_bang then ADVANCE_TO MarkupDeclarationOpenState t s
      else if c = c_slash then ADVANCE_TO EndTagOpenState t s
      else if isASCIIAlpha c
      then ADVANCE_TO TagNameState (withToken (beginStartTag (widen (convertASCIIAlphaToLower c))) t) s
      else if c = c_quest then RECONSUME_IN BogusCommentState c t s
      else RECONSUME_IN DataState c (bufferASCIICharacter c_lt t) s)"

definition onEndTagOpenState :: "uchar \<Rightarrow> HTMLTokenizer \<Rightarrow> SegmentedString \<Rightarrow> outcome" where
  "onEndTagOpenState c t s =
     (if isASCIIAlpha c
      then ADVANCE_TO TagNameState
             ((withToken (beginEndTag (convertASCIIAlphaToLower c)) t)\<lparr>m_appropriateEndTagName := []\<rparr>) s
      else if c = c_gt then ADVANCE_TO DataState t s
      else if c = kEndOfFileMarker
      then RECONSUME_IN DataState c (bufferASCIICharacter c_slash (bufferASCIICharacter c_lt t)) s
      else RECONSUME_IN BogusCommentState c t s)"

definition onTagNameState :: "uchar \<Rightarrow> HTMLTokenizer \<Rightarrow> SegmentedString \<Rightarrow> outcome" where
  "onTagNameState c t s =
     (if isTokenizerWhitespace c then ADVANCE_TO BeforeAttributeNameState t s
      else if c = c_slash then ADVANCE_TO SelfClosingStartTagState t s
      else if c = c_gt then emitAndResumeInDataState t s
      else if usePreHTML5ParserQuirks (m_options t) \<and> c = c_lt then emitAndReconsumeInDataState t s
      else if c = kEndOfFileMarker then RECONSUME_IN DataState c t s
      else ADVANCE_TO TagNameState (withToken (appendToName (toASCIILower c)) t) s)"

section \<open>End tags of text elements\<close>

text \<open>
  The source writes the next three blocks once per kind of text element; the parameters
  are the labels in which they differ.
\<close>

definition lessThanSignBlock ::
  "State \<Rightarrow> State \<Rightarrow> uchar \<Rightarrow> HTMLTokenizer \<Rightarrow> SegmentedString \<Rightarrow> outcome" where
  "lessThanSignBlock endTagOpen text c t s =
     (if c = c_slash
      then ADVANCE_TO endTagOpen
             (assertTk (m_bufferedEndTagName t = []) (t\<lparr>m_temporaryBuffer := []\<rparr>)) s
      else RECONSUME_IN text c (bufferASCIICharacter c_lt t) s)"

definition endTagOpenBlock ::
  "State \<Rightarrow> State \<Rightarrow> uchar \<Rightarrow> HTMLTokenizer \<Rightarrow> SegmentedString \<Rightarrow> outcome" where
  "endTagOpenBlock endTagName text c t s =
     (if isASCIIAlpha c
      then ADVANCE_TO endTagName
             (appendToPossibleEndTag (widen (convertASCIIAlphaToLower c)) (appendToTemporaryBuffer c t)) s
      else RECONSUME_IN text c (bufferASCIICharacter c_slash (bufferASCIICharacter c_lt t)) s)"

definition commitPartial :: "State \<Rightarrow> uchar \<Rightarrow> HTMLTokenizer \<Rightarrow> SegmentedString \<Rightarrow> outcome" where
  "commitPartial state c t s =
     (case commitToPartialEndTag s c state t of
        (emit, t, s) \<Rightarrow> if emit then Return True t s else SWITCH_TO state t s)"

definition endTagNameBlock ::
  "State \<Rightarrow> State \<Rightarrow> uchar \<Rightarrow> HTMLTokenizer \<Rightarrow> SegmentedString \<Rightarrow> outcome" where
  "endTagNameBlock endTagName text c t s =
     (if isASCIIAlpha c
      then ADVANCE_TO endTagName
             (appendToPossibleEndTag (widen (convertASCIIAlphaToLower c)) (appendToTemporaryBuffer c t)) s
      else if isTokenizerWhitespace c \<and> isAppropriateEndTag t
      then commitPartial BeforeAttributeNameState c t s
      else if c = c_slash \<and> isAppropriateEndTag t
      then commitPartial SelfClosingStartTagState c_slash t s
      else if c = c_gt \<and> isAppropriateEndTag t then commitToCompleteEndTag t s
      else let t = bufferASCIICharacter c_slash (bufferASCIICharacter c_lt t);
               t = withToken (appendToCharacters (m_temporaryBuffer t)) t
           in RECONSUME_IN text c (t\<lparr>m_bufferedEndTagName := [], m_temporaryBuffer := []\<rparr>) s)"

definition onRCDATALessThanSignState :: "uchar \<Rightarrow> HTMLTokenizer \<Rightarrow> SegmentedString \<Rightarrow> outcome" where
  "onRCDATALessThanSignState = lessThanSignBlock RCDATAEndTagOpenState RCDATAState"

definition onRCDATAEndTagOpenState :: "uchar \<Rightarrow> HTMLTokenizer \<Rightarrow> SegmentedString \<Rightarrow> outcome" where
  "onRCDATAEndTagOpenState = endTagOpenBlock RCDATAEndTagNameState RCDATAState"

definition onRCDATAEndTagNameState :: "uchar \<Rightarrow> HTMLTokenizer \<Rightarrow> SegmentedString \<Rightarrow> outcome" where
  "onRCDATAEndTagNameState = endTagNameBlock RCDATAEndTagNameState RCDATAState"

definition onRAWTEXTLessThanSignState :: "uchar \<Rightarrow> HTMLTokenizer \<Rightarrow> SegmentedString \<Rightarrow> outcome" where
  "onRAWTEXTLessThanSignState = lessThanSignBlock RAWTEXTEndTagOpenState RAWTEXTState"

definition onRAWTEXTEndTagOpenState :: "uchar \<Rightarrow> HTMLTokenizer \<Rightarrow> SegmentedString \<Rightarrow> outcome" where
  "onRAWTEXTEndTagOpenState = endTagOpenBlock RAWTEXTEndTagNameState RAWTEXTState"

definition onRAWTEXTEndTagNameState :: "uchar \<Rightarrow> HTMLTokenizer \<Rightarrow> SegmentedString \<Rightarrow> outcome" where
  "onRAWTEXTEndTagNameState = endTagNameBlock RAWTEXTEndTagNameState RAWTEXTState"

definition onScriptDataLessThanSignState :: "uchar \<Rightarrow> HTMLTokenizer \<Rightarrow> SegmentedString \<Rightarrow> outcome" where
  "onScriptDataLessThanSignState c t s =
     (if c = c_bang
      then ADVANCE_TO ScriptDataEscapeStartState (bufferASCIICharacter c_bang (bufferASCIICharacter c_lt t)) s
      else lessThanSignBlock ScriptDataEndTagOpenState ScriptDataState c t s)"

definition onScriptDataEndTagOpenState :: "uchar \<Rightarrow> HTMLTokenizer \<Rightarrow> SegmentedString \<Rightarrow> outcome" where
  "onScriptDataEndTagOpenState = endTagOpenBlock ScriptDataEndTagNameState ScriptDataState"

definition onScriptDataEndTagNameState :: "uchar \<Rightarrow> HTMLTokenizer \<Rightarrow> SegmentedString \<Rightarrow> outcome" where
  "onScriptDataEndTagNameState = endTagNameBlock ScriptDataEndTagNameState ScriptDataState"

section \<open>Escaped script data\<close>

definition onScriptDataEscapeStartState :: "uchar \<Rightarrow> HTMLTokenizer \<Rightarrow> SegmentedString \<Rightarrow> outcome" where
  "onScriptDataEscapeStartState c t s =
     (if c = c_dash then ADVANCE_TO ScriptDataEscapeStartDashState (bufferASCIICharacter c_dash t) s
      else RECONSUME_IN ScriptDataState c t s)"

definition onScriptDataEscapeStartDashState :: "uchar \<Rightarrow> HTMLTokenizer \<Rightarrow> SegmentedString \<Rightarrow> outcome" where
  "onScriptDataEscapeStartDashState c t s =
     (if c = c_dash then ADVANCE_TO ScriptDataEscapedDashDashState (bufferASCIICharacter c_dash t) s
      else RECONSUME_IN ScriptDataState c t s)"

definition onScriptDataEscapedState :: "uchar \<Rightarrow> HTMLTokenizer \<Rightarrow> SegmentedString \<Rightarrow> outcome" where
  "onScriptDataEscapedState c t s =
     (if c = c_dash then ADVANCE_TO ScriptDataEscapedDashState (bufferASCIICharacter c_dash t) s
      else if c = c_lt then ADVANCE_TO ScriptDataEscapedLessThanSignState t s
      else if c = kEndOfFileMarker then RECONSUME_IN DataState c t s
      else ADVANCE_TO ScriptDataEscapedState (bufferCharacter c t) s)"

definition onScriptDataEscapedDashState :: "uchar \<Rightarrow> HTMLTokenizer \<Rightarrow> SegmentedString \<Rightarrow> outcome" where
  "onScriptDataEscapedDashState c t s =
     (if c = c_dash then ADVANCE_TO ScriptDataEscapedDashDashState (bufferASCIICharacter c_dash t) s
      else if c = c_lt then ADVANCE_TO ScriptDataEscapedLessThanSignState t s
      else if c = kEndOfFileMarker then RECONSUME_IN DataState c t s
      else ADVANCE_TO ScriptDataEscapedState (bufferCharacter c t) s)"

definition onScriptDataEscapedDashDashState :: "uchar \<Rightarrow> HTMLTokenizer \<Rightarrow> SegmentedString \<Rightarrow> outcome" where
  "onScriptDataEscapedDashDashState c t s =
     (if c = c_dash then ADVANCE_TO ScriptDataEscapedDashDashState (bufferASCIICharacter c_dash t) s
      else if c = c_lt then ADVANCE_TO ScriptDataEscapedLessThanSignState t s
      else if c = c_gt then ADVANCE_TO ScriptDataState (bufferASCIICharacter c_gt t) s
      else if c = kEndOfFileMarker then RECONSUME_IN DataState c t s
      else ADVANCE_TO ScriptDataEscapedState (bufferCharacter c t) s)"

definition onScriptDataEscapedLessThanSignState :: "uchar \<Rightarrow> HTMLTokenizer \<Rightarrow> SegmentedString \<Rightarrow> outcome" where
  "onScriptDataEscapedLessThanSignState c t s =
     (if c = c_slash
      then ADVANCE_TO ScriptDataEscapedEndTagOpenState
             (assertTk (m_bufferedEndTagName t = []) (t\<lparr>m_temporaryBuffer := []\<rparr>)) s
      else if isASCIIAlpha c
      then let t = bufferASCIICharacter c (bufferASCIICharacter c_lt t)
           in ADVANCE_TO ScriptDataDoubleEscapeStartState
                (appendToTemporaryBuffer (widen (convertASCIIAlphaToLower c)) (t\<lparr>m_temporaryBuffer := []\<rparr>)) s
      else RECONSUME_IN ScriptDataEscapedState c (bufferASCIICharacter c_lt t) s)"

definition onScriptDataEscapedEndTagOpenState :: "uchar \<Rightarrow> HTMLTokenizer \<Rightarrow> SegmentedString \<Rightarrow> outcome" where
  "onScriptDataEscapedEndTagOpenState =
     endTagOpenBlock ScriptDataEscapedEndTagNameState ScriptDataEscapedState"

definition onScriptDataEscapedEndTagNameState :: "uchar \<Rightarrow> HTMLTokenizer \<Rightarrow> SegmentedString \<Rightarrow> outcome" where
  "onScriptDataEscapedEndTagNameState =
     endTagNameBlock ScriptDataEscapedEndTagNameState ScriptDataEscapedState"

definition onScriptDataDoubleEscapeStartState :: "uchar \<Rightarrow> HTMLTokenizer \<Rightarrow> SegmentedString \<Rightarrow> outcome" where
  "onScriptDataDoubleEscapeStartState c t s =
     (if isTokenizerWhitespace c \<or> c = c_slash \<or> c = c_gt
      then let t = bufferASCIICharacter c t in
           if temporaryBufferIs ''script'' t then ADVANCE_TO ScriptDataDoubleEscapedState t s
           else ADVANCE_TO ScriptDataEscapedState t s
      else if isASCIIAlpha c
      then ADVANCE_TO ScriptDataDoubleEscapeStartState
             (appendToTemporaryBuffer (widen (convertASCIIAlphaToLower c)) (bufferASCIICharacter c t)) s
      else RECONSUME_IN ScriptDataEscapedState c t s)"

definition onScriptDataDoubleEscapedState :: "uchar \<Rightarrow> HTMLTokenizer \<Rightarrow> SegmentedString \<Rightarrow> outcome" where
  "onScriptDataDoubleEscapedState c t s =
     (if c = c_dash then ADVANCE_TO ScriptDataDoubleEscapedDashState (bufferASCIICharacter c_dash t) s
      else if c = c_lt
      then ADVANCE_TO ScriptDataDoubleEscapedLessThanSignState (bufferASCIICharacter c_lt t) s
      else if c = kEndOfFileMarker then RECONSUME_IN DataState c t s
      else ADVANCE_TO ScriptDataDoubleEscapedState (bufferCharacter c t) s)"

definition onScriptDataDoubleEscapedDashState :: "uchar \<Rightarrow> HTMLTokenizer \<Rightarrow> SegmentedString \<Rightarrow> outcome" where
  "onScriptDataDoubleEscapedDashState c t s =
     (if c = c_dash then ADVANCE_TO ScriptDataDoubleEscapedDashDashState (bufferASCIICharacter c_dash t) s
      else if c = c_lt
      then ADVANCE_TO ScriptDataDoubleEscapedLessThanSignState (bufferASCIICharacter c_lt t) s
      else if c = kEndOfFileMarker then RECONSUME_IN DataState c t s
      else ADVANCE_TO ScriptDataDoubleEscapedState (bufferCharacter c t) s)"

definition onScriptDataDoubleEscapedDashDashState :: "uchar \<Rightarrow> HTMLTokenizer \<Rightarrow> SegmentedString \<Rightarrow> outcome" where
  "onScriptDataDoubleEscapedDashDashState c t s =
     (if c = c_dash then ADVANCE_TO ScriptDataDoubleEscapedDashDashState (bufferASCIICharacter c_dash t) s
      else if c = c_lt
      then ADVANCE_TO ScriptDataDoubleEscapedLessThanSignState (bufferASCIICharacter c_lt t) s
      else if c = c_gt then ADVANCE_TO ScriptDataState (bufferASCIICharacter c_gt t) s
      else if c = kEndOfFileMarker then RECONSUME_IN DataState c t s
      else ADVANCE_TO ScriptDataDoubleEscapedState (bufferCharacter c t) s)"

definition onScriptDataDoubleEscapedLessThanSignState ::
  "uchar \<Rightarrow> HTMLTokenizer \<Rightarrow> SegmentedString \<Rightarrow> outcome" where
  "onScriptDataDoubleEscapedLessThanSignState c t s =
     (if c = c_slash
      then ADVANCE_TO ScriptDataDoubleEscapeEndState
             ((bufferASCIICharacter c_slash t)\<lparr>m_temporaryBuffer := []\<rparr>) s
      else RECONSUME_IN ScriptDataDoubleEscapedState c t s)"

definition onScriptDataDoubleEscapeEndState :: "uchar \<Rightarrow> HTMLTokenizer \<Rightarrow> SegmentedString \<Rightarrow> outcome" where
  "onScriptDataDoubleEscapeEndState c t s =
     (if isTokenizerWhitespace c \<or> c = c_slash \<or> c = c_gt
      then let t = bufferASCIICharacter c t in
           if temporaryBufferIs ''script'' t then ADVANCE_TO ScriptDataEscapedState t s
           else ADVANCE_TO ScriptDataDoubleEscapedState t s
      else if isASCIIAlpha c
      then ADVANCE_TO ScriptDataDoubleEscapeEndState
             (appendToTemporaryBuffer (widen (convertASCIIAlphaToLower c)) (bufferASCIICharacter c t)) s
      else RECONSUME_IN ScriptDataDoubleEscapedState c t s)"

section \<open>Attributes\<close>

definition onBeforeAttributeNameState ::
  "uchar \<Rightarrow> HTMLTokenizer \<Rightarrow> SegmentedString \<Rightarrow> outcome" where
  "onBeforeAttributeNameState c t s =
     (if isTokenizerWhitespace c then ADVANCE_TO BeforeAttributeNameState t s
      else if c = c_slash then ADVANCE_TO SelfClosingStartTagState t s
      else if c = c_gt then emitAndResumeInDataState t s
      else if usePreHTML5ParserQuirks (m_options t) \<and> c = c_lt then emitAndReconsumeInDataState t s
      else if c = kEndOfFileMarker then RECONSUME_IN DataState c t s
      else ADVANCE_TO AttributeNameState
             (withToken (\<lambda>k. appendToAttributeName (toASCIILower c)
               (beginAttribute (numberOfCharactersConsumed s) k)) t) s)"

definition onAttributeNameState ::
  "uchar \<Rightarrow> HTMLTokenizer \<Rightarrow> SegmentedString \<Rightarrow> outcome" where
  "onAttributeNameState c t s =
     (if isTokenizerWhitespace c then ADVANCE_TO AfterAttributeNameState t s
      else if c = c_slash then ADVANCE_TO SelfClosingStartTagState t s
      else if c = c_eq then ADVANCE_TO BeforeAttributeValueState t s
      else if c = c_gt then emitAndResumeInDataState t s
      else if usePreHTML5ParserQuirks (m_options t) \<and> c = c_lt then emitAndReconsumeInDataState t s
      else if c = kEndOfFileMarker then RECONSUME_IN DataState c t s
      else ADVANCE_TO AttributeNameState (withToken (appendToAttributeName (toASCIILower c)) t) s)"

definition onAfterAttributeNameState ::
  "uchar \<Rightarrow> HTMLTokenizer \<Rightarrow> SegmentedString \<Rightarrow> outcome" where
  "onAfterAttributeNameState c t s =
     (if isTokenizerWhitespace c then ADVANCE_TO AfterAttributeNameState t s
      else if c = c_slash then ADVANCE_TO SelfClosingStartTagState t s
      else if c = c_eq then ADVANCE_TO BeforeAttributeValueState t s
      else if c = c_gt then emitAndResumeInDataState t s
      else if usePreHTML5ParserQuirks (m_options t) \<and> c = c_lt then emitAndReconsumeInDataState t s
      else if c = kEndOfFileMarker then RECONSUME_IN DataState c t s
      else ADVANCE_TO AttributeNameState
             (withToken (\<lambda>k. appendToAttributeName (toASCIILower c)
               (beginAttribute (numberOfCharactersConsumed s) k)) t) s)"

definition onBeforeAttributeValueState ::
  "uchar \<Rightarrow> HTMLTokenizer \<Rightarrow> SegmentedString \<Rightarrow> outcome" where
  "onBeforeAttributeValueState c t s =
     (if isTokenizerWhitespace c then ADVANCE_TO BeforeAttributeValueState t s
      else if c = c_quot then ADVANCE_TO AttributeValueDoubleQuotedState t s
      else if c = c_amp then RECONSUME_IN AttributeValueUnquotedState c t s
      else if c = c_apos then ADVANCE_TO AttributeValueSingleQuotedState t s
      else if c = c_gt then emitAndResumeInDataState t s
      else if c = kEndOfFileMarker then RECONSUME_IN DataState c t s
      else ADVANCE_TO AttributeValueUnquotedState (withToken (appendToAttributeValue c) t) s)"

definition onAttributeValueDoubleQuotedState ::
  "uchar \<Rightarrow> HTMLTokenizer \<Rightarrow> SegmentedString \<Rightarrow> outcome" where
  "onAttributeValueDoubleQuotedState c t s =
     (if c = c_quot then ADVANCE_TO AfterAttributeValueQuotedState (withToken (endAttribute (numberOfCharactersConsumed s)) t) s
      else if c = c_amp then ADVANCE_TO CharacterReferenceInAttributeValueState (t\<lparr>m_additionalAllowedCharacter := c_quot\<rparr>) s
      else if c = kEndOfFileMarker then RECONSUME_IN DataState c (withToken (endAttribute (numberOfCharactersConsumed s)) t) s
      else ADVANCE_TO AttributeValueDoubleQuotedState (withToken (appendToAttributeValue c) t) s)"

definition onAttributeValueSingleQuotedState ::
  "uchar \<Rightarrow> HTMLTokenizer \<Rightarrow> SegmentedString \<Rightarrow> outcome" where
  "onAttributeValueSingleQuotedState c t s =
     (if c = c_apos then ADVANCE_TO AfterAttributeValueQuotedState (withToken (endAttribute (numberOfCharactersConsumed s)) t) s
      else if c = c_amp then ADVANCE_TO CharacterReferenceInAttributeValueState (t\<lparr>m_additionalAllowedCharacter := c_apos\<rparr>) s
      else if c = kEndOfFileMarker then RECONSUME_IN DataState c (withToken (endAttribute (numberOfCharactersConsumed s)) t) s
      else ADVANCE_TO AttributeValueSingleQuotedState (withToken (appendToAttributeValue c) t) s)"

definition onAttributeValueUnquotedState ::
  "uchar \<Rightarrow> HTMLTokenizer \<Rightarrow> SegmentedString \<Rightarrow> outcome" where
  "onAttributeValueUnquotedState c t s =
     (if isTokenizerWhitespace c then ADVANCE_TO BeforeAttributeNameState (withToken (endAttribute (numberOfCharactersConsumed s)) t) s
      else if c = c_amp then ADVANCE_TO CharacterReferenceInAttributeValueState (t\<lparr>m_additionalAllowedCharacter := c_gt\<rparr>) s
      else if c = c_gt then emitAndResumeInDataState (withToken (endAttribute (numberOfCharactersConsumed s)) t) s
      else if c = kEndOfFileMarker then RECONSUME_IN DataState c (withToken (endAttribute (numberOfCharactersConsumed s)) t) s
      else ADVANCE_TO AttributeValueUnquotedState (withToken (appendToAttributeValue c) t) s)"

definition onCharacterReferenceInAttributeValueState ::
  "html_env \<Rightarrow> HTMLTokenizer \<Rightarrow> SegmentedString \<Rightarrow> outcome" where
  "onCharacterReferenceInAttributeValueState env t s =
     (case consumeHTMLEntity (entityTable env) (m_additionalAllowedCharacter t) s of
        None \<Rightarrow> OutOfFuel
      | Some r \<Rightarrow>
          let s = afterSource r in
          if notEnoughCharacters r
          then RETURN_IN_CURRENT_STATE CharacterReferenceInAttributeValueState
                 (haveBufferedCharacterToken t) t s
          else let t = (if \<not> success r
                        then withToken (appendToAttributeValue c_amp) (assertTk (decoded r = []) t)
                        else withToken (fold appendToAttributeValue (decoded r)) t) in
               if m_additionalAllowedCharacter t = c_quot then SWITCH_TO AttributeValueDoubleQuotedState t s
               else if m_additionalAllowedCharacter t = c_apos
               then SWITCH_TO AttributeValueSingleQuotedState t s
               else SWITCH_TO AttributeValueUnquotedState
                      (assertTk (m_additionalAllowedCharacter t = c_gt) t) s)"

definition onAfterAttributeValueQuotedState ::
  "uchar \<Rightarrow> HTMLTokenizer \<Rightarrow> SegmentedString \<Rightarrow> outcome" where
  "onAfterAttributeValueQuotedState c t s =
     (if isTokenizerWhitespace c then ADVANCE_TO BeforeAttributeNameState t s
      else if c = c_slash then ADVANCE_TO SelfClosingStartTagState t s
      else if c = c_gt then emitAndResumeInDataState t s
      else if usePreHTML5ParserQuirks (m_options t) \<and> c = c_lt then emitAndReconsumeInDataState t s
      else if c = kEndOfFileMarker then RECONSUME_IN DataState c t s
      else RECONSUME_IN BeforeAttributeNameState c t s)"

definition onSelfClosingStartTagState ::
  "uchar \<Rightarrow> HTMLTokenizer \<Rightarrow> SegmentedString \<Rightarrow> outcome" where
  "onSelfClosingStartTagState c t s =
     (if c = c_gt then emitAndResumeInDataState (withToken setSelfClosing t) s
      else if c = kEndOfFileMarker then RECONSUME_IN DataState c t s
      else RECONSUME_IN BeforeAttributeNameState c t s)"

section \<open>Comments\<close>

definition onBogusCommentState :: "uchar \<Rightarrow> HTMLTokenizer \<Rightarrow> SegmentedString \<Rightarrow> outcome" where
  "onBogusCommentState c t s = RECONSUME_IN ContinueBogusCommentState c (withToken beginComment t) s"

definition onContinueBogusCommentState ::
  "uchar \<Rightarrow> HTMLTokenizer \<Rightarrow> SegmentedString \<Rightarrow> outcome" where
  "onContinueBogusCommentState c t s =
     (if c = c_gt then emitAndResumeInDataState t s
      else if c = kEndOfFileMarker then emitAndReconsumeInDataState t s
      else ADVANCE_TO ContinueBogusCommentState (withToken (appendToComment c) t) s)"

definition onMarkupDeclarationOpenState ::
  "html_env \<Rightarrow> uchar \<Rightarrow> HTMLTokenizer \<Rightarrow> SegmentedString \<Rightarrow> outcome" where
  "onMarkupDeclarationOpenState env c t s =
     (if c = c_dash
      then case advancePast (u_foldCase env) (ascii ''--'') True s of
             (DidMatch, s) \<Rightarrow> SWITCH_TO CommentStartState (withToken beginComment t) s
           | (NotEnoughCharacters, s) \<Rightarrow>
               RETURN_IN_CURRENT_STATE MarkupDeclarationOpenState (haveBufferedCharacterToken t) t s
           | (DidNotMatch, s) \<Rightarrow> RECONSUME_IN BogusCommentState c t s
      else if isASCIIAlphaCaselessEqual c 0x64
      then case advancePast (u_foldCase env) (ascii ''doctype'') False s of
             (DidMatch, s) \<Rightarrow> SWITCH_TO DOCTYPEState t s
           | (NotEnoughCharacters, s) \<Rightarrow>
               RETURN_IN_CURRENT_STATE MarkupDeclarationOpenState (haveBufferedCharacterToken t) t s
           | (DidNotMatch, s) \<Rightarrow> RECONSUME_IN BogusCommentState c t s
      else if c = c_lbrack \<and> m_shouldAllowCDATA t
      then case advancePast (u_foldCase env) (ascii ''[CDATA['') True s of
             (DidMatch, s) \<Rightarrow> SWITCH_TO CDATASectionState t s
           | (NotEnoughCharacters, s) \<Rightarrow>
               RETURN_IN_CURRENT_STATE MarkupDeclarationOpenState (haveBufferedCharacterToken t) t s
           | (DidNotMatch, s) \<Rightarrow> RECONSUME_IN BogusCommentState c t s
      else RECONSUME_IN BogusCommentState c t s)"

definition onCommentStartState ::
  "uchar \<Rightarrow> HTMLTokenizer \<Rightarrow> SegmentedString \<Rightarrow> outcome" where
  "onCommentStartState c t s =
     (if c = c_dash then ADVANCE_TO CommentStartDashState t s
      else if c = c_gt then emitAndResumeInDataState t s
      else if c = kEndOfFileMarker then emitAndReconsumeInDataState t s
      else ADVANCE_TO CommentState (withToken (appendToComment c) t) s)"

definition onCommentStartDashState ::
  "uchar \<Rightarrow> HTMLTokenizer \<Rightarrow> SegmentedString \<Rightarrow> outcome" where
  "onCommentStartDashState c t s =
     (if c = c_dash then ADVANCE_TO CommentEndState t s
      else if c = c_gt then emitAndResumeInDataState t s
      else if c = kEndOfFileMarker then emitAndReconsumeInDataState t s
      else ADVANCE_TO CommentState (withToken (fold appendToComment [c_dash, c]) t) s)"

definition onCommentState ::
  "uchar \<Rightarrow> HTMLTokenizer \<Rightarrow> SegmentedString \<Rightarrow> outcome" where
  "onCommentState c t s =
     (if c = c_dash then ADVANCE_TO CommentEndDashState t s
      else if c = kEndOfFileMarker then emitAndReconsumeInDataState t s
      else ADVANCE_TO CommentState (withToken (appendToComment c) t) s)"

definition onCommentEndDashState ::
  "uchar \<Rightarrow> HTMLTokenizer \<Rightarrow> SegmentedString \<Rightarrow> outcome" where
  "onCommentEndDashState c t s =
     (if c = c_dash then ADVANCE_TO CommentEndState t s
      else if c = kEndOfFileMarker then emitAndReconsumeInDataState t s
      else ADVANCE_TO CommentState (withToken (fold appendToComment [c_dash, c]) t) s)"

definition onCommentEndState ::
  "uchar \<Rightarrow> HTMLTokenizer \<Rightarrow> SegmentedString \<Rightarrow> outcome" where
  "onCommentEndState c t s =
     (if c = c_gt then emitAndResumeInDataState t s
      else if c = c_bang then ADVANCE_TO CommentEndBangState t s
      else if c = c_dash then ADVANCE_TO CommentEndState (withToken (appendToComment c_dash) t) s
      else if c = kEndOfFileMarker then emitAndReconsumeInDataState t s
      else ADVANCE_TO CommentState (withToken (fold appendToComment [c_dash, c_dash, c]) t) s)"

definition onCommentEndBangState ::
  "uchar \<Rightarrow> HTMLTokenizer \<Rightarrow> SegmentedString \<Rightarrow> outcome" where
  "onCommentEndBangState c t s =
     (if c = c_dash then ADVANCE_TO CommentEndDashState (withToken (fold appendToComment [c_dash, c_dash, c_bang]) t) s
      else if c = c_gt then emitAndResumeInDataState t s
      else if c = kEndOfFileMarker then emitAndReconsumeInDataState t s
      else ADVANCE_TO CommentState (withToken (fold appendToComment [c_dash, c_dash, c_bang, c]) t) s)"

section \<open>DOCTYPE\<close>

definition onDOCTYPEState ::
  "uchar \<Rightarrow> HTMLTokenizer \<Rightarrow> SegmentedString \<Rightarrow> outcome" where
  "onDOCTYPEState c t s =
     (if isTokenizerWhitespace c then ADVANCE_TO BeforeDOCTYPENameState t s
      else if c = kEndOfFileMarker then emitAndReconsumeInDataState (withToken (\<lambda>k. setForceQuirks (beginDOCTYPE k)) t) s
      else RECONSUME_IN BeforeDOCTYPENameState c t s)"

definition onBeforeDOCTYPENameState ::
  "uchar \<Rightarrow> HTMLTokenizer \<Rightarrow> SegmentedString \<Rightarrow> outcome" where
  "onBeforeDOCTYPENameState c t s =
     (if isTokenizerWhitespace c then ADVANCE_TO BeforeDOCTYPENameState t s
      else if c = c_gt then emitAndResumeInDataState (withToken (\<lambda>k. setForceQuirks (beginDOCTYPE k)) t) s
      else if c = kEndOfFileMarker then emitAndReconsumeInDataState (withToken (\<lambda>k. setForceQuirks (beginDOCTYPE k)) t) s
      else ADVANCE_TO DOCTYPENameState (withToken (beginDOCTYPEWith (toASCIILower c)) t) s)"

definition onDOCTYPENameState ::
  "uchar \<Rightarrow> HTMLTokenizer \<Rightarrow> SegmentedString \<Rightarrow> outcome" where
  "onDOCTYPENameState c t s =
     (if isTokenizerWhitespace c then ADVANCE_TO AfterDOCTYPENameState t s
      else if c = c_gt then emitAndResumeInDataState t s
      else if c = kEndOfFileMarker then emitAndReconsumeInDataState (withToken setForceQuirks t) s
      else ADVANCE_TO DOCTYPENameState (withToken (appendToName (toASCIILower c)) t) s)"

definition onAfterDOCTYPENameState ::
  "html_env \<Rightarrow> uchar \<Rightarrow> HTMLTokenizer \<Rightarrow> SegmentedString \<Rightarrow> outcome" where
  "onAfterDOCTYPENameState env c t s =
     (if isTokenizerWhitespace c then ADVANCE_TO AfterDOCTYPENameState t s
      else if c = c_gt then emitAndResumeInDataState t s
      else if c = kEndOfFileMarker then emitAndReconsumeInDataState (withToken setForceQuirks t) s
      else if isASCIIAlphaCaselessEqual c 0x70 then 
           case advancePast (u_foldCase env) (ascii ''public'') False s of
             (DidMatch, s) \<Rightarrow> SWITCH_TO AfterDOCTYPEPublicKeywordState t s
           | (NotEnoughCharacters, s) \<Rightarrow>
               RETURN_IN_CURRENT_STATE AfterDOCTYPENameState (haveBufferedCharacterToken t) t s
           | (DidNotMatch, s) \<Rightarrow> ADVANCE_TO BogusDOCTYPEState (withToken setForceQuirks t) s
      else if isASCIIAlphaCaselessEqual c 0x73 then 
           case advancePast (u_foldCase env) (ascii ''system'') False s of
             (DidMatch, s) \<Rightarrow> SWITCH_TO AfterDOCTYPESystemKeywordState t s
           | (NotEnoughCharacters, s) \<Rightarrow>
               RETURN_IN_CURRENT_STATE AfterDOCTYPENameState (haveBufferedCharacterToken t) t s
           | (DidNotMatch, s) \<Rightarrow> ADVANCE_TO BogusDOCTYPEState (withToken setForceQuirks t) s
      else ADVANCE_TO BogusDOCTYPEState (withToken setForceQuirks t) s)"

definition onAfterDOCTYPEPublicKeywordState ::
  "uchar \<Rightarrow> HTMLTokenizer \<Rightarrow> SegmentedString \<Rightarrow> outcome" where
  "onAfterDOCTYPEPublicKeywordState c t s =
     (if isTokenizerWhitespace c then ADVANCE_TO BeforeDOCTYPEPublicIdentifierState t s
      else if c = c_quot then ADVANCE_TO DOCTYPEPublicIdentifierDoubleQuotedState (withToken setPublicIdentifierToEmptyString t) s
      else if c = c_apos then ADVANCE_TO DOCTYPEPublicIdentifierSingleQuotedState (withToken setPublicIdentifierToEmptyString t) s
      else if c = c_gt then emitAndResumeInDataState (withToken setForceQuirks t) s
      else if c = kEndOfFileMarker then emitAndReconsumeInDataState (withToken setForceQuirks t) s
      else ADVANCE_TO BogusDOCTYPEState (withToken setForceQuirks t) s)"

definition onBeforeDOCTYPEPublicIdentifierState ::
  "uchar \<Rightarrow> HTMLTokenizer \<Rightarrow> SegmentedString \<Rightarrow> outcome" where
  "onBeforeDOCTYPEPublicIdentifierState c t s =
     (if isTokenizerWhitespace c then ADVANCE_TO BeforeDOCTYPEPublicIdentifierState t s
      else if c = c_quot then ADVANCE_TO DOCTYPEPublicIdentifierDoubleQuotedState (withToken setPublicIdentifierToEmptyString t) s
      else if c = c_apos then ADVANCE_TO DOCTYPEPublicIdentifierSingleQuotedState (withToken setPublicIdentifierToEmptyString t) s
      else if c = c_gt then emitAndResumeInDataState (withToken setForceQuirks t) s
      else if c = kEndOfFileMarker then emitAndReconsumeInDataState (withToken setForceQuirks t) s
      else ADVANCE_TO BogusDOCTYPEState (withToken setForceQuirks t) s)"

definition onDOCTYPEPublicIdentifierDoubleQuotedState ::
  "uchar \<Rightarrow> HTMLTokenizer \<Rightarrow> SegmentedString \<Rightarrow> outcome" where
  "onDOCTYPEPublicIdentifierDoubleQuotedState c t s =
     (if c = c_quot then ADVANCE_TO AfterDOCTYPEPublicIdentifierState t s
      else if c = c_gt then emitAndResumeInDataState (withToken setForceQuirks t) s
      else if c = kEndOfFileMarker then emitAndReconsumeInDataState (withToken setForceQuirks t) s
      else ADVANCE_TO DOCTYPEPublicIdentifierDoubleQuotedState (withToken (appendToPublicIdentifier c) t) s)"

definition onDOCTYPEPublicIdentifierSingleQuotedState ::
  "uchar \<Rightarrow> HTMLTokenizer \<Rightarrow> SegmentedString \<Rightarrow> outcome" where
  "onDOCTYPEPublicIdentifierSingleQuotedState c t s =
     (if c = c_apos then ADVANCE_TO AfterDOCTYPEPublicIdentifierState t s
      else if c = c_gt then emitAndResumeInDataState (withToken setForceQuirks t) s
      else if c = kEndOfFileMarker then emitAndReconsumeInDataState (withToken setForceQuirks t) s
      else ADVANCE_TO DOCTYPEPublicIdentifierSingleQuotedState (withToken (appendToPublicIdentifier c) t) s)"

definition onAfterDOCTYPEPublicIdentifierState ::
  "uchar \<Rightarrow> HTMLTokenizer \<Rightarrow> SegmentedString \<Rightarrow> outcome" where
  "onAfterDOCTYPEPublicIdentifierState c t s =
     (if isTokenizerWhitespace c then ADVANCE_TO BetweenDOCTYPEPublicAndSystemIdentifiersState t s
      else if c = c_gt then emitAndResumeInDataState t s
      else if c = c_quot then ADVANCE_TO DOCTYPESystemIdentifierDoubleQuotedState (withToken setSystemIdentifierToEmptyString t) s
      else if c = c_apos then ADVANCE_TO DOCTYPESystemIdentifierSingleQuotedState (withToken setSystemIdentifierToEmptyString t) s
      else if c = kEndOfFileMarker then emitAndReconsumeInDataState (withToken setForceQuirks t) s
      else ADVANCE_TO BogusDOCTYPEState (withToken setForceQuirks t) s)"

definition onBetweenDOCTYPEPublicAndSystemIdentifiersState ::
  "uchar \<Rightarrow> HTMLTokenizer \<Rightarrow> SegmentedString \<Rightarrow> outcome" where
  "onBetweenDOCTYPEPublicAndSystemIdentifiersState c t s =
     (if isTokenizerWhitespace c then ADVANCE_TO BetweenDOCTYPEPublicAndSystemIdentifiersState t s
      else if c = c_gt then emitAndResumeInDataState t s
      else if c = c_quot then ADVANCE_TO DOCTYPESystemIdentifierDoubleQuotedState (withToken setSystemIdentifierToEmptyString t) s
      else if c = c_apos then ADVANCE_TO DOCTYPESystemIdentifierSingleQuotedState (withToken setSystemIdentifierToEmptyString t) s
      else if c = kEndOfFileMarker then emitAndReconsumeInDataState (withToken setForceQuirks t) s
      else ADVANCE_TO BogusDOCTYPEState (withToken setForceQuirks t) s)"

definition onAfterDOCTYPESystemKeywordState ::
  "uchar \<Rightarrow> HTMLTokenizer \<Rightarrow> SegmentedString \<Rightarrow> outcome" where
  "onAfterDOCTYPESystemKeywordState c t s =
     (if isTokenizerWhitespace c then ADVANCE_TO BeforeDOCTYPESystemIdentifierState t s
      else if c = c_quot then ADVANCE_TO DOCTYPESystemIdentifierDoubleQuotedState (withToken setSystemIdentifierToEmptyString t) s
      else if c = c_apos then ADVANCE_TO DOCTYPESystemIdentifierSingleQuotedState (withToken setSystemIdentifierToEmptyString t) s
      else if c = c_gt then emitAndResumeInDataState (withToken setForceQuirks t) s
      else if c = kEndOfFileMarker then emitAndReconsumeInDataState (withToken setForceQuirks t) s
      else ADVANCE_TO BogusDOCTYPEState (withToken setForceQuirks t) s)"

definition onBeforeDOCTYPESystemIdentifierState ::
  "uchar \<Rightarrow> HTMLTokenizer \<Rightarrow> SegmentedString \<Rightarrow> outcome" where
  "onBeforeDOCTYPESystemIdentifierState c t s =
     (if isTokenizerWhitespace c then ADVANCE_TO BeforeDOCTYPESystemIdentifierState t s
      else if c = c_quot then ADVANCE_TO DOCTYPESystemIdentifierDoubleQuotedState (withToken setSystemIdentifierToEmptyString t) s
      else if c = c_apos then ADVANCE_TO DOCTYPESystemIdentifierSingleQuotedState (withToken setSystemIdentifierToEmptyString t) s
      else if c = c_gt then emitAndResumeInDataState (withToken setForceQuirks t) s
      else if c = kEndOfFileMarker then emitAndReconsumeInDataState (withToken setForceQuirks t) s
      else ADVANCE_TO BogusDOCTYPEState (withToken setForceQuirks t) s)"

definition onDOCTYPESystemIdentifierDoubleQuotedState ::
  "uchar \<Rightarrow> HTMLTokenizer \<Rightarrow> SegmentedString \<Rightarrow> outcome" where
  "onDOCTYPESystemIdentifierDoubleQuotedState c t s =
     (if c = c_quot then ADVANCE_TO AfterDOCTYPESystemIdentifierState t s
      else if c = c_gt then emitAndResumeInDataState (withToken setForceQuirks t) s
      else if c = kEndOfFileMarker then emitAndReconsumeInDataState (withToken setForceQuirks t) s
      else ADVANCE_TO DOCTYPESystemIdentifierDoubleQuotedState (withToken (appendToSystemIdentifier c) t) s)"

definition onDOCTYPESystemIdentifierSingleQuotedState ::
  "uchar \<Rightarrow> HTMLTokenizer \<Rightarrow> SegmentedString \<Rightarrow> outcome" where
  "onDOCTYPESystemIdentifierSingleQuotedState c t s =
     (if c = c_apos then ADVANCE_TO AfterDOCTYPESystemIdentifierState t s
      else if c = c_gt then emitAndResumeInDataState (withToken setForceQuirks t) s
      else if c = kEndOfFileMarker then emitAndReconsumeInDataState (withToken setForceQuirks t) s
      else ADVANCE_TO DOCTYPESystemIdentifierSingleQuotedState (withToken (appendToSystemIdentifier c) t) s)"

definition onAfterDOCTYPESystemIdentifierState ::
  "uchar \<Rightarrow> HTMLTokenizer \<Rightarrow> SegmentedString \<Rightarrow> outcome" where
  "onAfterDOCTYPESystemIdentifierState c t s =
     (if isTokenizerWhitespace c then ADVANCE_TO AfterDOCTYPESystemIdentifierState t s
      else if c = c_gt then emitAndResumeInDataState t s
      else if c = kEndOfFileMarker then emitAndReconsumeInDataState (withToken setForceQuirks t) s
      else ADVANCE_TO BogusDOCTYPEState t s)"

definition onBogusDOCTYPEState ::
  "uchar \<Rightarrow> HTMLTokenizer \<Rightarrow> SegmentedString \<Rightarrow> outcome" where
  "onBogusDOCTYPEState c t s =
     (if c = c_gt then emitAndResumeInDataState t s
      else if c = kEndOfFileMarker then emitAndReconsumeInDataState t s
      else ADVANCE_TO BogusDOCTYPEState t s)"

section \<open>CDATA sections\<close>

definition onCDATASectionState ::
  "uchar \<Rightarrow> HTMLTokenizer \<Rightarrow> SegmentedString \<Rightarrow> outcome" where
  "onCDATASectionState c t s =
     (if c = c_rbrack then ADVANCE_TO CDATASectionRightSquareBracketState t s
      else if c = kEndOfFileMarker then RECONSUME_IN DataState c t s
      else ADVANCE_TO CDATASectionState (bufferCharacter c t) s)"

definition onCDATASectionRightSquareBracketState ::
  "uchar \<Rightarrow> HTMLTokenizer \<Rightarrow> SegmentedString \<Rightarrow> outcome" where
  "onCDATASectionRightSquareBracketState c t s =
     (if c = c_rbrack then ADVANCE_TO CDATASectionDoubleRightSquareBracketState t s
      else RECONSUME_IN CDATASectionState c (bufferASCIICharacter c_rbrack t) s)"

definition onCDATASectionDoubleRightSquareBracketState ::
  "uchar \<Rightarrow> HTMLTokenizer \<Rightarrow> SegmentedString \<Rightarrow> outcome" where
  "onCDATASectionDoubleRightSquareBracketState c t s =
     (if c = c_gt then ADVANCE_TO DataState t s
      else RECONSUME_IN CDATASectionState c (bufferASCIICharacter c_rbrack (bufferASCIICharacter c_rbrack t)) s)"

section \<open>The machine\<close>

primrec stepState :: "State \<Rightarrow> html_env \<Rightarrow> uchar \<Rightarrow> HTMLTokenizer \<Rightarrow> SegmentedString \<Rightarrow> outcome" where
  "stepState DataState env c t s = onDataState c t s"
| "stepState CharacterReferenceInDataState env c t s = onCharacterReferenceInDataState env t s"
| "stepState RCDATAState env c t s = onRCDATAState c t s"
| "stepState CharacterReferenceInRCDATAState env c t s = onCharacterReferenceInRCDATAState env t s"
| "stepState RAWTEXTState env c t s = onRAWTEXTState c t s"
| "stepState ScriptDataState env c t s = onScriptDataState c t s"
| "stepState PLAINTEXTState env c t s = onPLAINTEXTState c t s"
| "stepState TagOpenState env c t s = onTagOpenState c t s"
| "stepState EndTagOpenState env c t s = onEndTagOpenState c t s"
| "stepState TagNameState env c t s = onTagNameState c t s"
| "stepState RCDATALessThanSignState env c t s = onRCDATALessThanSignState c t s"
| "stepState RCDATAEndTagOpenState env c t s = onRCDATAEndTagOpenState c t s"
| "stepState RCDATAEndTagNameState env c t s = onRCDATAEndTagNameState c t s"
| "stepState RAWTEXTLessThanSignState env c t s = onRAWTEXTLessThanSignState c t s"
| "stepState RAWTEXTEndTagOpenState env c t s = onRAWTEXTEndTagOpenState c t s"
| "stepState RAWTEXTEndTagNameState env c t s = onRAWTEXTEndTagNameState c t s"
| "stepState ScriptDataLessThanSignState env c t s = onScriptDataLessThanSignState c t s"
| "stepState ScriptDataEndTagOpenState env c t s = onScriptDataEndTagOpenState c t s"
| "stepState ScriptDataEndTagNameState env c t s = onScriptDataEndTagNameState c t s"
| "stepState ScriptDataEscapeStartState env c t s = onScriptDataEscapeStartState c t s"
| "stepState ScriptDataEscapeStartDashState env c t s = onScriptDataEscapeStartDashState c t s"
| "stepState ScriptDataEscapedState env c t s = onScriptDataEscapedState c t s"
| "stepState ScriptDataEscapedDashState env c t s = onScriptDataEscapedDashState c t s"
| "stepState ScriptDataEscapedDashDashState env c t s = onScriptDataEscapedDashDashState c t s"
| "stepState ScriptDataEscapedLessThanSignState env c t s = onScriptDataEscapedLessThanSignState c t s"
| "stepState ScriptDataEscapedEndTagOpenState env c t s = onScriptDataEscapedEndTagOpenState c t s"
| "stepState ScriptDataEscapedEndTagNameState env c t s = onScriptDataEscapedEndTagNameState c t s"
| "stepState ScriptDataDoubleEscapeStartState env c t s = onScriptDataDoubleEscapeStartState c t s"
| "stepState ScriptDataDoubleEscapedState env c t s = onScriptDataDoubleEscapedState c t s"
| "stepState ScriptDataDoubleEscapedDashState env c t s = onScriptDataDoubleEscapedDashState c t s"
| "stepState ScriptDataDoubleEscapedDashDashState env c t s = onScriptDataDoubleEscapedDashDashState c t s"
| "stepState ScriptDataDoubleEscapedLessThanSignState env c t s = onScriptDataDoubleEscapedLessThanSignState c t s"
| "stepState ScriptDataDoubleEscapeEndState env c t s = onScriptDataDoubleEscapeEndState c t s"
| "stepState BeforeAttributeNameState env c t s = onBeforeAttributeNameState c t s"
| "stepState AttributeNameState env c t s = onAttributeNameState c t s"
| "stepState AfterAttributeNameState env c t s = onAfterAttributeNameState c t s"
| "stepState BeforeAttributeValueState env c t s = onBeforeAttributeValueState c t s"
| "stepState AttributeValueDoubleQuotedState env c t s = onAttributeValueDoubleQuotedState c t s"
| "stepState AttributeValueSingleQuotedState env c t s = onAttributeValueSingleQuotedState c t s"
| "stepState AttributeValueUnquotedState env c t s = onAttributeValueUnquotedState c t s"
| "stepState CharacterReferenceInAttributeValueState env c t s = onCharacterReferenceInAttributeValueState env t s"
| "stepState AfterAttributeValueQuotedState env c t s = onAfterAttributeValueQuotedState c t s"
| "stepState SelfClosingStartTagState env c t s = onSelfClosingStartTagState c t s"
| "stepState BogusCommentState env c t s = onBogusCommentState c t s"
| "stepState ContinueBogusCommentState env c t s = onContinueBogusCommentState c t s"
| "stepState MarkupDeclarationOpenState env c t s = onMarkupDeclarationOpenState env c t s"
| "stepState CommentStartState env c t s = onCommentStartState c t s"
| "stepState CommentStartDashState env c t s = onCommentStartDashState c t s"
| "stepState CommentState env c t s = onCommentState c t s"
| "stepState CommentEndDashState env c t s = onCommentEndDashState c t s"
| "stepState CommentEndState env c t s = onCommentEndState c t s"
| "stepState CommentEndBangState env c t s = onCommentEndBangState c t s"
| "stepState DOCTYPEState env c t s = onDOCTYPEState c t s"
| "stepState BeforeDOCTYPENameState env c t s = onBeforeDOCTYPENameState c t s"
| "stepState DOCTYPENameState env c t s = onDOCTYPENameState c t s"
| "stepState AfterDOCTYPENameState env c t s = onAfterDOCTYPENameState env c t s"
| "stepState AfterDOCTYPEPublicKeywordState env c t s = onAfterDOCTYPEPublicKeywordState c t s"
| "stepState BeforeDOCTYPEPublicIdentifierState env c t s = onBeforeDOCTYPEPublicIdentifierState c t s"
| "stepState DOCTYPEPublicIdentifierDoubleQuotedState env c t s = onDOCTYPEPublicIdentifierDoubleQuotedState c t s"
| "stepState DOCTYPEPublicIdentifierSingleQuotedState env c t s = onDOCTYPEPublicIdentifierSingleQuotedState c t s"
| "stepState AfterDOCTYPEPublicIdentifierState env c t s = onAfterDOCTYPEPublicIdentifierState c t s"
| "stepState BetweenDOCTYPEPublicAndSystemIdentifiersState env c t s = onBetweenDOCTYPEPublicAndSystemIdentifiersState c t s"
| "stepState AfterDOCTYPESystemKeywordState env c t s = onAfterDOCTYPESystemKeywordState c t s"
| "stepState BeforeDOCTYPESystemIdentifierState env c t s = onBeforeDOCTYPESystemIdentifierState c t s"
| "stepState DOCTYPESystemIdentifierDoubleQuotedState env c t s = onDOCTYPESystemIdentifierDoubleQuotedState c t s"
| "stepState DOCTYPESystemIdentifierSingleQuotedState env c t s = onDOCTYPESystemIdentifierSingleQuotedState c t s"
| "stepState AfterDOCTYPESystemIdentifierState env c t s = onAfterDOCTYPESystemIdentifierState c t s"
| "stepState BogusDOCTYPEState env c t s = onBogusDOCTYPEState c t s"
| "stepState CDATASectionState env c t s = onCDATASectionState c t s"
| "stepState CDATASectionRightSquareBracketState env c t s = onCDATASectionRightSquareBracketState c t s"
| "stepState CDATASectionDoubleRightSquareBracketState env c t s = onCDATASectionDoubleRightSquareBracketState c t s"

fun runStates ::
  "nat \<Rightarrow> html_env \<Rightarrow> State \<Rightarrow> uchar \<Rightarrow> HTMLTokenizer \<Rightarrow> SegmentedString \<Rightarrow>
   (bool \<times> HTMLTokenizer \<times> SegmentedString) option" where
  "runStates 0 env st c t s = None"
| "runStates (Suc fuel) env st c t s =
     (case stepState st env c t s of
        Return b t s \<Rightarrow> Some (b, t, s)
      | Goto st c t s \<Rightarrow> runStates fuel env st c t s
      | OutOfFuel \<Rightarrow> None)"

definition tokenFuel :: "SegmentedString \<Rightarrow> nat" where
  "tokenFuel s = 4 * nat (lengthSS s) + 4"

definition processToken ::
  "html_env \<Rightarrow> HTMLTokenizer \<Rightarrow> SegmentedString \<Rightarrow> (bool \<times> HTMLTokenizer \<times> SegmentedString) option" where
  "processToken env t0 s =
     (let flush = m_bufferedEndTagName t0 \<noteq> [] \<and> \<not> inEndTagBufferingState t0;
          t = (if flush then flushBufferedEndTag t0 else t0) in
      if flush \<and> m_state t = DataState then Some (True, t, s)
      else case peek (m_forceNullCharacterReplacement t) (isNullCharacterSkippingState (m_state t))
                  (m_preprocessor t) s of
             None \<Rightarrow> None
           | Some (ok, p, s) \<Rightarrow>
               let t = t\<lparr>m_preprocessor := p\<rparr> in
               if \<not> ok then Some (haveBufferedCharacterToken t, t, s)
               else runStates (tokenFuel s) env (m_state t) (m_nextInputCharacter p) t s)"

text \<open>
  \<^verbatim>\<open>nextToken\<close> lends the caller the token when there is one; the destructor of the
  \<^verbatim>\<open>TokenPtr\<close> clears it.
\<close>

definition nextToken ::
  "html_env \<Rightarrow> HTMLTokenizer \<Rightarrow> SegmentedString \<Rightarrow> (HTMLToken option \<times> HTMLTokenizer \<times> SegmentedString) option" where
  "nextToken env t s =
     (case processToken env t s of
        None \<Rightarrow> None
      | Some (b, t, s) \<Rightarrow> Some (if b then Some (m_token t) else None, t, s))"

definition releaseToken :: "HTMLToken option \<Rightarrow> HTMLTokenizer \<Rightarrow> HTMLTokenizer" where
  "releaseToken tokenPtr t = (case tokenPtr of None \<Rightarrow> t | Some k \<Rightarrow> withToken clearToken t)"

section \<open>The rest of the interface\<close>

definition bufferedCharacters :: "HTMLTokenizer \<Rightarrow> uchar list" where
  "bufferedCharacters t = [c_lt, c_slash] @ map widen (m_temporaryBuffer t)"

definition numberOfBufferedCharacters :: "HTMLTokenizer \<Rightarrow> nat" where
  "numberOfBufferedCharacters t =
     (if length (m_temporaryBuffer t) \<noteq> 0 then length (m_temporaryBuffer t) + 2 else 0)"

definition updateStateFor :: "uchar list \<Rightarrow> HTMLTokenizer \<Rightarrow> HTMLTokenizer" where
  "updateStateFor tagName t =
     (if tagName = ascii ''textarea'' \<or> tagName = ascii ''title'' then t\<lparr>m_state := RCDATAState\<rparr>
      else if tagName = ascii ''plaintext'' then t\<lparr>m_state := PLAINTEXTState\<rparr>
      else if tagName = ascii ''script'' then t\<lparr>m_state := ScriptDataState\<rparr>
      else if tagName = ascii ''style'' \<or> tagName = ascii ''iframe'' \<or> tagName = ascii ''xmp''
              \<or> tagName = ascii ''noembed'' \<and> pluginsEnabled (m_options t)
              \<or> tagName = ascii ''noframes''
              \<or> tagName = ascii ''noscript'' \<and> scriptEnabled (m_options t)
      then t\<lparr>m_state := RAWTEXTState\<rparr>
      else t)"

definition setForceNullCharacterReplacement :: "bool \<Rightarrow> HTMLTokenizer \<Rightarrow> HTMLTokenizer" where
  "setForceNullCharacterReplacement value t = t\<lparr>m_forceNullCharacterReplacement := value\<rparr>"

definition setShouldAllowCDATA :: "bool \<Rightarrow> HTMLTokenizer \<Rightarrow> HTMLTokenizer" where
  "setShouldAllowCDATA value t = t\<lparr>m_shouldAllowCDATA := value\<rparr>"

definition isInDataState :: "HTMLTokenizer \<Rightarrow> bool" where
  "isInDataState t \<longleftrightarrow> m_state t = DataState"

definition setDataState :: "HTMLTokenizer \<Rightarrow> HTMLTokenizer" where
  "setDataState t = t\<lparr>m_state := DataState\<rparr>"

definition setPLAINTEXTState :: "HTMLTokenizer \<Rightarrow> HTMLTokenizer" where
  "setPLAINTEXTState t = t\<lparr>m_state := PLAINTEXTState\<rparr>"

definition setRAWTEXTState :: "HTMLTokenizer \<Rightarrow> HTMLTokenizer" where
  "setRAWTEXTState t = t\<lparr>m_state := RAWTEXTState\<rparr>"

definition setRCDATAState :: "HTMLTokenizer \<Rightarrow> HTMLTokenizer" where
  "setRCDATAState t = t\<lparr>m_state := RCDATAState\<rparr>"

definition setScriptDataState :: "HTMLTokenizer \<Rightarrow> HTMLTokenizer" where
  "setScriptDataState t = t\<lparr>m_state := ScriptDataState\<rparr>"

end
