(* ===== verification/Preprocessor_Refine.thy ===== *)
theory Preprocessor_Refine
  imports Input_Preprocessor Segmented_String_Refine
begin

text \<open>
  Correctness of \<^verbatim>\<open>InputStreamPreprocessor\<close>. \<open>nextInput\<close> is the contract of \<open>peek\<close> over the
  pending characters: it skips the LF of a CR LF pair whose CR was already delivered, drops
  or replaces null characters, and delivers CR as LF. \<open>peek_ok\<close> shows that \<open>peek\<close> meets it,
  in particular that it always returns. \<open>drain\<close> reads a source to its end; what it delivers
  is the input with its newlines normalised, however the input is cut into segments.
\<close>

section \<open>The contract of peek\<close>

fun nextInput :: "bool \<Rightarrow> bool \<Rightarrow> bool \<Rightarrow> uchar list \<Rightarrow> bool \<times> uchar list \<times> uchar option" where
  "nextInput keepNull closed skip [] = (skip, [], None)"
| "nextInput keepNull closed skip (c # cs) =
     (if c = c_LF \<and> skip then nextInput keepNull closed False cs
      else if c = c_CR then (True, c # cs, Some c_LF)
      else if c = c_NUL \<and> \<not> (closed \<and> cs = [])
      then if keepNull then (False, c # cs, Some replacementCharacter)
           else nextInput keepNull closed False cs
      else (False, c # cs, Some c))"

definition meets_contract ::
  "bool \<Rightarrow> bool \<Rightarrow> SegmentedString \<Rightarrow> bool \<times> InputStreamPreprocessor \<times> SegmentedString \<Rightarrow> bool" where
  "meets_contract keepNull skip s r \<longleftrightarrow>
     (case r of (ok, p', s') \<Rightarrow>
        case nextInput keepNull (m_closed s) skip (toStringSS s) of (skip', rest, next) \<Rightarrow>
          source_ok s' \<and> toStringSS s' = rest \<and> m_skipNextNewLine p' = skip' \<and>
          ok = (next \<noteq> None) \<and> (ok \<longrightarrow> m_nextInputCharacter p' = the next) \<and>
          m_closed s' = m_closed s \<and> assertsHold s' = assertsHold s \<and>
          numberOfCharactersConsumed s' + int (length rest)
            = numberOfCharactersConsumed s + int (length (toStringSS s)))"

lemma meets_contract_refl:
  "source_ok s \<Longrightarrow> nextInput k (m_closed s) skip (toStringSS s) = (m_skipNextNewLine p, toStringSS s, Some (m_nextInputCharacter p))
   \<Longrightarrow> meets_contract k skip s (True, p, s)"
  by (simp add: meets_contract_def)

text \<open>Dropping a character that the contract drops.\<close>

lemma meets_contract_drop:
  assumes "nextInput k (m_closed s) skip (toStringSS s) = nextInput k (m_closed t) False (toStringSS t)"
    and "toStringSS s = c # toStringSS t" and "m_closed t = m_closed s" and "assertsHold t = assertsHold s"
    and "numberOfCharactersConsumed t = numberOfCharactersConsumed s + 1"
    and "meets_contract k False t r"
  shows "meets_contract k skip s r"
  using assms by (auto simp: meets_contract_def split: prod.splits)

lemma meets_contract_end:
  assumes "source_ok t" and "isEmpty t" and "\<not> m_skipNextNewLine p"
  shows "meets_contract k False t (False, p, t)"
  using assms by (simp add: meets_contract_def src.atEnd_iff)

lemma null_at_end:
  assumes "source_ok s" and "toStringSS s = c # cs"
  shows "shouldTreatNullAsEndOfFileMarker s \<longleftrightarrow> m_closed s \<and> cs = []"
  using assms lengthSS_toString [of s]
  by (auto simp: shouldTreatNullAsEndOfFileMarker_def isClosed_def source_ok_def)

lemma processAfterNewLine_ok:
  assumes ok: "source_ok s" and ne: "\<not> isEmpty s"
    and cur: "m_nextInputCharacter p = currentChar s"
    and nolf: "currentChar s = c_LF \<Longrightarrow> \<not> skip"
    and again: "\<And>t q. source_ok t \<Longrightarrow> \<not> isEmpty t \<Longrightarrow> m_nextInputCharacter q = currentChar t \<Longrightarrow>
        \<not> m_skipNextNewLine q \<Longrightarrow> length (toStringSS t) < length (toStringSS s) \<Longrightarrow>
        \<exists>r. again q t = Some r \<and> meets_contract (nsk \<or> \<not> sk) False t r"
  shows "\<exists>r. processAfterNewLine again nsk sk p s = Some r \<and> meets_contract (nsk \<or> \<not> sk) skip s r"
proof -
  let ?k = "nsk \<or> \<not> sk" and ?t = "advancePastNonNewline s"
  obtain cs where str: "toStringSS s = currentChar s # cs"
    using src.pending_Cons [OF ok ne] by blast
  note null = null_at_end [OF ok str]
  note adv = advancePastNonNewline_ok [OF ok ne]
  show ?thesis
  proof (cases "currentChar s = c_NUL \<and> \<not> (m_closed s \<and> cs = []) \<and> \<not> ?k")
    case True
    let ?q = "p\<lparr>m_skipNextNewLine := False\<rparr>"
    have drop: "meets_contract ?k skip s r" if "meets_contract ?k False ?t r" for r
      by (rule meets_contract_drop [where t = ?t and c = c_NUL]) (use that adv True str in auto)
    have eq: "processAfterNewLine again nsk sk p s =
        (if isEmpty ?t then Some (False, ?q, ?t)
         else again (?q\<lparr>m_nextInputCharacter := currentChar ?t\<rparr>) ?t)"
      using True cur null by (simp add: processAfterNewLine_def Let_def)
    show ?thesis
    proof (cases "isEmpty ?t")
      case True
      with eq adv(1) drop meets_contract_end [of ?t ?q] show ?thesis by simp
    next
      case False
      from again [OF adv(1) False, of "?q\<lparr>m_nextInputCharacter := currentChar ?t\<rparr>"] adv(2) str
      obtain r where "again (?q\<lparr>m_nextInputCharacter := currentChar ?t\<rparr>) ?t = Some r"
        "meets_contract ?k False ?t r" by auto
      with eq drop False show ?thesis by simp
    qed
  next
    case False
    let ?q = "(if currentChar s = c_CR then p\<lparr>m_nextInputCharacter := c_LF, m_skipNextNewLine := True\<rparr>
        else if currentChar s = c_NUL \<and> \<not> (m_closed s \<and> cs = [])
        then p\<lparr>m_skipNextNewLine := False, m_nextInputCharacter := replacementCharacter\<rparr>
        else p\<lparr>m_skipNextNewLine := False\<rparr>)"
    have "processAfterNewLine again nsk sk p s = Some (True, ?q, s)"
      using False cur null by (auto simp add: processAfterNewLine_def Let_def)
    moreover have "nextInput ?k (m_closed s) skip (toStringSS s)
        = (m_skipNextNewLine ?q, toStringSS s, Some (m_nextInputCharacter ?q))"
      using False nolf cur unfolding str by auto
    ultimately show ?thesis using meets_contract_refl [OF ok] by blast
  qed
qed

lemma processNextInputCharacter_ok:
  assumes "source_ok s" and "\<not> isEmpty s" and "m_nextInputCharacter p = currentChar s"
    and "length (toStringSS s) \<le> fuel"
  shows "\<exists>r. processNextInputCharacter fuel nsk sk p s = Some r
             \<and> meets_contract (nsk \<or> \<not> sk) (m_skipNextNewLine p) s r"
  using assms
proof (induction fuel arbitrary: p s)
  case 0
  then show ?case by (simp add: src.atEnd_iff)
next
  case (Suc fuel)
  note ok = Suc.prems(1) and ne = Suc.prems(2) and cur = Suc.prems(3)
  let ?k = "nsk \<or> \<not> sk" and ?again = "processNextInputCharacter fuel nsk sk"
  have again: "\<exists>r. ?again q t = Some r \<and> meets_contract ?k False t r"
    if "source_ok t" "\<not> isEmpty t" "m_nextInputCharacter q = currentChar t" "\<not> m_skipNextNewLine q"
      "length (toStringSS t) < length (toStringSS s)" for q t
    using Suc.IH [OF that(1-3)] that(4,5) Suc.prems(4) by simp
  show ?case
  proof (cases "currentChar s = c_LF \<and> m_skipNextNewLine p")
    case False
    then show ?thesis
      using processAfterNewLine_ok [OF ok ne cur _ again, of "m_skipNextNewLine p"] cur by auto
  next
    case True
    let ?t = "advancePastNewlineAndUpdateLineNumber s" and ?q = "p\<lparr>m_skipNextNewLine := False\<rparr>"
    have "advances s ?t"
      using advancePastNewlineAndUpdateLineNumber_advances ok ne True
      by (simp add: source_ok_def isEmpty_def)
    note adv = advancesD [OF this ok]
    obtain cs where str: "toStringSS s = currentChar s # cs"
      using src.pending_Cons [OF ok ne] by blast
    have drop: "meets_contract ?k True s r" if "meets_contract ?k False ?t r" for r
      by (rule meets_contract_drop [where t = ?t and c = c_LF]) (use that adv True str in auto)
    have eq: "processNextInputCharacter (Suc fuel) nsk sk p s =
        (if isEmpty ?t then Some (False, ?q, ?t)
         else processAfterNewLine ?again nsk sk (?q\<lparr>m_nextInputCharacter := currentChar ?t\<rparr>) ?t)"
      using True cur by (simp add: Let_def)
    show ?thesis
    proof (cases "isEmpty ?t")
      case e: True
      with eq adv(1) drop meets_contract_end [of ?t ?q] True show ?thesis by simp
    next
      case ne': False
      have "\<exists>r. processAfterNewLine ?again nsk sk (?q\<lparr>m_nextInputCharacter := currentChar ?t\<rparr>) ?t = Some r
              \<and> meets_contract ?k False ?t r"
        by (rule processAfterNewLine_ok) (use adv ne' again str in auto)
      with eq ne' drop True show ?thesis by auto
    qed
  qed
qed

text \<open>\<open>peek\<close> always returns, and what it returns meets the contract.\<close>

lemma peek_ok:
  assumes "source_ok s"
  shows "\<exists>r. peek nsk sk p s = Some r \<and> meets_contract (nsk \<or> \<not> sk) (m_skipNextNewLine p) s r"
proof (cases "isEmpty s")
  case True
  with assms show ?thesis by (simp add: peek_def meets_contract_def src.atEnd_iff)
next
  case False
  let ?q = "p\<lparr>m_nextInputCharacter := currentChar s\<rparr>"
  show ?thesis
  proof (cases "currentChar s AND NOT specialCharacterMask \<noteq> 0")
    case True
    then have "currentChar s \<notin> {c_LF, c_CR, c_NUL}" by (auto simp: specialCharacterMask_def)
    with src.pending_Cons [OF assms False]
    have "nextInput k (m_closed s) skip (toStringSS s) = (False, toStringSS s, Some (currentChar s))"
      for k skip by (metis insert_iff nextInput.simps(2))
    with True False assms show ?thesis
      by (auto simp: peek_def Let_def intro!: meets_contract_refl)
  next
    case mask: False
    have "length (toStringSS s) \<le> nat (lengthSS s)"
      using assms lengthSS_toString [of s] by (simp add: source_ok_def)
    from processNextInputCharacter_ok [OF assms False, of ?q, OF _ this] mask False
    show ?thesis by (simp add: peek_def Let_def)
  qed
qed

section \<open>Reading a source to its end\<close>

text \<open>
  \<open>drain\<close> is the loop of a tokenizer that stays in one state: peek, take the character,
  advance. \<open>feedAll\<close> appends segments one after the other and drains the source after each.
\<close>

fun drain ::
  "nat \<Rightarrow> bool \<Rightarrow> bool \<Rightarrow> InputStreamPreprocessor \<Rightarrow> SegmentedString \<Rightarrow>
   (uchar list \<times> InputStreamPreprocessor \<times> SegmentedString) option" where
  "drain 0 nsk sk p s = None"
| "drain (Suc fuel) nsk sk p s =
     (case peek nsk sk p s of
        None \<Rightarrow> None
      | Some (ok, p, s) \<Rightarrow>
          if \<not> ok then Some ([], p, s)
          else case drain fuel nsk sk p (advanceAndUpdateLineNumber s) of
                 None \<Rightarrow> None
               | Some (cs, q, s) \<Rightarrow> Some (m_nextInputCharacter p # cs, q, s))"

fun feedAll ::
  "bool \<Rightarrow> bool \<Rightarrow> wtf_string list \<Rightarrow> InputStreamPreprocessor \<Rightarrow> SegmentedString \<Rightarrow> uchar list option" where
  "feedAll nsk sk [] p s = Some []"
| "feedAll nsk sk (x # xs) p s =
     (let s = appendSS (segmentedStringOf x) s in
      case drain (Suc (nat (lengthSS s))) nsk sk p s of
        None \<Rightarrow> None
      | Some (cs, p, s) \<Rightarrow>
          (case feedAll nsk sk xs p s of None \<Rightarrow> None | Some ds \<Rightarrow> Some (cs @ ds)))"

text \<open>The preprocessing of the HTML standard: CR LF and CR become LF; then the null characters.\<close>

fun normalizeNewlines :: "uchar list \<Rightarrow> uchar list" where
  "normalizeNewlines [] = []"
| "normalizeNewlines (c # cs) =
     (if c = c_CR
      then c_LF # (case cs of [] \<Rightarrow> [] | d # ds \<Rightarrow>
                     if d = c_LF then normalizeNewlines ds else normalizeNewlines (d # ds))
      else c # normalizeNewlines cs)"

definition treatNulls :: "bool \<Rightarrow> uchar list \<Rightarrow> uchar list" where
  "treatNulls keepNull cs =
     (if keepNull then map (\<lambda>c. if c = c_NUL then replacementCharacter else c) cs
      else filter (\<lambda>c. c \<noteq> c_NUL) cs)"

fun deliver :: "bool \<Rightarrow> bool \<Rightarrow> uchar list \<Rightarrow> bool \<times> uchar list" where
  "deliver keepNull skip [] = (skip, [])"
| "deliver keepNull skip (c # cs) =
     (if c = c_LF \<and> skip then deliver keepNull False cs
      else if c = c_CR then map_prod id (Cons c_LF) (deliver keepNull True cs)
      else if c = c_NUL
      then if keepNull then map_prod id (Cons replacementCharacter) (deliver keepNull False cs)
           else deliver keepNull False cs
      else map_prod id (Cons c) (deliver keepNull False cs))"

lemma deliver_nextInput:
  "deliver k skip cs =
     (case nextInput k False skip cs of
        (skip', rest, None) \<Rightarrow> (skip', [])
      | (skip', rest, Some c) \<Rightarrow> map_prod id (Cons c) (deliver k skip' (tl rest)))"
  by (induction k skip cs rule: deliver.induct) auto

lemma nextInput_rest:
  "nextInput k cl skip cs = (skip', rest, x) \<Longrightarrow>
   length rest \<le> length cs \<and> (x \<noteq> None \<longrightarrow> rest \<noteq> []) \<and> (x = None \<longrightarrow> rest = [])"
  by (induction k cl skip cs rule: nextInput.induct) (auto split: if_splits)

lemma deliver_append:
  "deliver k skip (xs @ ys) =
     (case deliver k skip xs of (skip', as) \<Rightarrow> map_prod id ((@) as) (deliver k skip' ys))"
  by (induction k skip xs rule: deliver.induct) (auto simp: map_prod_def split: prod.splits)

lemma deliver_skip:
  "snd (deliver k True cs) =
     snd (deliver k False (case cs of [] \<Rightarrow> [] | d # ds \<Rightarrow> if d = c_LF then ds else cs))"
  by (cases cs) auto

lemma normalizeNewlines_CR:
  "normalizeNewlines (c_CR # cs) =
     c_LF # normalizeNewlines (case cs of [] \<Rightarrow> [] | d # ds \<Rightarrow> if d = c_LF then ds else cs)"
  by (cases cs) (simp_all del: normalizeNewlines.simps(2) add: normalizeNewlines.simps(2) [of c_CR])

lemma deliver_normalizes: "snd (deliver k False cs) = treatNulls k (normalizeNewlines cs)"
proof (induction "length cs" arbitrary: cs rule: less_induct)
  case less
  show ?case
  proof (cases cs)
    case Nil
    then show ?thesis by (simp add: treatNulls_def)
  next
    case (Cons c ds)
    let ?es = "case ds of [] \<Rightarrow> [] | e # es \<Rightarrow> if e = c_LF then es else ds"
    have "length ?es < length cs" using Cons by (auto split: list.splits)
    then have IH: "snd (deliver k False ?es) = treatNulls k (normalizeNewlines ?es)"
      "snd (deliver k False ds) = treatNulls k (normalizeNewlines ds)"
      using less Cons by auto
    show ?thesis
    proof (cases "c = c_CR")
      case True
      then have "snd (deliver k False cs) = c_LF # snd (deliver k False ?es)"
        using Cons deliver_skip [of k ds] by simp
      then show ?thesis
        unfolding IH(1) Cons True normalizeNewlines_CR by (simp add: treatNulls_def)
    next
      case False
      with IH(2) Cons show ?thesis by (auto simp: treatNulls_def)
    qed
  qed
qed

lemma drain_ok:
  assumes "source_ok s" and "\<not> m_closed s" and "length (toStringSS s) < fuel"
  shows "\<exists>cs q t. drain fuel nsk sk p s = Some (cs, q, t) \<and> source_ok t \<and> toStringSS t = []
    \<and> \<not> m_closed t \<and> deliver (nsk \<or> \<not> sk) (m_skipNextNewLine p) (toStringSS s) = (m_skipNextNewLine q, cs)"
  using assms
proof (induction fuel arbitrary: p s)
  case 0
  then show ?case by simp
next
  case (Suc fuel)
  let ?k = "nsk \<or> \<not> sk"
  obtain ok q t where pk: "peek nsk sk p s = Some (ok, q, t)"
    and mc: "meets_contract ?k (m_skipNextNewLine p) s (ok, q, t)"
    using peek_ok [OF Suc.prems(1), of nsk sk p] by (metis prod_cases3)
  obtain skip' rest x where ni: "nextInput ?k False (m_skipNextNewLine p) (toStringSS s) = (skip', rest, x)"
    by (metis prod_cases3)
  note r = nextInput_rest [OF ni]
  from mc ni Suc.prems(2) have c: "source_ok t" "toStringSS t = rest" "m_skipNextNewLine q = skip'"
    "ok = (x \<noteq> None)" "ok \<Longrightarrow> m_nextInputCharacter q = the x" "\<not> m_closed t"
    by (auto simp: meets_contract_def)
  have dl: "deliver ?k (m_skipNextNewLine p) (toStringSS s) =
      (case x of None \<Rightarrow> (skip', []) | Some c \<Rightarrow> map_prod id (Cons c) (deliver ?k skip' (tl rest)))"
    by (subst deliver_nextInput) (simp add: ni)
  show ?case
  proof (cases x)
    case None
    with c r pk dl show ?thesis by simp
  next
    case (Some d)
    with c r have ne: "\<not> isEmpty t" by (simp add: src.atEnd_iff)
    let ?u = "advanceAndUpdateLineNumber t"
    note adv = advancesD [OF source_ok_advances(2) [OF c(1) ne] c(1)]
    have "length (toStringSS ?u) < fuel"
      using adv(2) c(2) r Some Suc.prems(3) by (cases rest) auto
    from Suc.IH [OF adv(1) _ this, of q] adv(5) c(6)
    obtain cs q' t' where IH: "drain fuel nsk sk q ?u = Some (cs, q', t')" "source_ok t'" "toStringSS t' = []"
      "\<not> m_closed t'" "deliver ?k skip' (tl rest) = (m_skipNextNewLine q', cs)"
      using adv(2) c(2,3) by auto
    with pk c Some dl show ?thesis by simp
  qed
qed

lemma feedAll_deliver:
  assumes "source_ok s" and "toStringSS s = []" and "\<not> m_closed s"
  shows "feedAll nsk sk xs p s =
    Some (snd (deliver (nsk \<or> \<not> sk) (m_skipNextNewLine p) (concat (map chars xs))))"
  using assms
proof (induction xs arbitrary: p s)
  case Nil
  then show ?case by simp
next
  case (Cons x xs)
  let ?k = "nsk \<or> \<not> sk" and ?s = "appendSS (segmentedStringOf x) s"
  note seg = segmentedStringOf_ok [of x]
  note app = appendSS_ok [of s "segmentedStringOf x", OF _ seg(3,5) Cons.prems(3)]
  have ok: "source_ok ?s" "toStringSS ?s = chars x" "\<not> m_closed ?s"
    using Cons.prems app seg by (auto simp: source_ok_def)
  have "length (toStringSS ?s) < Suc (nat (lengthSS ?s))"
    using ok(1) lengthSS_toString [of ?s] by (simp add: source_ok_def)
  from drain_ok [OF ok(1,3) this, of nsk sk p] ok(2) obtain cs q t where
    d: "drain (Suc (nat (lengthSS ?s))) nsk sk p ?s = Some (cs, q, t)" "source_ok t" "toStringSS t = []"
      "\<not> m_closed t" "deliver ?k (m_skipNextNewLine p) (chars x) = (m_skipNextNewLine q, cs)"
    by auto
  show ?case
    using Cons.IH [OF d(2-4), of q] d(1,5)
    by (simp add: Let_def deliver_append map_prod_def split: prod.splits)
qed


end
