(* ===== verification/Entity_Search_Refine.thy ===== *)
theory Entity_Search_Refine
  imports Char_Reference
begin

text \<open>
  Correctness of the incremental entity search. \<open>table_ok\<close> is what the search relies on of
  the generated table: the names are strictly sorted and the two index functions
  delimit the names starting with a letter. Under it, the range \<open>m_first .. m_last\<close> is
  always exactly the set of entries whose name starts with the characters read so far,
  and \<open>m_mostRecentMatch\<close> is the entry whose name is the longest match among them.
\<close>

section \<open>The table\<close>

definition nameAt :: "HTMLEntityTable \<Rightarrow> nat \<Rightarrow> uchar list" where
  "nameAt tbl i = entity (entryAt tbl i)"

definition tableSize :: "HTMLEntityTable \<Rightarrow> nat" where
  "tableSize tbl = length (staticEntityTable tbl)"

definition startingWith :: "HTMLEntityTable \<Rightarrow> uchar list \<Rightarrow> nat set" where
  "startingWith tbl w = {i. i < tableSize tbl \<and> prefix w (nameAt tbl i)}"

definition table_ok :: "HTMLEntityTable \<Rightarrow> bool" where
  "table_ok tbl \<longleftrightarrow>
     sorted_wrt (\<lambda>a b. ord_class.lexordp (entity a) (entity b)) (staticEntityTable tbl) \<and>
     (\<forall>e\<in>set (staticEntityTable tbl). entity e \<noteq> [] \<and> entityLength e = length (entity e)) \<and>
     (\<forall>c. case (firstEntryStartingWith tbl c, lastEntryStartingWith tbl c) of
            (Some lo, Some hi) \<Rightarrow> lo \<le> hi \<and> startingWith tbl [c] = {lo..hi}
          | _ \<Rightarrow> startingWith tbl [c] = {})"

lemma table_sorted: "table_ok tbl \<Longrightarrow> i < j \<Longrightarrow> j < tableSize tbl \<Longrightarrow> ord_class.lexordp (nameAt tbl i) (nameAt tbl j)"
  unfolding table_ok_def nameAt_def tableSize_def entryAt_def by (auto simp: sorted_wrt_iff_nth_less)

lemma table_length: "table_ok tbl \<Longrightarrow> i < tableSize tbl \<Longrightarrow> entityLength (entryAt tbl i) = length (nameAt tbl i)"
  unfolding table_ok_def nameAt_def tableSize_def entryAt_def by auto

lemma startingWith_append: "startingWith tbl (w @ v) \<subseteq> startingWith tbl w"
  by (auto simp: startingWith_def dest: append_prefixD)

lemma lexordp_prefix: "ord_class.lexordp (w @ x) (w @ y) \<Longrightarrow> ord_class.lexordp x y" for x y :: "uchar list"
  by (induction w) auto

section \<open>Narrowing the range\<close>

text \<open>Among the entries that start with \<open>w\<close>, comparison with the next character is monotone.\<close>

primrec rank :: "CompareResult \<Rightarrow> nat" where
  "rank Before = 0"
| "rank Prefix = 1"
| "rank After = 2"

lemma rank_simps [simp]:
  "rank x = 0 \<longleftrightarrow> x = Before" "rank x = Suc 0 \<longleftrightarrow> x = Prefix" "rank x = 2 \<longleftrightarrow> x = After" "rank x \<le> 2"
  by (cases x; simp)+

lemma compareEntry_suffix:
  assumes "table_ok tbl" and "i < tableSize tbl" and "nameAt tbl i = w @ x"
  shows "compareEntry tbl (length w) i c =
    (case x of [] \<Rightarrow> Before | d # ds \<Rightarrow> if d = c then Prefix else if d < c then Before else After)"
  using assms table_length [OF assms(1,2)]
  by (auto simp: compareEntry_def Let_def entityCharAt_def nth_append nameAt_def split: list.splits)

lemma compareEntry_Prefix:
  assumes "table_ok tbl" and "i \<in> startingWith tbl w"
  shows "compareEntry tbl (length w) i c = Prefix \<longleftrightarrow> i \<in> startingWith tbl (w @ [c])"
proof -
  obtain x where x: "nameAt tbl i = w @ x" and i: "i < tableSize tbl"
    using assms(2) by (auto simp: startingWith_def prefix_def)
  show ?thesis
    unfolding compareEntry_suffix [OF assms(1) i x] using i x
    by (cases x) (auto simp: startingWith_def)
qed

lemma compareEntry_mono:
  assumes ok: "table_ok tbl" and i: "i \<in> startingWith tbl w" and j: "j \<in> startingWith tbl w" and "i \<le> j"
  shows "rank (compareEntry tbl (length w) i c) \<le> rank (compareEntry tbl (length w) j c)"
proof (cases "i = j")
  case False
  obtain x y where x: "nameAt tbl i = w @ x" "i < tableSize tbl" and y: "nameAt tbl j = w @ y" "j < tableSize tbl"
    using i j by (auto simp: startingWith_def prefix_def)
  have "ord_class.lexordp x y"
    using table_sorted [OF ok, of i j] False assms(4) x y by (simp add: lexordp_prefix)
  then show ?thesis
    unfolding compareEntry_suffix [OF ok x(2,1)] compareEntry_suffix [OF ok y(2,1)]
    by (cases x; cases y) auto
qed simp

text \<open>The two binary searches, over any monotone comparison.\<close>

lemma findFirstLoop_range:
  assumes "left < right" and "compareEntry tbl n left c = Before"
    and mono: "\<And>i j. left \<le> i \<Longrightarrow> i \<le> j \<Longrightarrow> j \<le> right \<Longrightarrow>
      rank (compareEntry tbl n i c) \<le> rank (compareEntry tbl n j c)"
  shows "left < findFirstLoop tbl n c left right \<and> findFirstLoop tbl n c left right \<le> right \<and>
    (\<forall>i. left \<le> i \<and> i < findFirstLoop tbl n c left right \<longrightarrow> compareEntry tbl n i c = Before) \<and>
    (findFirstLoop tbl n c left right < right \<longrightarrow>
       compareEntry tbl n (findFirstLoop tbl n c left right) c \<noteq> Before)"
  using assms
proof (induction tbl n c left right rule: findFirstLoop.induct)
  case (1 tbl n c left right)
  let ?p = "halfway left right" and ?cmp = "\<lambda>i. compareEntry tbl n i c"
  show ?case
  proof (cases "left + 1 < right")
    case False
    with 1(3,4) have "findFirstLoop tbl n c left right = right" "right = Suc left"
      by (auto simp: findFirstLoop.simps [of tbl n c left right])
    with 1(4) show ?thesis by (auto simp: less_Suc_eq_le)
  next
    case True
    then have p: "left < ?p" "?p < right" by (auto simp: halfway_def)
    show ?thesis
    proof (cases "?cmp ?p = Before")
      case b: True
      have eq: "findFirstLoop tbl n c left right = findFirstLoop tbl n c ?p right"
        using True b by (simp add: findFirstLoop.simps [of tbl n c left right] Let_def)
      have low: "?cmp i = Before" if "left \<le> i" "i \<le> ?p" for i
        using 1(5) [of i ?p] that b p by simp
      have IH: "?p < findFirstLoop tbl n c ?p right \<and> findFirstLoop tbl n c ?p right \<le> right \<and>
          (\<forall>i. ?p \<le> i \<and> i < findFirstLoop tbl n c ?p right \<longrightarrow> ?cmp i = Before) \<and>
          (findFirstLoop tbl n c ?p right < right \<longrightarrow> ?cmp (findFirstLoop tbl n c ?p right) \<noteq> Before)"
        by (rule 1(1) [OF True refl b p(2) b]) (use 1(5) p in auto)
      have "?cmp i = Before" if "left \<le> i" "i < findFirstLoop tbl n c ?p right" for i
        using IH low [of i] that by (cases "i \<le> ?p") auto
      with IH p show ?thesis unfolding eq by auto
    next
      case b: False
      have eq: "findFirstLoop tbl n c left right = findFirstLoop tbl n c left ?p"
        using True b by (simp add: findFirstLoop.simps [of tbl n c left right] Let_def)
      have "left < findFirstLoop tbl n c left ?p \<and> findFirstLoop tbl n c left ?p \<le> ?p \<and>
          (\<forall>i. left \<le> i \<and> i < findFirstLoop tbl n c left ?p \<longrightarrow> ?cmp i = Before) \<and>
          (findFirstLoop tbl n c left ?p < ?p \<longrightarrow> ?cmp (findFirstLoop tbl n c left ?p) \<noteq> Before)"
        by (rule 1(2) [OF True refl b p(1) 1(4)]) (use 1(5) p in auto)
      with p b show ?thesis unfolding eq by (auto simp: nat_less_le)
    qed
  qed
qed

lemma findLastLoop_range:
  assumes "left < right" and "compareEntry tbl n right c = After"
    and mono: "\<And>i j. left \<le> i \<Longrightarrow> i \<le> j \<Longrightarrow> j \<le> right \<Longrightarrow>
      rank (compareEntry tbl n i c) \<le> rank (compareEntry tbl n j c)"
  shows "left \<le> findLastLoop tbl n c left right \<and> findLastLoop tbl n c left right < right \<and>
    (\<forall>i. findLastLoop tbl n c left right < i \<and> i \<le> right \<longrightarrow> compareEntry tbl n i c = After) \<and>
    (left < findLastLoop tbl n c left right \<longrightarrow>
       compareEntry tbl n (findLastLoop tbl n c left right) c \<noteq> After)"
  using assms
proof (induction tbl n c left right rule: findLastLoop.induct)
  case (1 tbl n c left right)
  let ?p = "halfway left right" and ?cmp = "\<lambda>i. compareEntry tbl n i c"
  show ?case
  proof (cases "left + 1 < right")
    case False
    with 1(3,4) have "findLastLoop tbl n c left right = left" "right = Suc left"
      by (auto simp: findLastLoop.simps [of tbl n c left right])
    with 1(4) show ?thesis by (auto simp: le_Suc_eq)
  next
    case True
    then have p: "left < ?p" "?p < right" by (auto simp: halfway_def)
    show ?thesis
    proof (cases "?cmp ?p = After")
      case b: True
      have eq: "findLastLoop tbl n c left right = findLastLoop tbl n c left ?p"
        using True b by (simp add: findLastLoop.simps [of tbl n c left right] Let_def)
      have high: "?cmp i = After" if "?p \<le> i" "i \<le> right" for i
        using 1(5) [of ?p i] that b p rank_simps(4) [of "?cmp i"] by (simp del: rank_simps(4))
      have IH: "left \<le> findLastLoop tbl n c left ?p \<and> findLastLoop tbl n c left ?p < ?p \<and>
          (\<forall>i. findLastLoop tbl n c left ?p < i \<and> i \<le> ?p \<longrightarrow> ?cmp i = After) \<and>
          (left < findLastLoop tbl n c left ?p \<longrightarrow> ?cmp (findLastLoop tbl n c left ?p) \<noteq> After)"
        by (rule 1(1) [OF True refl b p(1) b]) (use 1(5) p in auto)
      have "?cmp i = After" if "findLastLoop tbl n c left ?p < i" "i \<le> right" for i
        using IH high [of i] that by (cases "i \<le> ?p") auto
      with IH p show ?thesis unfolding eq by auto
    next
      case b: False
      have eq: "findLastLoop tbl n c left right = findLastLoop tbl n c ?p right"
        using True b by (simp add: findLastLoop.simps [of tbl n c left right] Let_def)
      have "?p \<le> findLastLoop tbl n c ?p right \<and> findLastLoop tbl n c ?p right < right \<and>
          (\<forall>i. findLastLoop tbl n c ?p right < i \<and> i \<le> right \<longrightarrow> ?cmp i = After) \<and>
          (?p < findLastLoop tbl n c ?p right \<longrightarrow> ?cmp (findLastLoop tbl n c ?p right) \<noteq> After)"
        by (rule 1(2) [OF True refl b p(2) 1(4)]) (use 1(5) p in auto)
      with p b show ?thesis unfolding eq by (auto simp: nat_less_le)
    qed
  qed
qed

lemma findFirst_range:
  assumes "left \<le> right"
    and mono: "\<And>i j. left \<le> i \<Longrightarrow> i \<le> j \<Longrightarrow> j \<le> right \<Longrightarrow>
      rank (compareEntry tbl n i c) \<le> rank (compareEntry tbl n j c)"
  shows "left \<le> findFirst tbl n c left right" "findFirst tbl n c left right \<le> right"
    and "left \<le> i \<Longrightarrow> i < findFirst tbl n c left right \<Longrightarrow> compareEntry tbl n i c \<noteq> Prefix"
    and "findFirst tbl n c left right < right \<Longrightarrow>
      compareEntry tbl n (findFirst tbl n c left right) c \<noteq> Before"
proof -
  have "left \<le> findFirst tbl n c left right \<and> findFirst tbl n c left right \<le> right \<and>
    (\<forall>i. left \<le> i \<and> i < findFirst tbl n c left right \<longrightarrow> compareEntry tbl n i c \<noteq> Prefix) \<and>
    (findFirst tbl n c left right < right \<longrightarrow>
      compareEntry tbl n (findFirst tbl n c left right) c \<noteq> Before)"
  proof (cases "compareEntry tbl n left c")
    case Before
    show ?thesis
    proof (cases "left = right")
      case False
      then have "left < right" using assms(1) by simp
      from findFirstLoop_range [OF this Before mono] Before False show ?thesis
        by (auto simp: findFirst_def)
    qed (auto simp: findFirst_def)
  next
    case Prefix
    then show ?thesis using assms(1) by (auto simp: findFirst_def)
  next
    case After
    have "compareEntry tbl n i c \<noteq> Prefix" if "left \<le> i" "i < right" for i
      using mono [of left i] that After by auto
    then show ?thesis using After assms(1) by (auto simp: findFirst_def)
  qed
  then show "left \<le> findFirst tbl n c left right" "findFirst tbl n c left right \<le> right"
    "left \<le> i \<Longrightarrow> i < findFirst tbl n c left right \<Longrightarrow> compareEntry tbl n i c \<noteq> Prefix"
    "findFirst tbl n c left right < right \<Longrightarrow>
      compareEntry tbl n (findFirst tbl n c left right) c \<noteq> Before"
    by blast+
qed

lemma findLast_range:
  assumes "left \<le> right"
    and mono: "\<And>i j. left \<le> i \<Longrightarrow> i \<le> j \<Longrightarrow> j \<le> right \<Longrightarrow>
      rank (compareEntry tbl n i c) \<le> rank (compareEntry tbl n j c)"
  shows "left \<le> findLast tbl n c left right" "findLast tbl n c left right \<le> right"
    and "findLast tbl n c left right < i \<Longrightarrow> i \<le> right \<Longrightarrow> compareEntry tbl n i c \<noteq> Prefix"
    and "left < findLast tbl n c left right \<Longrightarrow>
      compareEntry tbl n (findLast tbl n c left right) c \<noteq> After"
proof -
  have "left \<le> findLast tbl n c left right \<and> findLast tbl n c left right \<le> right \<and>
    (\<forall>i. findLast tbl n c left right < i \<and> i \<le> right \<longrightarrow> compareEntry tbl n i c \<noteq> Prefix) \<and>
    (left < findLast tbl n c left right \<longrightarrow>
      compareEntry tbl n (findLast tbl n c left right) c \<noteq> After)"
  proof (cases "compareEntry tbl n right c")
    case After
    show ?thesis
    proof (cases "left = right")
      case False
      then have "left < right" using assms(1) by simp
      from findLastLoop_range [OF this After mono] After False show ?thesis
        by (auto simp: findLast_def)
    qed (auto simp: findLast_def)
  next
    case Prefix
    then show ?thesis using assms(1) by (auto simp: findLast_def)
  next
    case Before
    have "compareEntry tbl n i c \<noteq> Prefix" if "left < i" "i \<le> right" for i
      using mono [of i right] that Before by auto
    then show ?thesis using Before assms(1) by (auto simp: findLast_def)
  qed
  then show "left \<le> findLast tbl n c left right" "findLast tbl n c left right \<le> right"
    "findLast tbl n c left right < i \<Longrightarrow> i \<le> right \<Longrightarrow> compareEntry tbl n i c \<noteq> Prefix"
    "left < findLast tbl n c left right \<Longrightarrow>
      compareEntry tbl n (findLast tbl n c left right) c \<noteq> After"
    by blast+
qed

text \<open>The range computed by \<^verbatim>\<open>advance\<close> is the set of entries that start with one more character.\<close>

lemma narrowed_range:
  assumes ok: "table_ok tbl" and "left \<le> right" and w: "startingWith tbl w = {left..right}"
    and lo_def: "lo = findFirst tbl (length w) c left right"
    and hi_def: "hi = findLast tbl (length w) c lo right"
  shows "lo = hi \<and> compareEntry tbl (length w) lo c \<noteq> Prefix \<Longrightarrow> startingWith tbl (w @ [c]) = {}"
    and "\<not> (lo = hi \<and> compareEntry tbl (length w) lo c \<noteq> Prefix) \<Longrightarrow>
      lo \<le> hi \<and> startingWith tbl (w @ [c]) = {lo..hi}"
proof -
  let ?cmp = "\<lambda>i. compareEntry tbl (length w) i c"
  have mono: "rank (?cmp i) \<le> rank (?cmp j)" if "left \<le> i" "i \<le> j" "j \<le> right" for i j
    using compareEntry_mono [OF ok, of i w j c] that w by auto
  note F = findFirst_range [OF assms(2) mono, folded lo_def]
  have mono': "rank (?cmp i) \<le> rank (?cmp j)" if "lo \<le> i" "i \<le> j" "j \<le> right" for i j
    using mono [of i j] F(1) that by simp
  note L = findLast_range [OF F(2) mono', folded hi_def]
  have sub: "startingWith tbl (w @ [c]) = {i \<in> {left..right}. ?cmp i = Prefix}"
    using startingWith_append [of tbl w "[c]"] compareEntry_Prefix [OF ok, of _ w c] w by blast
  have inside: "i \<in> {lo..hi}" if "i \<in> {left..right}" "?cmp i = Prefix" for i
    using F(3) [of i] L(3) [of i] that by fastforce
  show "startingWith tbl (w @ [c]) = {}" if "lo = hi \<and> ?cmp lo \<noteq> Prefix"
    using inside that unfolding sub by fastforce
  show "lo \<le> hi \<and> startingWith tbl (w @ [c]) = {lo..hi}" if neg: "\<not> (lo = hi \<and> ?cmp lo \<noteq> Prefix)"
  proof -
    have pre: "?cmp i = Prefix" if "i \<in> {lo..hi}" for i
    proof (cases "lo = hi")
      case True
      with neg that show ?thesis by simp
    next
      case False
      then have "?cmp lo \<noteq> Before" "?cmp hi \<noteq> After" using F(4) L(1,2,4) by auto
      moreover have "rank (?cmp lo) \<le> rank (?cmp i)" "rank (?cmp i) \<le> rank (?cmp hi)"
        using mono' that L(2) by auto
      ultimately show ?thesis by (cases "?cmp lo"; cases "?cmp i"; cases "?cmp hi") auto
    qed
    have "{lo..hi} \<subseteq> {left..right}" using F(1) L(2) by (simp only: atLeastatMost_subset_iff) simp
    then have "startingWith tbl (w @ [c]) = {lo..hi}" unfolding sub using inside pre by blast
    with L(1) show ?thesis by blast
  qed
qed

section \<open>The state of the search\<close>

definition longestMatch :: "HTMLEntityTable \<Rightarrow> uchar list \<Rightarrow> nat option \<Rightarrow> bool" where
  "longestMatch tbl w m \<longleftrightarrow>
     (case m of
        None \<Rightarrow> \<forall>j < tableSize tbl. \<not> prefix (nameAt tbl j) w
      | Some i \<Rightarrow> i < tableSize tbl \<and> prefix (nameAt tbl i) w \<and>
          (\<forall>j < tableSize tbl. prefix (nameAt tbl j) w \<longrightarrow> length (nameAt tbl j) \<le> length (nameAt tbl i)))"

definition search_at :: "HTMLEntityTable \<Rightarrow> uchar list \<Rightarrow> HTMLEntitySearch \<Rightarrow> bool" where
  "search_at tbl w es \<longleftrightarrow>
     m_currentLength es = length w \<and> longestMatch tbl w (m_mostRecentMatch es) \<and> isEntityPrefix es \<and>
     (w \<noteq> [] \<longrightarrow> (\<exists>lo hi. m_first es = Some lo \<and> m_last es = Some hi \<and> lo \<le> hi \<and>
        startingWith tbl w = {lo..hi}))"

lemma lexordp_not_prefix: "ord_class.lexordp x y \<Longrightarrow> \<not> prefix y x" for x y :: "uchar list"
proof (induction x arbitrary: y)
  case (Cons a x)
  then show ?case by (cases y) auto
qed (auto simp: prefix_def)

lemma search_at_new: "table_ok tbl \<Longrightarrow> search_at tbl [] (newEntitySearch tbl)"
  by (auto simp: search_at_def newEntitySearch_def isEntityPrefix_def longestMatch_def table_ok_def
      nameAt_def entryAt_def tableSize_def)

lemma noteMatch_at:
  assumes ok: "table_ok tbl" and "lo \<le> hi" and r: "startingWith tbl (w @ [c]) = {lo..hi}"
    and len: "m_currentLength es = length w" and lm: "longestMatch tbl w (m_mostRecentMatch es)"
  shows "search_at tbl (w @ [c]) (noteMatch tbl lo (es\<lparr>m_first := Some lo, m_last := Some hi\<rparr>))"
proof -
  have lo: "lo < tableSize tbl" "prefix (w @ [c]) (nameAt tbl lo)"
    using r assms(2) by (auto simp: startingWith_def set_eq_iff)
  have exact: "entityLength (entryAt tbl lo) = Suc (length w) \<longleftrightarrow> nameAt tbl lo = w @ [c]"
    using lo table_length [OF ok lo(1)] by (auto simp: prefix_def)
  have only: "j = lo" if "j < tableSize tbl" "nameAt tbl j = w @ [c]" for j
  proof (rule ccontr)
    assume "j \<noteq> lo"
    moreover have "j \<in> {lo..hi}" using that unfolding r [symmetric] by (simp add: startingWith_def)
    ultimately have "ord_class.lexordp (nameAt tbl lo) (nameAt tbl j)"
      using table_sorted [OF ok, of lo j] that(1) by simp
    then show False using lexordp_not_prefix lo(2) that(2) by auto
  qed
  have "longestMatch tbl (w @ [c])
      (if nameAt tbl lo = w @ [c] then Some lo else m_mostRecentMatch es)"
  proof (cases "nameAt tbl lo = w @ [c]")
    case True
    with lo(1) show ?thesis
      by (auto simp: longestMatch_def dest: prefix_length_le)
  next
    case False
    then have "prefix (nameAt tbl j) (w @ [c]) \<longleftrightarrow> prefix (nameAt tbl j) w" if "j < tableSize tbl" for j
      using only [OF that] by (auto simp: prefix_snoc)
    with False lm show ?thesis by (auto simp: longestMatch_def split: option.splits)
  qed
  with exact len assms(2) r show ?thesis
    by (auto simp: search_at_def noteMatch_def Let_def isEntityPrefix_def)
qed

text \<open>One step of the search: it fails exactly when no name starts with the characters read.\<close>

lemma advanceSearch_step:
  assumes ok: "table_ok tbl" and at: "search_at tbl w es"
  shows "startingWith tbl (w @ [c]) = {} \<Longrightarrow> advanceSearch tbl c es = failSearch es"
    and "startingWith tbl (w @ [c]) \<noteq> {} \<Longrightarrow> search_at tbl (w @ [c]) (advanceSearch tbl c es)"
proof -
  have len: "m_currentLength es = length w" and lm: "longestMatch tbl w (m_mostRecentMatch es)"
    using at by (auto simp: search_at_def)
  have "(startingWith tbl (w @ [c]) = {} \<longrightarrow> advanceSearch tbl c es = failSearch es) \<and>
    (startingWith tbl (w @ [c]) \<noteq> {} \<longrightarrow> search_at tbl (w @ [c]) (advanceSearch tbl c es))"
  proof (cases "w = []")
    case True
    have ix: "case (firstEntryStartingWith tbl c, lastEntryStartingWith tbl c) of
        (Some lo, Some hi) \<Rightarrow> lo \<le> hi \<and> startingWith tbl [c] = {lo..hi}
      | _ \<Rightarrow> startingWith tbl [c] = {}"
      using ok by (simp add: table_ok_def)
    show ?thesis
    proof (cases "\<exists>lo hi. firstEntryStartingWith tbl c = Some lo \<and> lastEntryStartingWith tbl c = Some hi")
      case True
      then obtain lo hi where lh: "firstEntryStartingWith tbl c = Some lo" "lastEntryStartingWith tbl c = Some hi"
        by blast
      with ix have "lo \<le> hi" "startingWith tbl (w @ [c]) = {lo..hi}" using \<open>w = []\<close> by auto
      with noteMatch_at [OF ok this len lm] lh len \<open>w = []\<close> show ?thesis
        by (simp add: advanceSearch_def)
    next
      case False
      with ix have "startingWith tbl (w @ [c]) = {}"
        using \<open>w = []\<close> by (auto split: option.splits)
      with False len \<open>w = []\<close> show ?thesis by (auto simp: advanceSearch_def split: option.splits)
    qed
  next
    case False
    then obtain left right where lr: "m_first es = Some left" "m_last es = Some right" "left \<le> right"
      "startingWith tbl w = {left..right}" using at by (auto simp: search_at_def)
    define lo where "lo = findFirst tbl (length w) c left right"
    define hi where "hi = findLast tbl (length w) c lo right"
    note nr = narrowed_range [OF ok lr(3,4) lo_def hi_def]
    have eq: "advanceSearch tbl c es =
        (if lo = hi \<and> compareEntry tbl (length w) lo c \<noteq> Prefix then failSearch es
         else noteMatch tbl lo (es\<lparr>m_first := Some lo, m_last := Some hi\<rparr>))"
      using False len lr by (simp add: advanceSearch_def lo_def hi_def Let_def)
    show ?thesis
    proof (cases "lo = hi \<and> compareEntry tbl (length w) lo c \<noteq> Prefix")
      case True
      have "advanceSearch tbl c es = failSearch es" unfolding eq by (rule if_P [OF True])
      with nr(1) [OF True] show ?thesis by simp
    next
      case neg: False
      then have "lo \<le> hi" "startingWith tbl (w @ [c]) = {lo..hi}"
        using nr(2) by auto
      with noteMatch_at [OF ok this len lm] eq neg show ?thesis by simp
    qed
  qed
  then show "startingWith tbl (w @ [c]) = {} \<Longrightarrow> advanceSearch tbl c es = failSearch es"
    "startingWith tbl (w @ [c]) \<noteq> {} \<Longrightarrow> search_at tbl (w @ [c]) (advanceSearch tbl c es)"
    by blast+
qed

section \<open>Searching for a whole name\<close>

lemma searchName_found:
  assumes ok: "table_ok tbl" and "search_at tbl w es" and "startingWith tbl (w @ cs) \<noteq> {}"
  shows "\<exists>es'. searchName tbl cs es = Some es' \<and> search_at tbl (w @ cs) es'"
  using assms(2,3)
proof (induction cs arbitrary: w es)
  case (Cons c cs)
  have "startingWith tbl (w @ [c]) \<noteq> {}"
    using startingWith_append [of tbl "w @ [c]" cs] Cons.prems(2) by auto
  from advanceSearch_step(2) [OF ok Cons.prems(1) this]
  have "search_at tbl (w @ [c]) (advanceSearch tbl c es)" .
  with Cons.IH [OF this] Cons.prems(2) show ?case by (simp add: search_at_def Let_def)
qed simp

lemma searchName_none:
  assumes ok: "table_ok tbl" and "search_at tbl w es" and "cs \<noteq> []" and "startingWith tbl (w @ cs) = {}"
  shows "searchName tbl cs es = None"
  using assms(2-)
proof (induction cs arbitrary: w es)
  case (Cons c cs)
  show ?case
  proof (cases "startingWith tbl (w @ [c]) = {}")
    case True
    with advanceSearch_step(1) [OF ok Cons.prems(1)] show ?thesis
      by (simp add: failSearch_def isEntityPrefix_def)
  next
    case False
    note at = advanceSearch_step(2) [OF ok Cons.prems(1) False]
    with False Cons.prems(3) have "cs \<noteq> []" by auto
    with Cons.IH [OF at] Cons.prems(3) show ?thesis by (simp add: Let_def)
  qed
qed simp

definition semicolonsFinal :: "HTMLEntityTable \<Rightarrow> bool" where
  "semicolonsFinal tbl \<longleftrightarrow> (\<forall>e\<in>set (staticEntityTable tbl). c_semi \<notin> set (butlast (entity e)))"

lemma entryAt_find:
  assumes ok: "table_ok tbl" and "i < tableSize tbl" and "nameAt tbl i = w"
  shows "find (\<lambda>e. entity e = w) (staticEntityTable tbl) = Some (entryAt tbl i)"
proof -
  have "nameAt tbl j \<noteq> w" if "j < i" for j
    using lexordp_not_prefix [OF table_sorted [OF ok that assms(2)]] assms(3) by auto
  with assms(2,3) show ?thesis
    by (auto simp: find_Some_iff nameAt_def entryAt_def tableSize_def)
qed

text \<open>
  C8: looking an entity up by its full name with the incremental binary search gives
  exactly what a linear scan of the table for that name followed by a semicolon gives: its
  code points when the table has the name, nothing otherwise; the unchecked pointer
  the lookup dereferences is never null. The table is sorted and indexed by first letter
  (\<open>table_ok\<close>) and its names contain a semicolon only at their end.
\<close>

theorem decodeNamedEntity_linear_scan:
  assumes ok: "table_ok tbl" and semi: "semicolonsFinal tbl"
  shows "decodeNamedEntityToUCharArray tbl name =
    Some (case find (\<lambda>e. entity e = name @ [c_semi]) (staticEntityTable tbl) of
            None \<Rightarrow> [] | Some e \<Rightarrow> decodeEntity e)"
proof (cases "startingWith tbl (name @ [c_semi]) = {}")
  case True
  then have "find (\<lambda>e. entity e = name @ [c_semi]) (staticEntityTable tbl) = None"
    by (auto simp: find_None_iff startingWith_def nameAt_def entryAt_def tableSize_def in_set_conv_nth)
  with True searchName_none [OF ok search_at_new [OF ok], of "name @ [c_semi]"] show ?thesis
    by (simp add: decodeNamedEntityToUCharArray_def)
next
  case False
  then obtain es where es: "searchName tbl (name @ [c_semi]) (newEntitySearch tbl) = Some es"
    "search_at tbl (name @ [c_semi]) es"
    using searchName_found [OF ok search_at_new [OF ok], of "name @ [c_semi]"] by auto
  obtain j x where j: "j < tableSize tbl" "nameAt tbl j = (name @ [c_semi]) @ x"
    using False by (auto simp: startingWith_def prefix_def)
  moreover have "c_semi \<notin> set (butlast (nameAt tbl j))"
    using semi j(1) by (auto simp: semicolonsFinal_def nameAt_def entryAt_def tableSize_def)
  ultimately have "nameAt tbl j = name @ [c_semi]"
    by (cases x) (auto simp: butlast_append split: if_splits)
  with j(1) es(2) obtain i where i: "m_mostRecentMatch es = Some i" "i < tableSize tbl"
      "prefix (nameAt tbl i) (name @ [c_semi])" "length (name @ [c_semi]) \<le> length (nameAt tbl i)"
    by (auto simp: search_at_def longestMatch_def split: option.splits)
  then have "nameAt tbl i = name @ [c_semi]"
    by (metis linorder_not_less prefix_length_less strict_prefixI)
  from entryAt_find [OF ok i(2) this] i(1) es(1) show ?thesis
    by (simp add: decodeNamedEntityToUCharArray_def)
qed

definition exampleTable :: HTMLEntityTable where
  "exampleTable =
     \<lparr>staticEntityTable =
        [\<lparr>entity = ascii ''amp'', entityLength = 3, firstValue = 38, secondValue = 0\<rparr>,
         \<lparr>entity = ascii ''amp;'', entityLength = 4, firstValue = 38, secondValue = 0\<rparr>,
         \<lparr>entity = ascii ''lt;'', entityLength = 3, firstValue = 60, secondValue = 0\<rparr>],
      firstEntryStartingWith = (\<lambda>c. if c = 0x61 then Some 0 else if c = 0x6C then Some 2 else None),
      lastEntryStartingWith = (\<lambda>c. if c = 0x61 then Some 1 else if c = 0x6C then Some 2 else None)\<rparr>"

lemma exampleTable_startingWith:
  "startingWith exampleTable [c] = (if c = 0x61 then {0..1} else if c = 0x6C then {2..2} else {})"
proof -
  have "i < tableSize exampleTable \<longleftrightarrow> i = 0 \<or> i = 1 \<or> i = 2" for i
    by (auto simp: tableSize_def exampleTable_def)
  moreover have "nameAt exampleTable 0 = ascii ''amp''" "nameAt exampleTable 1 = ascii ''amp;''"
    "nameAt exampleTable 2 = ascii ''lt;''"
    by (simp_all add: nameAt_def entryAt_def exampleTable_def)
  moreover have "prefix [c] (ascii ''amp'') \<longleftrightarrow> c = 0x61" "prefix [c] (ascii ''amp;'') \<longleftrightarrow> c = 0x61"
    "prefix [c] (ascii ''lt;'') \<longleftrightarrow> c = 0x6C"
    by (simp_all add: ascii_def)
  ultimately have "i < tableSize exampleTable \<and> prefix [c] (nameAt exampleTable i) \<longleftrightarrow>
      c = 0x61 \<and> (i = 0 \<or> i = 1) \<or> c = 0x6C \<and> i = 2" for i
    by metis
  then have "startingWith exampleTable [c] = {i. c = 0x61 \<and> (i = 0 \<or> i = 1) \<or> c = 0x6C \<and> i = 2}"
    unfolding startingWith_def by presburger
  moreover have "{0..1} = {i :: nat. i = 0 \<or> i = 1}" "{2..2} = {i :: nat. i = 2}" by auto
  ultimately show ?thesis by (simp del: atLeastAtMost_iff)
qed

lemma exampleTable_ok: "table_ok exampleTable"
proof -
  have "case (firstEntryStartingWith exampleTable c, lastEntryStartingWith exampleTable c) of
      (Some lo, Some hi) \<Rightarrow> lo \<le> hi \<and> startingWith exampleTable [c] = {lo..hi}
    | _ \<Rightarrow> startingWith exampleTable [c] = {}" for c
    unfolding exampleTable_startingWith
    by (cases "c = 0x61"; cases "c = 0x6C") (simp_all add: exampleTable_def)
  moreover have "sorted_wrt (\<lambda>a b. ord_class.lexordp (entity a) (entity b)) (staticEntityTable exampleTable)"
    "\<forall>e\<in>set (staticEntityTable exampleTable). entity e \<noteq> [] \<and> entityLength e = length (entity e)"
    by (simp_all add: exampleTable_def ascii_def)
  ultimately show ?thesis unfolding table_ok_def by blast
qed

theorem decodeNamedEntity_linear_scan_witness:
  "decodeNamedEntityToUCharArray exampleTable (ascii ''lt'') = Some [60]
   \<and> decodeNamedEntityToUCharArray exampleTable (ascii ''gt'') = Some []"
proof -
  have semi: "semicolonsFinal exampleTable"
    by (simp add: semicolonsFinal_def exampleTable_def ascii_def)
  show ?thesis
    using decodeNamedEntity_linear_scan [OF exampleTable_ok semi, of "ascii ''lt''"]
      decodeNamedEntity_linear_scan [OF exampleTable_ok semi, of "ascii ''gt''"]
    by (simp add: exampleTable_def ascii_def decodeEntity_def append32_def)
qed

end
