(* ===== verification/Char_Reference_Refine.thy ===== *)
theory Char_Reference_Refine
  imports Entity_Search_Refine Segmented_String_Refine
begin

text \<open>
  Correctness of the character-reference parser on the parser's sources. Every call returns;
  a call that fails or wants more input leaves the pending characters and the position as it
  found them; a numeric reference yields the code point the HTML standard assigns to the
  number, for any number of digits; a named reference is the longest name of the table
  that the input starts with.
\<close>

section \<open>Code points\<close>

text \<open>The code point of a numeric reference, over unbounded numbers.\<close>

definition codePointOf :: "nat \<Rightarrow> uchar32" where
  "codePointOf n =
     (if n = 0 \<or> 0x10FFFF < n \<or> 0xD800 \<le> n \<and> n \<le> 0xDFFF then 0xFFFD
      else if 0x80 \<le> n \<and> n \<le> 0x9F then windowsLatin1ExtensionArray ! (n - 0x80)
      else of_nat n)"

lemma isC1_iff: "c AND NOT 0x1F = 0x80 \<longleftrightarrow> 0x80 \<le> unat c \<and> unat c \<le> 0x9F" for c :: uchar32
proof -
  have "c AND NOT 0x1F = 0x80 \<longleftrightarrow> c AND NOT (mask 5) = of_nat 0x80"
    by (simp add: mask_eq_exp_minus_1)
  also have "\<dots> \<longleftrightarrow> 2 ^ 5 * (unat c div 2 ^ 5) = 0x80"
    by (rule and_not_mask_eq) simp
  also have "\<dots> \<longleftrightarrow> unat c div 32 = 4" by simp
  also have "\<dots> \<longleftrightarrow> 0x80 \<le> unat c \<and> unat c \<le> 0x9F" by auto
  finally show ?thesis .
qed

lemma sless_small:
  fixes c :: uchar32
  assumes "unat c < 2 ^ 31"
  shows "c \<le>s 0 \<longleftrightarrow> c = 0" "0x10FFFF <s c \<longleftrightarrow> 0x10FFFF < unat c"
proof -
  have "int (unat c) < int (2 ^ 31)" using assms by (simp only: of_nat_less_iff)
  then have "uint c < 2 ^ 31" by simp
  then have "signed_take_bit 31 (uint c) = uint c"
    using uint_ge_0 [of c] by (intro signed_take_bit_int_eq_self) linarith+
  then have "sint c = int (unat c)" by (simp add: sint_uint)
  moreover have "sint (0x10FFFF :: uchar32) = 0x10FFFF"
    by (simp add: sint_uint signed_take_bit_int_eq_self)
  ultimately show "c \<le>s 0 \<longleftrightarrow> c = 0" "0x10FFFF <s c \<longleftrightarrow> 0x10FFFF < unat c"
    unfolding word_sle_eq word_sless_alt sint_0 using unat_eq_zero [of c] by linarith+
qed

lemma legalEntityFor_nat:
  assumes "n < 2 ^ 31"
  shows "legalEntityFor (of_nat n) = codePointOf n"
proof -
  have u: "unat (of_nat n :: uchar32) = n"
    using assms by (simp add: unat_of_nat take_bit_eq_mod)
  have z: "(of_nat n :: uchar32) = 0 \<longleftrightarrow> n = 0" using u by (metis unat_0 unat_eq_zero)
  have m: "unat (of_nat n - 0x80 :: uchar32) = n - 0x80" if "0x80 \<le> n"
    using that u by (simp add: unat_sub word_le_nat_alt)
  show ?thesis
    using assms m unfolding legalEntityFor_def codePointOf_def isSurrogate_iff isC1_iff
    by (simp add: sless_small u z)
qed

lemma codePointOf_range: "codePointOf n \<noteq> 0" "unat (codePointOf n) \<le> 0x10FFFF"
proof -
  have tbl: "\<forall>c\<in>set windowsLatin1ExtensionArray. c \<noteq> 0 \<and> unat c \<le> 0x10FFFF"
    "length windowsLatin1ExtensionArray = 32"
    by (simp_all add: windowsLatin1ExtensionArray_def)
  have "codePointOf n \<noteq> 0 \<and> unat (codePointOf n) \<le> 0x10FFFF"
  proof (cases "n = 0 \<or> 0x10FFFF < n \<or> 0xD800 \<le> n \<and> n \<le> 0xDFFF")
    case True
    then show ?thesis by (simp add: codePointOf_def)
  next
    case big: False
    show ?thesis
    proof (cases "0x80 \<le> n \<and> n \<le> 0x9F")
      case True
      then have "codePointOf n \<in> set windowsLatin1ExtensionArray"
        using big tbl(2) by (auto simp: codePointOf_def intro!: nth_mem)
      with tbl(1) show ?thesis by blast
    next
      case False
      with big have "codePointOf n = of_nat n" by (simp only: codePointOf_def if_False)
      moreover have "unat (of_nat n :: uchar32) = n"
        using big by (simp add: unat_of_nat take_bit_eq_mod)
      ultimately show ?thesis using big by (metis unat_0 linorder_not_less)
    qed
  qed
  then show "codePointOf n \<noteq> 0" "unat (codePointOf n) \<le> 0x10FFFF" by simp_all
qed

lemma unat_ucast16: "unat (ucast c :: uchar) = unat c mod 65536" for c :: uchar32
  by (simp add: unsigned_ucast_eq take_bit_eq_mod)

lemma append32_nonzero:
  assumes "c \<noteq> 0" and "unat c \<le> 0x10FFFF"
  shows "0 \<notin> set (append32 c)"
proof (cases "c \<le> 0xFFFF")
  case True
  then have "unat (ucast c :: uchar) = unat c" by (simp add: unat_ucast16 word_le_nat_alt)
  with assms(1) have "ucast c \<noteq> (0 :: uchar)" by (metis unat_0 unat_eq_zero)
  with True show ?thesis by (simp add: append32_def)
next
  case False
  have "unat (drop_bit 10 c) = drop_bit 10 (unat c)" by (rule unat_drop_bit_eq)
  also have "\<dots> = unat c div 1024" by (simp add: drop_bit_eq_div)
  finally have "unat (drop_bit 10 c + 0xD7C0) = unat c div 1024 + 0xD7C0"
    using assms(2) unfolding unat_word_ariths(1) by simp
  moreover have "0x40 \<le> unat c div 1024" "unat c div 1024 \<le> 0x43F"
    using False assms(2) by (auto simp: word_le_nat_alt)
  ultimately have "unat (U16_LEAD c) = unat c div 1024 + 0xD7C0"
    by (simp add: U16_LEAD_def unat_ucast16)
  then have "U16_LEAD c \<noteq> 0" by (metis add_is_0 unat_0 zero_neq_numeral)
  moreover have "bit (U16_TRAIL c) 15" by (simp add: U16_TRAIL_def bit_simps)
  then have "U16_TRAIL c \<noteq> 0" by (metis bit_0_eq bot_apply bot_bool_def)
  ultimately show ?thesis using False by (simp add: append32_def)
qed

section \<open>Numeric references\<close>

text \<open>
  The accumulator and the sticky overflow flag stand for an unbounded number: the flag is
  set once the number exceeds U+10FFFF, and until then the accumulator is the number.
\<close>

definition accumulates :: "nat \<Rightarrow> uchar32 \<Rightarrow> bool \<Rightarrow> bool" where
  "accumulates v result overflow \<longleftrightarrow>
     overflow = (0x10FFFF < v) \<and> (\<not> overflow \<longrightarrow> result = of_nat v)"

lemma numericResult_value:
  "accumulates v result overflow \<Longrightarrow> numericResult result overflow = append32 (codePointOf v)"
  using legalEntityFor_nat [of v] legalEntityFor_nat [of 0]
  by (auto simp: accumulates_def numericResult_def codePointOf_def)

lemma accumulates_digit:
  assumes "accumulates v result overflow" and "d < base" and "base \<le> 16" and "0 < base"
  shows "accumulates (base * v + d) (result * of_nat base + of_nat d)
    (overflow \<or> 0x10FFFF <s result * of_nat base + of_nat d)"
proof (cases overflow)
  case True
  then have "0x10FFFF < v" using assms(1) by (simp add: accumulates_def)
  moreover have "v \<le> base * v" using assms(4) by simp
  ultimately show ?thesis using True unfolding accumulates_def by linarith
next
  case False
  then have v: "v \<le> 0x10FFFF" "result = of_nat v" using assms(1) by (auto simp: accumulates_def)
  then have r: "result * of_nat base + of_nat d = of_nat (base * v + d)" by simp
  have "base * v \<le> 16 * 0x10FFFF" using v(1) assms(3) by (intro mult_mono) auto
  then have "base * v + d < 2 ^ 31" using assms(2,3) by simp
  then have "unat (of_nat (base * v + d) :: uchar32) = base * v + d"
    by (simp only: unat_of_nat take_bit_eq_mod) simp
  with \<open>base * v + d < 2 ^ 31\<close> False show ?thesis
    unfolding accumulates_def r by (simp add: sless_small del: of_nat_add of_nat_mult)
qed

primrec digitsValue :: "nat \<Rightarrow> (uchar \<Rightarrow> nat) \<Rightarrow> uchar list \<Rightarrow> nat \<Rightarrow> nat" where
  "digitsValue base val [] v = v"
| "digitsValue base val (d # ds) v = digitsValue base val ds (base * v + val d)"

text \<open>The loop over the digits, for either base.\<close>

lemma crLoop_digits:
  assumes step: "\<And>ch result overflow consumed source.
      crStep tbl additional st ch result overflow consumed source =
        (if isDigit ch
         then CrBreak st (result * of_nat base + of_nat (val ch))
                (overflow \<or> 0x10FFFF <s result * of_nat base + of_nat (val ch))
         else endOfNumber ch result overflow consumed source)"
    and val: "\<And>ch. isDigit ch \<Longrightarrow> val ch < base" and base: "base \<le> 16" "0 < base"
    and "source_ok s" and "toStringSS s = ds @ c # rest" and "\<forall>d\<in>set ds. isDigit d" and "\<not> isDigit c"
    and "length ds < fuel" and "accumulates v result overflow"
  shows "\<exists>t. crLoop fuel tbl additional st result overflow consumed s =
      Some (consumedAs (append32 (codePointOf (digitsValue base val ds v))) t)
    \<and> moves (length ds + (if c = c_semi then 1 else 0)) s t"
  using assms(5-)
proof (induction ds arbitrary: fuel result overflow consumed s v)
  case Nil
  have ne: "\<not> isEmpty s" and cur: "currentChar s = c"
    using Nil.prems(1,2) by (simp_all add: src.atEnd_iff src.current_hd)
  from Nil.prems(5) obtain k where "fuel = Suc k" by (cases fuel) auto
  with ne cur Nil.prems(1,4,6) moves_advance [OF Nil.prems(1) ne] show ?case
    by (simp add: step endOfNumber_def acceptMalformed_def numericResult_value)
next
  case (Cons d ds)
  have ne: "\<not> isEmpty s" and cur: "currentChar s = d"
    using Cons.prems(1,2) by (simp_all add: src.atEnd_iff src.current_hd)
  from Cons.prems(5) obtain k where k: "fuel = Suc k" "length ds < k" by (cases fuel) auto
  have d: "isDigit d" using Cons.prems(3) by simp
  have "toStringSS (advance s) = ds @ c # rest"
    using src.pending_forward [OF Cons.prems(1) ne] Cons.prems(2) by simp
  from Cons.IH [OF src.inv_forward [OF Cons.prems(1) ne] this _ Cons.prems(4) k(2)
      accumulates_digit [OF Cons.prems(6) val [OF d] base]] Cons.prems(3)
  obtain t where t: "crLoop k tbl additional st (result * of_nat base + of_nat (val d))
      (overflow \<or> 0x10FFFF <s result * of_nat base + of_nat (val d)) (consumed @ [d]) (advance s)
        = Some (consumedAs (append32 (codePointOf (digitsValue base val ds (base * v + val d)))) t)"
    "moves (length ds + (if c = c_semi then 1 else 0)) (advance s) t" by auto
  then show ?case
    using ne cur k(1) d moves_trans [OF moves_advance [OF Cons.prems(1) ne] t(2)] by (simp add: step)
qed

definition decimalDigit :: "uchar \<Rightarrow> nat" where
  "decimalDigit c = unat c - 48"

definition hexDigit :: "uchar \<Rightarrow> nat" where
  "hexDigit c = (if unat c \<le> 57 then unat c - 48 else if unat c \<le> 70 then unat c - 55 else unat c - 87)"

lemma decimal_digit:
  assumes "isASCIIDigit c"
  shows "decimalDigit c < 10" "ucast c - 0x30 = (of_nat (decimalDigit c) :: uchar32)"
proof -
  have r: "48 \<le> unat c" "unat c \<le> 57" using assms by (auto simp: isASCIIDigit_def word_le_nat_alt)
  then show "decimalDigit c < 10" by (simp add: decimalDigit_def)
  have "ucast c = (of_nat (unat c) :: uchar32)" by (simp add: unsigned_ucast_eq)
  with r show "ucast c - 0x30 = (of_nat (decimalDigit c) :: uchar32)"
    by (simp add: decimalDigit_def of_nat_diff)
qed

lemma hex_digit:
  assumes "isASCIIHexDigit c"
  shows "hexDigit c < 16" "toASCIIHexValue c = of_nat (hexDigit c)"
proof -
  have r: "48 \<le> unat c \<and> unat c \<le> 57 \<or> 65 \<le> unat c \<and> unat c \<le> 70 \<or> 97 \<le> unat c \<and> unat c \<le> 102"
    using assms by (auto simp: isASCIIHexDigit_iff isASCIIDigit_def word_le_nat_alt)
  then show "hexDigit c < 16" by (auto simp: hexDigit_def)
  have "unat c \<in> {48, 49, 50, 51, 52, 53, 54, 55, 56, 57, 65, 66, 67, 68, 69, 70, 97, 98, 99, 100, 101, 102}"
    using r by (simp only: insert_iff empty_iff simp_thms) presburger
  then have "c \<in> of_nat ` {48, 49, 50, 51, 52, 53, 54, 55, 56, 57, 65, 66, 67, 68, 69, 70, 97, 98, 99, 100, 101, 102}"
    by (rule rev_image_eqI) simp
  then show "toASCIIHexValue c = of_nat (hexDigit c)"
    by (elim imageE insertE emptyE; simp only: toASCIIHexValue_def hexDigit_def) simp_all
qed

lemma decimal_step:
  "crStep tbl additional Decimal ch result overflow consumed source =
     (if isASCIIDigit ch
      then CrBreak Decimal (result * of_nat 10 + of_nat (decimalDigit ch))
             (overflow \<or> 0x10FFFF <s result * of_nat 10 + of_nat (decimalDigit ch))
      else endOfNumber ch result overflow consumed source)"
  using decimal_digit(2) [of ch] by (auto simp: decimalLabel_def Let_def add_diff_eq [symmetric])

lemma hex_step:
  "crStep tbl additional Hex ch result overflow consumed source =
     (if isASCIIHexDigit ch
      then CrBreak Hex (result * of_nat 16 + of_nat (hexDigit ch))
             (overflow \<or> 0x10FFFF <s result * of_nat 16 + of_nat (hexDigit ch))
      else endOfNumber ch result overflow consumed source)"
  using hex_digit(2) [of ch] by (auto simp: hexLabel_def Let_def)

lemmas decimal_loop = crLoop_digits [OF decimal_step decimal_digit(1), simplified]
lemmas hex_loop = crLoop_digits [OF hex_step hex_digit(1), simplified]

text \<open>A step of the reference parser that consumes the current character.\<close>

lemma crLoop_break:
  assumes "source_ok s" and "toStringSS s = c # cs"
    and "crStep tbl additional st c result overflow consumed s = CrBreak st' result' overflow'"
  shows "crLoop (Suc fuel) tbl additional st result overflow consumed s =
      crLoop fuel tbl additional st' result' overflow' (consumed @ [c]) (advance s)"
    and "source_ok (advance s)" and "toStringSS (advance s) = cs" and "moves 1 s (advance s)"
proof -
  have ne: "\<not> isEmpty s" and cur: "currentChar s = c"
    using assms(1,2) by (simp_all add: src.atEnd_iff src.current_hd)
  show "crLoop (Suc fuel) tbl additional st result overflow consumed s =
      crLoop fuel tbl additional st' result' overflow' (consumed @ [c]) (advance s)"
    using ne cur assms(3) by simp
  show "source_ok (advance s)" "toStringSS (advance s) = cs"
    using src.inv_forward [OF assms(1) ne] src.pending_forward [OF assms(1) ne] assms(2) by simp_all
  show "moves 1 s (advance s)" by (rule moves_advance [OF assms(1) ne])
qed

definition decimalValue :: "uchar list \<Rightarrow> nat" where
  "decimalValue ds = digitsValue 10 decimalDigit ds 0"

definition hexValue :: "uchar list \<Rightarrow> nat" where
  "hexValue ds = digitsValue 16 hexDigit ds 0"

lemma accumulates_0: "accumulates 0 0 False"
  by (simp add: accumulates_def)

lemma decimal_reference_moves:
  assumes ok: "source_ok s" and str: "toStringSS s = c_hash # ds @ c # rest"
    and ds: "ds \<noteq> []" "\<forall>d\<in>set ds. isASCIIDigit d" and c: "\<not> isASCIIDigit c"
    and add: "additional \<noteq> c_hash"
  shows "\<exists>t. consumeHTMLEntity tbl additional s = Some (consumedAs (append32 (codePointOf (decimalValue ds))) t)
    \<and> moves (1 + length ds + (if c = c_semi then 1 else 0)) s t"
proof -
  let ?s = "advance s"
  obtain d es where de: "ds = d # es" using ds(1) by (cases ds) auto
  then have d: "isASCIIDigit d" "d \<noteq> 0x78" "d \<noteq> 0x58"
    using ds(2) by (auto simp: isASCIIDigit_def word_le_nat_alt)
  define fuel where "fuel = nat (lengthSS s)"
  have fuel: "fuel = Suc (length ds + Suc (length rest))"
    using lengthSS_toString [of s] ok str by (simp add: fuel_def source_ok_def)
  have "crStep tbl additional Initial c_hash 0 False [] s = CrBreak Number 0 False" using add by simp
  note b = crLoop_break [OF ok str this]
  have ne: "\<not> isEmpty ?s" "currentChar ?s = d"
    using b(2,3) de by (simp_all add: src.atEnd_iff src.current_hd)
  have "consumeHTMLEntity tbl additional s = crLoop fuel tbl additional Number 0 False [c_hash] ?s"
    unfolding consumeHTMLEntity_def b(1) fuel_def by simp
  also have "\<dots> = crLoop fuel tbl additional Decimal 0 False [c_hash] ?s"
    using ne d fuel by simp
  finally have eq: "consumeHTMLEntity tbl additional s = crLoop fuel tbl additional Decimal 0 False [c_hash] ?s" .
  from decimal_loop [OF b(2,3) ds(2) c _ accumulates_0, of fuel tbl additional "[c_hash]"] fuel
  obtain t where "crLoop fuel tbl additional Decimal 0 False [c_hash] ?s
      = Some (consumedAs (append32 (codePointOf (decimalValue ds))) t)"
    "moves (length ds + (if c = c_semi then 1 else 0)) ?s t" unfolding decimalValue_def by auto
  with eq moves_trans [OF b(4) this(2)] show ?thesis by (simp add: add.assoc)
qed

lemma hex_reference_moves:
  assumes ok: "source_ok s" and str: "toStringSS s = c_hash # x # ds @ c # rest"
    and x: "x = 0x78 \<or> x = 0x58"
    and ds: "ds \<noteq> []" "\<forall>d\<in>set ds. isASCIIHexDigit d" and c: "\<not> isASCIIHexDigit c"
    and add: "additional \<noteq> c_hash"
  shows "\<exists>t. consumeHTMLEntity tbl additional s = Some (consumedAs (append32 (codePointOf (hexValue ds))) t)
    \<and> moves (2 + length ds + (if c = c_semi then 1 else 0)) s t"
proof -
  let ?s = "advance (advance s)" and ?m = "if x = 0x78 then MaybeHexLowerCaseX else MaybeHexUpperCaseX"
  obtain d es where de: "ds = d # es" using ds(1) by (cases ds) auto
  then have d: "isASCIIHexDigit d" using ds(2) by simp
  define fuel where "fuel = length ds + Suc (length rest)"
  have fuel: "nat (lengthSS s) = Suc (Suc fuel)"
    using lengthSS_toString [of s] ok str by (simp add: fuel_def source_ok_def)
  have "crStep tbl additional Initial c_hash 0 False [] s = CrBreak Number 0 False" using add by simp
  note b = crLoop_break [OF ok str this]
  have "crStep tbl additional Number x 0 False [c_hash] (advance s) = CrBreak ?m 0 False"
    using x by auto
  note b' = crLoop_break [OF b(2,3) this]
  have ne: "\<not> isEmpty ?s" "currentChar ?s = d"
    using b'(2,3) de by (simp_all add: src.atEnd_iff src.current_hd)
  have "consumeHTMLEntity tbl additional s = crLoop (Suc fuel) tbl additional ?m 0 False [c_hash, x] ?s"
    using b(1) [of "Suc (Suc fuel)"] b'(1) [of "Suc fuel"]
    by (simp only: consumeHTMLEntity_def fuel append_Nil append_Cons)
  also have "\<dots> = crLoop (Suc fuel) tbl additional Hex 0 False [c_hash, x] ?s"
    using ne d by simp
  finally have eq: "consumeHTMLEntity tbl additional s = crLoop (Suc fuel) tbl additional Hex 0 False [c_hash, x] ?s" .
  from hex_loop [OF b'(2,3) ds(2) c _ accumulates_0, of "Suc fuel" tbl additional "[c_hash, x]"]
  obtain t where "crLoop (Suc fuel) tbl additional Hex 0 False [c_hash, x] ?s
      = Some (consumedAs (append32 (codePointOf (hexValue ds))) t)"
    "moves (length ds + (if c = c_semi then 1 else 0)) ?s t" unfolding hexValue_def fuel_def by auto
  with eq moves_trans [OF moves_trans [OF b(4) b'(4)] this(2)] show ?thesis by (simp add: add.assoc)
qed

text \<open>
  C9: a decimal character reference of any length, followed by a character that is not a
  digit, is consumed together with a semicolon that ends it, and decodes to the UTF-16
  code units of the code point the HTML standard gives its number: U+FFFD for zero,
  surrogates and numbers beyond U+10FFFF, the windows-1252 replacement for C1 controls, and
  the number itself otherwise. The wrap-around of the 32-bit accumulator is not observable.
\<close>

theorem decimal_reference_decodes:
  assumes "source_ok s" and "toStringSS s = c_hash # ds @ c # rest"
    and "ds \<noteq> []" and "\<forall>d\<in>set ds. isASCIIDigit d" and "\<not> isASCIIDigit c" and "additional \<noteq> c_hash"
  shows "\<exists>t. consumeHTMLEntity tbl additional s =
      Some (consumedAs (append32 (codePointOf (decimalValue ds))) t)
    \<and> source_ok t \<and> toStringSS t = (if c = c_semi then rest else c # rest)"
  using decimal_reference_moves [OF assms, of tbl] assms(2) by (auto simp: moves_def split: if_splits)

theorem decimal_reference_decodes_witness:
  "\<exists>t. consumeHTMLEntity exampleTable 0 (segmentedStringOf (WString True (ascii ''#4294967361;x''))) =
      Some (consumedAs [0xFFFD] t) \<and> toStringSS t = ascii ''x''"
proof -
  let ?s = "segmentedStringOf (WString True (ascii ''#4294967361;x''))"
  have "source_ok ?s" "toStringSS ?s = c_hash # ascii ''4294967361'' @ c_semi # ascii ''x''"
    using segmentedStringOf_ok [of "WString True (ascii ''#4294967361;x'')"]
    by (simp_all add: source_ok_def ascii_def)
  from decimal_reference_decodes [OF this, of 0 exampleTable] show ?thesis
    by (simp add: ascii_def isASCIIDigit_def decimalValue_def decimalDigit_def codePointOf_def append32_def) blast
qed

text \<open>
  C10: a hexadecimal character reference, introduced by \<open>x\<close> or \<open>X\<close>, decodes in the same way
  to the code point of its number in base 16.
\<close>

theorem hex_reference_decodes:
  assumes "source_ok s" and "toStringSS s = c_hash # x # ds @ c # rest" and "x = 0x78 \<or> x = 0x58"
    and "ds \<noteq> []" and "\<forall>d\<in>set ds. isASCIIHexDigit d" and "\<not> isASCIIHexDigit c" and "additional \<noteq> c_hash"
  shows "\<exists>t. consumeHTMLEntity tbl additional s =
      Some (consumedAs (append32 (codePointOf (hexValue ds))) t)
    \<and> source_ok t \<and> toStringSS t = (if c = c_semi then rest else c # rest)"
  using hex_reference_moves [OF assms, of tbl] assms(2) by (auto simp: moves_def split: if_splits)

theorem hex_reference_decodes_witness:
  "\<exists>t. consumeHTMLEntity exampleTable 0 (segmentedStringOf (WString True (ascii ''#x1F600<''))) =
      Some (consumedAs [0xD83D, 0xDE00] t) \<and> toStringSS t = ascii ''<''"
proof -
  let ?s = "segmentedStringOf (WString True (ascii ''#x1F600<''))"
  have "source_ok ?s" "toStringSS ?s = c_hash # 0x78 # ascii ''1F600'' @ c_lt # []"
    using segmentedStringOf_ok [of "WString True (ascii ''#x1F600<'')"]
    by (simp_all add: source_ok_def ascii_def)
  from hex_reference_decodes [OF this, of 0 exampleTable] show ?thesis
    by (simp add: ascii_def isASCIIHexDigit_iff isASCIIDigit_def hexValue_def hexDigit_def codePointOf_def
        append32_def U16_LEAD_def U16_TRAIL_def) blast
qed

section \<open>Every reference\<close>

text \<open>
  What every call guarantees, whatever the table: it consumes \<open>n\<close> characters on success and
  none otherwise, and decodes to no null character if the table's values contain none.
\<close>

definition reference_ok :: "HTMLEntityTable \<Rightarrow> SegmentedString \<Rightarrow> reference_result \<Rightarrow> bool" where
  "reference_ok tbl s r \<longleftrightarrow>
     (\<exists>n. moves n s (afterSource r) \<and> (success r \<or> n = 0)) \<and>
     (\<not> success r \<longrightarrow> decoded r = []) \<and> (notEnoughCharacters r \<longrightarrow> \<not> success r) \<and>
     ((\<forall>e\<in>set (staticEntityTable tbl). 0 \<notin> set (decodeEntity e)) \<longrightarrow> 0 \<notin> set (decoded r))"

lemma reference_ok_failed: "moves 0 s t \<Longrightarrow> reference_ok tbl s (failed t)"
  by (auto simp: reference_ok_def)

lemma reference_ok_wantsMore: "moves 0 s t \<Longrightarrow> reference_ok tbl s (wantsMore t)"
  by (auto simp: reference_ok_def)

lemma reference_ok_entity:
  assumes "moves n s t" and "i < tableSize tbl"
  shows "reference_ok tbl s (consumedAs (decodeEntity (entryAt tbl i)) t)"
proof -
  have "entryAt tbl i \<in> set (staticEntityTable tbl)"
    using assms(2) by (simp add: entryAt_def tableSize_def)
  with assms(1) show ?thesis by (auto simp: reference_ok_def)
qed

text \<open>The bookkeeping of the search that needs no hypothesis on the table.\<close>

definition search_len :: "HTMLEntityTable \<Rightarrow> nat \<Rightarrow> HTMLEntitySearch \<Rightarrow> bool" where
  "search_len tbl n es \<longleftrightarrow>
     m_currentLength es = n \<and>
     (\<forall>i. m_mostRecentMatch es = Some i \<longrightarrow> i < tableSize tbl \<and> entityLength (entryAt tbl i) \<le> n)"

lemma noteMatch_len:
  assumes "search_len tbl n es"
  shows "search_len tbl (Suc n) (noteMatch tbl i (es\<lparr>m_first := a, m_last := b\<rparr>))"
proof -
  have "i < tableSize tbl" if "entityLength (entryAt tbl i) = Suc n"
    using that by (auto simp: entryAt_def nullEntry_def tableSize_def split: if_splits)
  with assms show ?thesis by (auto simp: search_len_def noteMatch_def Let_def)
qed

lemma advanceSearch_shape:
  "advanceSearch tbl c es = failSearch es \<or>
   (\<exists>i a b. advanceSearch tbl c es = noteMatch tbl i (es\<lparr>m_first := Some a, m_last := Some b\<rparr>))"
  unfolding advanceSearch_def Let_def by (auto split: option.splits)

lemma advanceSearch_len:
  assumes "search_len tbl n es"
  shows "isEntityPrefix (advanceSearch tbl c es) \<Longrightarrow> search_len tbl (Suc n) (advanceSearch tbl c es)"
    and "\<not> isEntityPrefix (advanceSearch tbl c es) \<Longrightarrow> search_len tbl n (advanceSearch tbl c es)"
proof -
  consider "advanceSearch tbl c es = failSearch es"
    | i a b where "advanceSearch tbl c es = noteMatch tbl i (es\<lparr>m_first := Some a, m_last := Some b\<rparr>)"
    using advanceSearch_shape [of tbl c es] by blast
  then have "(isEntityPrefix (advanceSearch tbl c es) \<longrightarrow> search_len tbl (Suc n) (advanceSearch tbl c es))
    \<and> (\<not> isEntityPrefix (advanceSearch tbl c es) \<longrightarrow> search_len tbl n (advanceSearch tbl c es))"
  proof cases
    case 1
    with assms show ?thesis by (auto simp: failSearch_def isEntityPrefix_def search_len_def)
  next
    case 2
    with noteMatch_len [OF assms] show ?thesis by (auto simp: isEntityPrefix_def noteMatch_def Let_def)
  qed
  then show "isEntityPrefix (advanceSearch tbl c es) \<Longrightarrow> search_len tbl (Suc n) (advanceSearch tbl c es)"
    "\<not> isEntityPrefix (advanceSearch tbl c es) \<Longrightarrow> search_len tbl n (advanceSearch tbl c es)"
    by blast+
qed

text \<open>
  The search loop, with an arbitrary property of the search that \<^verbatim>\<open>advance\<close> preserves while the
  characters read are a prefix of a name.
\<close>

lemma searchLoop_ok:
  assumes "moves n s t" and "search_len tbl n es" and "length (toStringSS t) < fuel"
    and "P (take n (toStringSS s)) es"
    and step: "\<And>w c es. P w es \<Longrightarrow> isEntityPrefix (advanceSearch tbl c es) \<Longrightarrow> P (w @ [c]) (advanceSearch tbl c es)"
  shows "\<exists>m cc es' u. searchLoop fuel tbl (take n (toStringSS s)) cc0 es t = Some (take m (toStringSS s), cc, es', u)
    \<and> n \<le> m \<and> moves m s u \<and> search_len tbl m es' \<and>
    (if isEmpty u then P (take m (toStringSS s)) es'
     else cc = currentChar u \<and>
       (\<exists>es0. P (take m (toStringSS s)) es0 \<and> es' = advanceSearch tbl cc es0 \<and> \<not> isEntityPrefix es'))"
  using assms(1-4)
proof (induction fuel arbitrary: n t es cc0)
  case 0
  then show ?case by simp
next
  case (Suc fuel)
  let ?c = "currentChar t" and ?es = "advanceSearch tbl (currentChar t) es"
  note ok = moves_ok [OF Suc.prems(1)]
  consider (e) "isEmpty t" | (f) "\<not> isEmpty t" "\<not> isEntityPrefix ?es" | (n) "\<not> isEmpty t" "isEntityPrefix ?es"
    by blast
  then show ?case
  proof cases
    case e
    with Suc.prems show ?thesis by auto
  next
    case f
    then have "searchLoop (Suc fuel) tbl (take n (toStringSS s)) cc0 es t = Some (take n (toStringSS s), ?c, ?es, t)"
      by (simp add: Let_def)
    with f Suc.prems advanceSearch_len(2) [OF Suc.prems(2) f(2)] show ?thesis by auto
  next
    case n
    note tk = moves_current [OF Suc.prems(1) n(1)]
    have eq: "searchLoop (Suc fuel) tbl (take n (toStringSS s)) cc0 es t
        = searchLoop fuel tbl (take (Suc n) (toStringSS s)) ?c ?es (advance t)"
      using n by (simp add: Let_def tk)
    have "length (toStringSS (advance t)) < fuel"
      using src.length_pending_forward [OF ok n(1)] Suc.prems(3) by simp
    from Suc.IH [OF moves_step [OF Suc.prems(1) n(1)] advanceSearch_len(1) [OF Suc.prems(2) n(2)] this]
      step [OF Suc.prems(4) n(2)] tk
    show ?thesis unfolding eq by (metis Suc_leD)
  qed
qed

lemma reconsumeLoop_ok:
  assumes "moves m s t" and "m + n \<le> length (toStringSS s)"
  shows "\<exists>u. reconsumeLoop n (take m (toStringSS s)) t = (take (m + n) (toStringSS s), u) \<and> moves (m + n) s u"
  using assms
proof (induction n arbitrary: m t)
  case (Suc n)
  then have ne: "\<not> isEmpty t" by (simp add: moves_isEmpty)
  from Suc.IH [OF moves_step [OF Suc.prems(1) ne]] Suc.prems(2) show ?case
    by (simp add: moves_current [OF Suc.prems(1) ne])
qed auto

definition acceptsEntity :: "HTMLEntityTableEntry \<Rightarrow> uchar \<Rightarrow> uchar list \<Rightarrow> bool" where
  "acceptsEntity entry additional cs \<longleftrightarrow>
     lastCharacter entry = c_semi \<or> additional = 0 \<or>
     \<not> (isASCIIAlphanumeric (cs ! entityLength entry) \<or> cs ! entityLength entry = c_eq)"

lemma moves_nth:
  assumes "moves n s t" and "\<not> isEmpty t"
  shows "currentChar t = toStringSS s ! n"
proof -
  have "n < length (toStringSS s)" using assms moves_isEmpty by (auto simp: moves_def)
  with assms show ?thesis
    by (simp add: moves_def src.current_hd hd_drop_conv_nth)
qed

lemma consumeNamedEntity_cases:
  assumes loop: "searchLoop (Suc (nat (lengthSS s))) tbl [] cc0 (newEntitySearch tbl) s
      = Some (take m (toStringSS s), cc, es, u)"
    and mv: "moves m s u" and len: "search_len tbl m es" and cc: "\<not> isEmpty u \<Longrightarrow> cc = currentChar u"
  obtains (more) v where "isEmpty u" "consumeNamedEntity tbl a cc0 s = Some (wantsMore v)" "moves 0 s v"
  | (none) v where "\<not> isEmpty u" "m_mostRecentMatch es = None"
      "consumeNamedEntity tbl a cc0 s = Some (failed v)" "moves 0 s v"
  | (accept) i v where "\<not> isEmpty u" "m_mostRecentMatch es = Some i" "i < tableSize tbl"
      "acceptsEntity (entryAt tbl i) a (toStringSS s)"
      "consumeNamedEntity tbl a cc0 s = Some (consumedAs (decodeEntity (entryAt tbl i)) v)"
      "moves (entityLength (entryAt tbl i)) s v"
  | (reject) i v where "\<not> isEmpty u" "m_mostRecentMatch es = Some i" "i < tableSize tbl"
      "\<not> acceptsEntity (entryAt tbl i) a (toStringSS s)"
      "consumeNamedEntity tbl a cc0 s = Some (failed v)" "moves 0 s v"
proof -
  let ?v = "unconsumeCharacters (take m (toStringSS s)) u"
  note v = moves_unread [OF mv]
  show thesis
  proof (cases "isEmpty u")
    case True
    with loop v more show thesis by (simp add: consumeNamedEntity_def)
  next
    case ne: False
    show thesis
    proof (cases "m_mostRecentMatch es")
      case None
      with ne loop v none show thesis by (simp add: consumeNamedEntity_def)
    next
      case (Some i)
      let ?e = "entryAt tbl i"
      have i: "i < tableSize tbl" "entityLength ?e \<le> m" "m_currentLength es = m"
        using len Some by (auto simp: search_len_def)
      have ml: "m < length (toStringSS s)" using mv ne moves_isEmpty [OF mv] by (auto simp: moves_def)
      define r where "r = (if entityLength ?e \<noteq> m_currentLength es
          then let source = ?v; (consumed, source) = reconsumeLoop (entityLength ?e) [] source
               in (consumed, currentChar source, source)
          else (take m (toStringSS s), cc, u))"
      obtain t where r: "r = (take (entityLength ?e) (toStringSS s), toStringSS s ! entityLength ?e, t)"
        and t: "moves (entityLength ?e) s t"
      proof (cases "entityLength ?e = m")
        case True
        with that mv i(3) cc [OF ne] moves_nth [OF mv ne] show thesis by (simp add: r_def)
      next
        case False
        from reconsumeLoop_ok [OF v, of "entityLength ?e"] i(2) ml obtain t where
          t: "reconsumeLoop (entityLength ?e) [] ?v = (take (entityLength ?e) (toStringSS s), t)"
            "moves (entityLength ?e) s t" by auto
        have "\<not> isEmpty t" using moves_isEmpty [OF t(2)] i(2) ml by simp
        with that t moves_nth [OF t(2)] False i(3) show thesis by (simp add: r_def Let_def)
      qed
      have eq: "consumeNamedEntity tbl a cc0 s =
          (if acceptsEntity ?e a (toStringSS s) then Some (consumedAs (decodeEntity ?e) t)
           else Some (failed (unconsumeCharacters (take (entityLength ?e) (toStringSS s)) t)))"
        using loop ne Some r
        by (simp add: consumeNamedEntity_def acceptsEntity_def Let_def r_def)
      show thesis
        using accept [OF ne Some i(1) _ _ t] reject [OF ne Some i(1) _ _ moves_unread [OF t]] eq
        by (cases "acceptsEntity ?e a (toStringSS s)") simp_all
    qed
  qed
qed

lemma searchLoop_start:
  assumes ok: "source_ok s" and "P [] (newEntitySearch tbl)"
    and step: "\<And>w c es. P w es \<Longrightarrow> isEntityPrefix (advanceSearch tbl c es) \<Longrightarrow> P (w @ [c]) (advanceSearch tbl c es)"
  shows "\<exists>m cc es u. searchLoop (Suc (nat (lengthSS s))) tbl [] cc0 (newEntitySearch tbl) s
      = Some (take m (toStringSS s), cc, es, u) \<and>
    moves m s u \<and> search_len tbl m es \<and> (isEmpty u \<longrightarrow> P (take m (toStringSS s)) es) \<and>
    (\<not> isEmpty u \<longrightarrow> cc = currentChar u \<and>
       (\<exists>es0. P (take m (toStringSS s)) es0 \<and> es = advanceSearch tbl cc es0 \<and> \<not> isEntityPrefix es))"
proof -
  have "search_len tbl 0 (newEntitySearch tbl)" by (simp add: search_len_def newEntitySearch_def)
  moreover have "length (toStringSS s) < Suc (nat (lengthSS s))"
    using ok lengthSS_toString [of s] by (simp add: source_ok_def)
  ultimately show ?thesis
    using searchLoop_ok [OF moves_refl [OF ok], of tbl "newEntitySearch tbl" _ P cc0] assms(2) step
    by (fastforce split: if_splits)
qed

lemma consumeNamedEntity_ok:
  assumes "source_ok s"
  shows "\<exists>r. consumeNamedEntity tbl a cc s = Some r \<and> reference_ok tbl s r"
proof -
  obtain m cc' es u where
    "searchLoop (Suc (nat (lengthSS s))) tbl [] cc (newEntitySearch tbl) s = Some (take m (toStringSS s), cc', es, u)"
    "moves m s u" "search_len tbl m es" "\<not> isEmpty u \<Longrightarrow> cc' = currentChar u"
    using searchLoop_start [OF assms, of "\<lambda>_ _. True" tbl cc] by blast
  then show ?thesis
    by (rule consumeNamedEntity_cases [of s tbl cc m cc' es u a])
      (auto intro: reference_ok_failed reference_ok_wantsMore reference_ok_entity)
qed

lemma reference_ok_moves: "moves 0 s t \<Longrightarrow> reference_ok tbl t r \<Longrightarrow> reference_ok tbl s r"
  unfolding reference_ok_def using moves_trans [of 0 s t] by fastforce

definition cr_ok :: "cr_state \<Rightarrow> uchar list \<Rightarrow> uchar32 \<Rightarrow> bool \<Rightarrow> bool" where
  "cr_ok st consumed result overflow \<longleftrightarrow>
     (case st of
        Initial \<Rightarrow> consumed = []
      | Number \<Rightarrow> consumed = [c_hash]
      | MaybeHexLowerCaseX \<Rightarrow> consumed = [c_hash, 0x78]
      | MaybeHexUpperCaseX \<Rightarrow> consumed = [c_hash, 0x58]
      | _ \<Rightarrow> True) \<and> (\<exists>v. accumulates v result overflow)"

lemma endOfNumber_ok:
  assumes mv: "moves n s t" and ne: "\<not> isEmpty t" and "accumulates v result overflow"
  shows "\<exists>r. endOfNumber c result overflow consumed t = CrReturn (Some r) \<and> reference_ok tbl s r"
proof -
  have nz: "0 \<notin> set (append32 (codePointOf v))"
    by (rule append32_nonzero [OF codePointOf_range])
  have "reference_ok tbl s (consumedAs (numericResult result overflow) u)" if "moves k s u" for k u
    using that nz numericResult_value [OF assms(3)] by (auto simp: reference_ok_def)
  from this [OF mv] this [OF moves_step [OF mv ne]] show ?thesis
    by (auto simp: endOfNumber_def acceptMalformed_def)
qed

lemma decimalLabel_ok:
  assumes "moves n s t" and "\<not> isEmpty t" and "accumulates v result overflow"
  shows "case decimalLabel c result overflow consumed t of
      CrReturn r \<Rightarrow> \<exists>x. r = Some x \<and> reference_ok tbl s x
    | CrBreak st' result' overflow' \<Rightarrow> st' = Decimal \<and> (\<exists>v. accumulates v result' overflow')"
proof (cases "isASCIIDigit c")
  case True
  with decimal_digit [OF True] accumulates_digit [OF assms(3), of "decimalDigit c" 10] show ?thesis
    by (auto simp: decimalLabel_def Let_def add_diff_eq [symmetric])
next
  case False
  with endOfNumber_ok [OF assms, of c consumed tbl] show ?thesis by (auto simp: decimalLabel_def)
qed

lemma hexLabel_ok:
  assumes "moves n s t" and "\<not> isEmpty t" and "accumulates v result overflow"
  shows "case hexLabel c result overflow consumed t of
      CrReturn r \<Rightarrow> \<exists>x. r = Some x \<and> reference_ok tbl s x
    | CrBreak st' result' overflow' \<Rightarrow> st' = Hex \<and> (\<exists>v. accumulates v result' overflow')"
proof (cases "isASCIIHexDigit c")
  case True
  with hex_digit [OF True] accumulates_digit [OF assms(3), of "hexDigit c" 16] show ?thesis
    by (auto simp: hexLabel_def Let_def)
next
  case False
  with endOfNumber_ok [OF assms, of c consumed tbl] show ?thesis by (auto simp: hexLabel_def)
qed

lemma crStep_ok:
  assumes mv: "moves n s t" and ne: "\<not> isEmpty t" and ok: "cr_ok st (take n (toStringSS s)) result overflow"
  shows "case crStep tbl a st c result overflow (take n (toStringSS s)) t of
      CrReturn r \<Rightarrow> \<exists>x. r = Some x \<and> reference_ok tbl s x
    | CrBreak st' result' overflow' \<Rightarrow> cr_ok st' (take n (toStringSS s) @ [c]) result' overflow'"
proof -
  obtain v where acc: "accumulates v result overflow" using ok by (auto simp: cr_ok_def)
  note dec = decimalLabel_ok [OF mv ne acc, of tbl c "take n (toStringSS s)"]
  note hex = hexLabel_ok [OF mv ne acc, of tbl c "take n (toStringSS s)"]
  have undone: "reference_ok tbl s (failed (pushBackSS (segmentedStringOf (WString True cs)) t))"
    if "take n (toStringSS s) = cs" for cs
    by (rule reference_ok_failed [OF moves_pushBack [OF mv]]) (use that in simp)
  show ?thesis
  proof (cases st)
    case Initial
    then have "n = 0" using ok mv by (auto simp: cr_ok_def moves_def)
    then have mv0: "moves 0 s t" using mv by simp
    obtain r where "consumeNamedEntity tbl a c t = Some r" "reference_ok tbl s r"
      using consumeNamedEntity_ok [OF moves_ok [OF mv]] reference_ok_moves [OF mv0] by blast
    with Initial ok \<open>n = 0\<close> reference_ok_failed [OF mv0] show ?thesis by (auto simp: cr_ok_def)
  next
    case Number
    with ok undone dec show ?thesis
      by (auto simp: cr_ok_def ascii_def split: cr_step.splits)
  next
    case MaybeHexLowerCaseX
    with ok undone hex show ?thesis by (auto simp: cr_ok_def ascii_def split: cr_step.splits)
  next
    case MaybeHexUpperCaseX
    with ok undone hex show ?thesis by (auto simp: cr_ok_def ascii_def split: cr_step.splits)
  next
    case Hex
    with hex show ?thesis by (auto simp: cr_ok_def split: cr_step.splits)
  next
    case Decimal
    with dec show ?thesis by (auto simp: cr_ok_def split: cr_step.splits)
  qed
qed

lemma crLoop_ok:
  assumes "moves n s t" and "cr_ok st (take n (toStringSS s)) result overflow" and "length (toStringSS t) < fuel"
  shows "\<exists>r. crLoop fuel tbl a st result overflow (take n (toStringSS s)) t = Some r \<and> reference_ok tbl s r"
  using assms
proof (induction fuel arbitrary: n t st result overflow)
  case 0
  then show ?case by simp
next
  case (Suc fuel)
  show ?case
  proof (cases "isEmpty t")
    case True
    with reference_ok_wantsMore [OF moves_unread [OF Suc.prems(1)]] show ?thesis by simp
  next
    case ne: False
    let ?c = "currentChar t"
    note st = crStep_ok [OF Suc.prems(1) ne Suc.prems(2), of tbl ?c a]
    show ?thesis
    proof (cases "crStep tbl a st ?c result overflow (take n (toStringSS s)) t")
      case (CrReturn r)
      with st ne show ?thesis by auto
    next
      case (CrBreak st' result' overflow')
      have "length (toStringSS (advance t)) < fuel"
        using src.length_pending_forward [OF moves_ok [OF Suc.prems(1)] ne] Suc.prems(3) by simp
      with Suc.IH [OF moves_step [OF Suc.prems(1) ne], of st' result' overflow'] CrBreak st ne show ?thesis
        by (simp add: moves_current [OF Suc.prems(1) ne])
    qed
  qed
qed

lemma consumeHTMLEntity_ok:
  assumes "source_ok s"
  shows "\<exists>r. consumeHTMLEntity tbl a s = Some r \<and> reference_ok tbl s r"
proof -
  have "cr_ok Initial (take 0 (toStringSS s)) 0 False"
    using accumulates_0 by (auto simp: cr_ok_def)
  moreover have "length (toStringSS s) < Suc (nat (lengthSS s))"
    using assms lengthSS_toString [of s] by (simp add: source_ok_def)
  ultimately show ?thesis
    using crLoop_ok [OF moves_refl [OF assms], of Initial 0 False "Suc (nat (lengthSS s))" tbl a]
    by (simp add: consumeHTMLEntity_def)
qed

section \<open>Named references\<close>

text \<open>
  The reference definition: a linear scan of the table. When the whole input is the beginning
  of a name, more input is needed; otherwise the longest name that the input starts with is
  the candidate, which an attribute rejects when it lacks its semicolon and runs on.
\<close>

fun longestName :: "HTMLEntityTable \<Rightarrow> uchar list \<Rightarrow> nat \<Rightarrow> HTMLEntityTableEntry option" where
  "longestName tbl cs 0 = None"
| "longestName tbl cs (Suc n) =
     (case find (\<lambda>e. entity e = take (Suc n) cs) (staticEntityTable tbl) of
        Some e \<Rightarrow> Some e
      | None \<Rightarrow> longestName tbl cs n)"

definition namedReference ::
  "HTMLEntityTable \<Rightarrow> uchar \<Rightarrow> uchar list \<Rightarrow> bool \<times> uchar list \<times> bool \<times> nat" where
  "namedReference tbl additional cs =
     (if list_ex (\<lambda>e. prefix cs (entity e)) (staticEntityTable tbl) then (False, [], True, 0)
      else case longestName tbl cs (length cs) of
             None \<Rightarrow> (False, [], False, 0)
           | Some e \<Rightarrow> if acceptsEntity e additional cs then (True, decodeEntity e, False, entityLength e)
                       else (False, [], False, 0))"

lemma list_ex_startingWith:
  "list_ex (\<lambda>e. prefix cs (entity e)) (staticEntityTable tbl) \<longleftrightarrow> startingWith tbl cs \<noteq> {}"
  by (auto simp: list_ex_iff startingWith_def nameAt_def entryAt_def tableSize_def in_set_conv_nth Bex_def)

lemma longestName_None:
  assumes "longestMatch tbl cs None" and "n \<le> length cs"
  shows "longestName tbl cs n = None"
  using assms(2)
proof (induction n)
  case (Suc n)
  have "find (\<lambda>e. entity e = take (Suc n) cs) (staticEntityTable tbl) = None"
    using assms(1)
    by (auto simp: find_None_iff longestMatch_def nameAt_def entryAt_def tableSize_def in_set_conv_nth take_is_prefix)
  with Suc show ?case by simp
qed simp

lemma longestName_Some:
  assumes ok: "table_ok tbl" and m: "longestMatch tbl cs (Some i)"
    and "length (nameAt tbl i) \<le> n" and "n \<le> length cs"
  shows "longestName tbl cs n = Some (entryAt tbl i)"
  using assms(3,4)
proof (induction n)
  case 0
  then show ?case using ok m
    by (auto simp: longestMatch_def table_ok_def nameAt_def entryAt_def tableSize_def)
next
  case (Suc n)
  have i: "i < tableSize tbl" "nameAt tbl i = take (length (nameAt tbl i)) cs"
    using m by (auto simp: longestMatch_def prefix_def)
  show ?case
  proof (cases "length (nameAt tbl i) = Suc n")
    case True
    with i(2) entryAt_find [OF ok i(1)] show ?thesis by simp
  next
    case False
    have "entity e \<noteq> take (Suc n) cs" if "e \<in> set (staticEntityTable tbl)" for e
    proof
      assume e: "entity e = take (Suc n) cs"
      from that obtain j where "j < tableSize tbl" "entryAt tbl j = e"
        by (auto simp: in_set_conv_nth tableSize_def entryAt_def)
      then have "length (entity e) \<le> length (nameAt tbl i)"
        using m e by (auto simp: longestMatch_def nameAt_def take_is_prefix)
      with e Suc.prems False show False by simp
    qed
    then have "find (\<lambda>e. entity e = take (Suc n) cs) (staticEntityTable tbl) = None"
      by (auto simp: find_None_iff)
    with Suc False show ?thesis by simp
  qed
qed

text \<open>A failed search stopped at a character after which no name goes on.\<close>

lemma longestMatch_extend:
  assumes "longestMatch tbl w m" and "startingWith tbl (w @ [c]) = {}"
  shows "longestMatch tbl (w @ c # cs) m"
proof -
  have "prefix (nameAt tbl j) (w @ c # cs) \<longleftrightarrow> prefix (nameAt tbl j) w" if "j < tableSize tbl" for j
  proof
    assume p: "prefix (nameAt tbl j) (w @ c # cs)"
    have "\<not> prefix (w @ [c]) (nameAt tbl j)" using assms(2) that by (auto simp: startingWith_def)
    with p have "prefix (nameAt tbl j) (w @ [c]) \<and> nameAt tbl j \<noteq> w @ [c]"
      using prefix_same_cases [of "nameAt tbl j" "w @ c # cs" "w @ [c]"] by auto
    then show "prefix (nameAt tbl j) w" by (auto simp: prefix_snoc)
  qed auto
  with assms(1) show ?thesis by (auto simp: longestMatch_def split: option.splits)
qed

lemma consumeNamedEntity_longest:
  assumes ok: "table_ok tbl" and so: "source_ok s" and ne: "toStringSS s \<noteq> []"
  shows "\<exists>r n. consumeNamedEntity tbl a cc0 s = Some r \<and> moves n s (afterSource r)
    \<and> (success r, decoded r, notEnoughCharacters r, n) = namedReference tbl a (toStringSS s)"
proof -
  have step: "search_at tbl (w @ [c]) (advanceSearch tbl c es)"
    if "search_at tbl w es" "isEntityPrefix (advanceSearch tbl c es)" for w c es
    using advanceSearch_step [OF ok that(1), of c] that(2)
    by (cases "startingWith tbl (w @ [c]) = {}") (auto simp: failSearch_def isEntityPrefix_def)
  obtain m cc es u where
    loop: "searchLoop (Suc (nat (lengthSS s))) tbl [] cc0 (newEntitySearch tbl) s
        = Some (take m (toStringSS s), cc, es, u)"
    and mv: "moves m s u" and len: "search_len tbl m es"
    and e: "isEmpty u \<Longrightarrow> search_at tbl (take m (toStringSS s)) es"
    and n: "\<not> isEmpty u \<Longrightarrow> cc = currentChar u \<and>
       (\<exists>es0. search_at tbl (take m (toStringSS s)) es0 \<and> es = advanceSearch tbl cc es0 \<and> \<not> isEntityPrefix es)"
    using searchLoop_start [of s "search_at tbl" tbl cc0, OF so search_at_new [OF ok] step] by blast
  have all: "startingWith tbl (toStringSS s) \<noteq> {}" if "isEmpty u"
    using e [OF that] ne that moves_isEmpty [OF mv] by (auto simp: search_at_def)
  have lm: "startingWith tbl (toStringSS s) = {}" "longestMatch tbl (toStringSS s) (m_mostRecentMatch es)"
    if "\<not> isEmpty u"
  proof -
    note neu = that
    obtain es0 where es0: "search_at tbl (take m (toStringSS s)) es0" "es = advanceSearch tbl cc es0"
      "\<not> isEntityPrefix es" using n [OF neu] by blast
    from moves_nth [OF mv neu] neu n [OF neu] moves_isEmpty [OF mv] mv
    have cs: "toStringSS s = take m (toStringSS s) @ cc # drop (Suc m) (toStringSS s)"
      by (simp add: moves_def id_take_nth_drop)
    have none: "startingWith tbl (take m (toStringSS s) @ [cc]) = {}"
      using advanceSearch_step(2) [OF ok es0(1)] es0(2,3) by (auto simp: search_at_def)
    then show "startingWith tbl (toStringSS s) = {}"
      using startingWith_append [of tbl "take m (toStringSS s) @ [cc]" "drop (Suc m) (toStringSS s)"] cs by auto
    have "m_mostRecentMatch es = m_mostRecentMatch es0"
      using advanceSearch_step(1) [OF ok es0(1) none] es0(2) by (simp add: failSearch_def)
    moreover have "longestMatch tbl (take m (toStringSS s)) (m_mostRecentMatch es0)"
      using es0(1) by (simp add: search_at_def)
    ultimately show "longestMatch tbl (toStringSS s) (m_mostRecentMatch es)"
      using longestMatch_extend [OF _ none] cs by metis
  qed
  have i: "entityLength (entryAt tbl i) = length (nameAt tbl i)
      \<and> longestName tbl (toStringSS s) (length (toStringSS s)) = Some (entryAt tbl i)"
    if "\<not> isEmpty u" "m_mostRecentMatch es = Some i" "i < tableSize tbl" for i
    using lm(2) [OF that(1)] that(2,3) table_length [OF ok that(3)] longestName_Some [OF ok, of "toStringSS s" i]
    by (auto simp: longestMatch_def dest: prefix_length_le)
  show ?thesis
  proof (rule consumeNamedEntity_cases [OF loop mv len, of a])
    show "cc = currentChar u" if "\<not> isEmpty u" using n [OF that] by blast
  qed (use all lm i longestName_None [of tbl "toStringSS s" "length (toStringSS s)"] in
      \<open>auto simp: namedReference_def list_ex_startingWith\<close>)
qed

text \<open>
  C7: with a sorted and indexed table, a named reference is recognised exactly as a linear
  scan recognises it: more input is requested when the input so far is the beginning of a
  name; otherwise the longest name that the input starts with is decoded and consumed,
  unless it lacks its semicolon in an attribute value and is followed by an alphanumeric or
  an equals sign; in every other case nothing is consumed.
\<close>

theorem named_reference_longest_match:
  assumes "table_ok tbl" and "source_ok s" and "toStringSS s \<noteq> []"
  shows "\<exists>r n. consumeNamedEntity tbl additional cc s = Some r \<and> source_ok (afterSource r)
    \<and> toStringSS (afterSource r) = drop n (toStringSS s)
    \<and> (success r, decoded r, notEnoughCharacters r, n) = namedReference tbl additional (toStringSS s)"
  using consumeNamedEntity_longest [OF assms, of additional cc] unfolding moves_def by blast

theorem named_reference_longest_match_witness:
  "\<exists>r. consumeNamedEntity exampleTable 0 0x61 (segmentedStringOf (WString True (ascii ''ampx''))) = Some r
    \<and> success r \<and> decoded r = [38] \<and> toStringSS (afterSource r) = ascii ''x''"
proof -
  let ?s = "segmentedStringOf (WString True (ascii ''ampx''))"
  have s: "source_ok ?s" "toStringSS ?s = ascii ''ampx''"
    using segmentedStringOf_ok [of "WString True (ascii ''ampx'')"] by (simp_all add: source_ok_def)
  have "namedReference exampleTable 0 (ascii ''ampx'') = (True, [38], False, 3)"
    by code_simp
  with named_reference_longest_match [OF exampleTable_ok s(1), of 0 "0x61"] s(2) show ?thesis
    by (auto simp: ascii_def)
qed



end
