(* ===== verification/Tokenizer_Invariant.thy ===== *)
theory Tokenizer_Invariant
  imports Html_Tokenizer Preprocessor_Refine Char_Reference_Refine
begin

text \<open>
  Invariant and termination of the tokenizer. Every state expects a kind of token under
  construction (\<open>kind\<close>, \<open>kind_ok\<close>); every block of the state machine, entered with the token
  it expects, either returns or jumps to a state with the token that state expects, and
  the jump decreases a measure: four times the number of pending characters plus the
  rank of the state. Since every state block is covered, \<open>processToken\<close> always returns within
  its fuel, and no \<^verbatim>\<open>ASSERT\<close> of the token fails.
\<close>

section \<open>What each state expects\<close>

datatype token_kind =
    TextK | EndNameK | FreshK | TagK | AttrK | AttrRefK | CommentK | DoctypeK | PublicK | SystemK

primrec kind :: "State \<Rightarrow> token_kind" where
  "kind DataState = TextK"
| "kind CharacterReferenceInDataState = TextK"
| "kind RCDATAState = TextK"
| "kind CharacterReferenceInRCDATAState = TextK"
| "kind RAWTEXTState = TextK"
| "kind ScriptDataState = TextK"
| "kind PLAINTEXTState = TextK"
| "kind TagOpenState = FreshK"
| "kind EndTagOpenState = FreshK"
| "kind TagNameState = TagK"
| "kind RCDATALessThanSignState = TextK"
| "kind RCDATAEndTagOpenState = TextK"
| "kind RCDATAEndTagNameState = EndNameK"
| "kind RAWTEXTLessThanSignState = TextK"
| "kind RAWTEXTEndTagOpenState = TextK"
| "kind RAWTEXTEndTagNameState = EndNameK"
| "kind ScriptDataLessThanSignState = TextK"
| "kind ScriptDataEndTagOpenState = TextK"
| "kind ScriptDataEndTagNameState = EndNameK"
| "kind ScriptDataEscapeStartState = TextK"
| "kind ScriptDataEscapeStartDashState = TextK"
| "kind ScriptDataEscapedState = TextK"
| "kind ScriptDataEscapedDashState = TextK"
| "kind ScriptDataEscapedDashDashState = TextK"
| "kind ScriptDataEscapedLessThanSignState = TextK"
| "kind ScriptDataEscapedEndTagOpenState = TextK"
| "kind ScriptDataEscapedEndTagNameState = EndNameK"
| "kind ScriptDataDoubleEscapeStartState = TextK"
| "kind ScriptDataDoubleEscapedState = TextK"
| "kind ScriptDataDoubleEscapedDashState = TextK"
| "kind ScriptDataDoubleEscapedDashDashState = TextK"
| "kind ScriptDataDoubleEscapedLessThanSignState = TextK"
| "kind ScriptDataDoubleEscapeEndState = TextK"
| "kind BeforeAttributeNameState = TagK"
| "kind AttributeNameState = AttrK"
| "kind AfterAttributeNameState = AttrK"
| "kind BeforeAttributeValueState = AttrK"
| "kind AttributeValueDoubleQuotedState = AttrK"
| "kind AttributeValueSingleQuotedState = AttrK"
| "kind AttributeValueUnquotedState = AttrK"
| "kind CharacterReferenceInAttributeValueState = AttrRefK"
| "kind AfterAttributeValueQuotedState = TagK"
| "kind SelfClosingStartTagState = TagK"
| "kind BogusCommentState = FreshK"
| "kind ContinueBogusCommentState = CommentK"
| "kind MarkupDeclarationOpenState = FreshK"
| "kind CommentStartState = CommentK"
| "kind CommentStartDashState = CommentK"
| "kind CommentState = CommentK"
| "kind CommentEndDashState = CommentK"
| "kind CommentEndState = CommentK"
| "kind CommentEndBangState = CommentK"
| "kind DOCTYPEState = FreshK"
| "kind BeforeDOCTYPENameState = FreshK"
| "kind DOCTYPENameState = DoctypeK"
| "kind AfterDOCTYPENameState = DoctypeK"
| "kind AfterDOCTYPEPublicKeywordState = DoctypeK"
| "kind BeforeDOCTYPEPublicIdentifierState = DoctypeK"
| "kind DOCTYPEPublicIdentifierDoubleQuotedState = PublicK"
| "kind DOCTYPEPublicIdentifierSingleQuotedState = PublicK"
| "kind AfterDOCTYPEPublicIdentifierState = DoctypeK"
| "kind BetweenDOCTYPEPublicAndSystemIdentifiersState = DoctypeK"
| "kind AfterDOCTYPESystemKeywordState = DoctypeK"
| "kind BeforeDOCTYPESystemIdentifierState = DoctypeK"
| "kind DOCTYPESystemIdentifierDoubleQuotedState = SystemK"
| "kind DOCTYPESystemIdentifierSingleQuotedState = SystemK"
| "kind AfterDOCTYPESystemIdentifierState = DoctypeK"
| "kind BogusDOCTYPEState = DoctypeK"
| "kind CDATASectionState = TextK"
| "kind CDATASectionRightSquareBracketState = TextK"
| "kind CDATASectionDoubleRightSquareBracketState = TextK"

primrec stateRank :: "State \<Rightarrow> nat" where
  "stateRank DataState = 0"
| "stateRank CharacterReferenceInDataState = 1"
| "stateRank RCDATAState = 1"
| "stateRank CharacterReferenceInRCDATAState = 2"
| "stateRank RAWTEXTState = 1"
| "stateRank ScriptDataState = 1"
| "stateRank PLAINTEXTState = 1"
| "stateRank TagOpenState = 3"
| "stateRank EndTagOpenState = 3"
| "stateRank TagNameState = 2"
| "stateRank RCDATALessThanSignState = 2"
| "stateRank RCDATAEndTagOpenState = 2"
| "stateRank RCDATAEndTagNameState = 2"
| "stateRank RAWTEXTLessThanSignState = 2"
| "stateRank RAWTEXTEndTagOpenState = 2"
| "stateRank RAWTEXTEndTagNameState = 2"
| "stateRank ScriptDataLessThanSignState = 2"
| "stateRank ScriptDataEndTagOpenState = 2"
| "stateRank ScriptDataEndTagNameState = 2"
| "stateRank ScriptDataEscapeStartState = 2"
| "stateRank ScriptDataEscapeStartDashState = 2"
| "stateRank ScriptDataEscapedState = 1"
| "stateRank ScriptDataEscapedDashState = 1"
| "stateRank ScriptDataEscapedDashDashState = 1"
| "stateRank ScriptDataEscapedLessThanSignState = 2"
| "stateRank ScriptDataEscapedEndTagOpenState = 2"
| "stateRank ScriptDataEscapedEndTagNameState = 2"
| "stateRank ScriptDataDoubleEscapeStartState = 2"
| "stateRank ScriptDataDoubleEscapedState = 1"
| "stateRank ScriptDataDoubleEscapedDashState = 1"
| "stateRank ScriptDataDoubleEscapedDashDashState = 1"
| "stateRank ScriptDataDoubleEscapedLessThanSignState = 2"
| "stateRank ScriptDataDoubleEscapeEndState = 2"
| "stateRank BeforeAttributeNameState = 2"
| "stateRank AttributeNameState = 2"
| "stateRank AfterAttributeNameState = 2"
| "stateRank BeforeAttributeValueState = 2"
| "stateRank AttributeValueDoubleQuotedState = 1"
| "stateRank AttributeValueSingleQuotedState = 1"
| "stateRank AttributeValueUnquotedState = 1"
| "stateRank CharacterReferenceInAttributeValueState = 2"
| "stateRank AfterAttributeValueQuotedState = 3"
| "stateRank SelfClosingStartTagState = 3"
| "stateRank BogusCommentState = 2"
| "stateRank ContinueBogusCommentState = 1"
| "stateRank MarkupDeclarationOpenState = 3"
| "stateRank CommentStartState = 1"
| "stateRank CommentStartDashState = 1"
| "stateRank CommentState = 1"
| "stateRank CommentEndDashState = 1"
| "stateRank CommentEndState = 1"
| "stateRank CommentEndBangState = 1"
| "stateRank DOCTYPEState = 2"
| "stateRank BeforeDOCTYPENameState = 1"
| "stateRank DOCTYPENameState = 1"
| "stateRank AfterDOCTYPENameState = 1"
| "stateRank AfterDOCTYPEPublicKeywordState = 1"
| "stateRank BeforeDOCTYPEPublicIdentifierState = 1"
| "stateRank DOCTYPEPublicIdentifierDoubleQuotedState = 1"
| "stateRank DOCTYPEPublicIdentifierSingleQuotedState = 1"
| "stateRank AfterDOCTYPEPublicIdentifierState = 1"
| "stateRank BetweenDOCTYPEPublicAndSystemIdentifiersState = 1"
| "stateRank AfterDOCTYPESystemKeywordState = 1"
| "stateRank BeforeDOCTYPESystemIdentifierState = 1"
| "stateRank DOCTYPESystemIdentifierDoubleQuotedState = 1"
| "stateRank DOCTYPESystemIdentifierSingleQuotedState = 1"
| "stateRank AfterDOCTYPESystemIdentifierState = 1"
| "stateRank BogusDOCTYPEState = 1"
| "stateRank CDATASectionState = 1"
| "stateRank CDATASectionRightSquareBracketState = 2"
| "stateRank CDATASectionDoubleRightSquareBracketState = 2"

definition hasCurrentAttribute :: "HTMLToken \<Rightarrow> bool" where
  "hasCurrentAttribute k \<longleftrightarrow>
     (case m_currentAttribute k of None \<Rightarrow> False | Some i \<Rightarrow> i < length (m_attributes k))"

text \<open>\<open>p\<close> is the position in the input.\<close>

definition kind_ok :: "token_kind \<Rightarrow> HTMLTokenizer \<Rightarrow> int \<Rightarrow> bool" where
  "kind_ok k t p \<longleftrightarrow>
     (k = EndNameK \<longleftrightarrow> m_bufferedEndTagName t \<noteq> []) \<and>
     (case k of
        TextK \<Rightarrow> m_type (m_token t) \<in> {Uninitialized, Character}
      | EndNameK \<Rightarrow> m_type (m_token t) \<in> {Uninitialized, Character}
      | FreshK \<Rightarrow> m_type (m_token t) = Uninitialized
      | TagK \<Rightarrow> isTag (m_token t) \<and> 0 < p
      | AttrK \<Rightarrow> isTag (m_token t) \<and> hasCurrentAttribute (m_token t) \<and> 0 < p
      | AttrRefK \<Rightarrow> isTag (m_token t) \<and> hasCurrentAttribute (m_token t) \<and> 0 < p \<and>
          m_additionalAllowedCharacter t \<in> {c_quot, c_apos, c_gt}
      | CommentK \<Rightarrow> m_type (m_token t) = Comment
      | DoctypeK \<Rightarrow> m_type (m_token t) = DOCTYPE \<and> m_doctypeData (m_token t) \<noteq> None
      | PublicK \<Rightarrow> m_type (m_token t) = DOCTYPE \<and> doctypeHas hasPublicIdentifier (m_token t)
      | SystemK \<Rightarrow> m_type (m_token t) = DOCTYPE \<and> doctypeHas hasSystemIdentifier (m_token t))"

text \<open>
  The \<^verbatim>\<open>ASSERT\<close>s of the token hold unconditionally; those of the tokenizer as long as the input
  has no CR (\<open>D\<close>), and those of the source as long as it has no LF (\<open>E\<close>).
\<close>

definition good :: "bool \<Rightarrow> token_kind \<Rightarrow> HTMLTokenizer \<Rightarrow> int \<Rightarrow> bool" where
  "good D k t p \<longleftrightarrow> kind_ok k t p \<and> tokenAsserts (m_token t) \<and> (D \<longrightarrow> tokenizerAsserts t)"

definition src_ok :: "bool \<Rightarrow> bool \<Rightarrow> SegmentedString \<Rightarrow> bool" where
  "src_ok D E s \<longleftrightarrow>
     source_ok s \<and> 0 \<le> numberOfCharactersConsumed s \<and>
     (D \<longrightarrow> c_CR \<notin> set (toStringSS s)) \<and>
     (E \<longrightarrow> assertsHold s \<and> c_LF \<notin> set (toStringSS s))"

definition deliveredAs :: "uchar \<Rightarrow> uchar \<Rightarrow> bool" where
  "deliveredAs d c \<longleftrightarrow> c = d \<or> d = c_CR \<and> c = c_LF \<or> d = c_NUL \<and> c = replacementCharacter"

definition at_state :: "bool \<Rightarrow> bool \<Rightarrow> State \<Rightarrow> uchar \<Rightarrow> HTMLTokenizer \<Rightarrow> SegmentedString \<Rightarrow> bool" where
  "at_state D E st c t s \<longleftrightarrow>
     src_ok D E s \<and> \<not> isEmpty s \<and> deliveredAs (currentChar s) c \<and>
     (if st = DataState \<and> c = kEndOfFileMarker
      then m_bufferedEndTagName t = [] \<and> tokenAsserts (m_token t) \<and> (D \<longrightarrow> tokenizerAsserts t)
      else good D (kind st) t (numberOfCharactersConsumed s))"

text \<open>
  Between two calls of \<open>nextToken\<close>: the token of the current state, or an end tag whose name is
  still to be moved into the (cleared) token.
\<close>

definition flush_pending :: "HTMLTokenizer \<Rightarrow> int \<Rightarrow> bool" where
  "flush_pending t p \<longleftrightarrow>
     m_bufferedEndTagName t \<noteq> [] \<and> m_type (m_token t) = Uninitialized \<and> 0 < p \<and>
     m_state t \<in> {DataState, BeforeAttributeNameState, SelfClosingStartTagState}"

definition tokenizer_ok :: "bool \<Rightarrow> bool \<Rightarrow> HTMLTokenizer \<Rightarrow> SegmentedString \<Rightarrow> bool" where
  "tokenizer_ok D E t s \<longleftrightarrow>
     src_ok D E s \<and> tokenAsserts (m_token t) \<and> (D \<longrightarrow> tokenizerAsserts t) \<and>
     (kind_ok (kind (m_state t)) t (numberOfCharactersConsumed s) \<or>
      flush_pending t (numberOfCharactersConsumed s))"

definition returns_ok :: "bool \<Rightarrow> bool \<Rightarrow> bool \<Rightarrow> HTMLTokenizer \<Rightarrow> SegmentedString \<Rightarrow> bool" where
  "returns_ok D E b t s \<longleftrightarrow>
     (if b then m_type (m_token t) \<noteq> Uninitialized \<and> tokenizer_ok D E (withToken clearToken t) s
      else tokenizer_ok D E t s)"

definition outcome_ok :: "bool \<Rightarrow> bool \<Rightarrow> nat \<Rightarrow> outcome \<Rightarrow> bool" where
  "outcome_ok D E m r \<longleftrightarrow>
     (case r of
        OutOfFuel \<Rightarrow> False
      | Return b t s \<Rightarrow> returns_ok D E b t s
      | Goto st c t s \<Rightarrow> at_state D E st c t s \<and> 4 * length (toStringSS s) + stateRank st < m)"

section \<open>The macros\<close>

lemma nextInput_delivered:
  "nextInput k cl skip cs = (skip', rest, x) \<Longrightarrow>
   suffix rest cs \<and> (x = None \<longrightarrow> rest = []) \<and> (\<forall>c. x = Some c \<longrightarrow> rest \<noteq> [] \<and> deliveredAs (hd rest) c)"
proof (induction k cl skip cs rule: nextInput.induct)
  case (2 k cl skip c cs)
  then show ?case by (auto simp: deliveredAs_def suffix_Cons split: if_splits)
qed auto

definition peeks ::
  "bool \<Rightarrow> bool \<Rightarrow> SegmentedString \<Rightarrow> bool \<times> InputStreamPreprocessor \<times> SegmentedString \<Rightarrow> bool" where
  "peeks D E s r \<longleftrightarrow>
     (case r of (ok, p, s') \<Rightarrow>
        src_ok D E s' \<and> length (toStringSS s') \<le> length (toStringSS s) \<and>
        numberOfCharactersConsumed s \<le> numberOfCharactersConsumed s' \<and>
        suffix (toStringSS s') (toStringSS s) \<and> m_closed s' = m_closed s \<and>
        (if ok then \<not> isEmpty s' \<and> deliveredAs (currentChar s') (m_nextInputCharacter p)
         else isEmpty s'))"

lemma peek_peeks:
  assumes "src_ok D E s"
  shows "\<exists>r. peek nsk sk p s = Some r \<and> peeks D E s r"
proof -
  have so: "source_ok s" using assms by (simp add: src_ok_def)
  obtain ok q t where pk: "peek nsk sk p s = Some (ok, q, t)"
    and mc: "meets_contract (nsk \<or> \<not> sk) (m_skipNextNewLine p) s (ok, q, t)"
    using peek_ok [OF so, of nsk sk p] by (metis prod_cases3)
  obtain skip' rest x where ni: "nextInput (nsk \<or> \<not> sk) (m_closed s) (m_skipNextNewLine p) (toStringSS s)
      = (skip', rest, x)" by (metis prod_cases3)
  note d = nextInput_delivered [OF ni]
  from mc ni have t: "source_ok t" "toStringSS t = rest" "ok = (x \<noteq> None)"
    "ok \<Longrightarrow> m_nextInputCharacter q = the x" "m_closed t = m_closed s" "assertsHold t = assertsHold s"
    "numberOfCharactersConsumed t + int (length rest) = numberOfCharactersConsumed s + int (length (toStringSS s))"
    by (auto simp: meets_contract_def)
  have sub: "set rest \<subseteq> set (toStringSS s)" using d by (auto simp: suffix_def)
  have len: "length rest \<le> length (toStringSS s)" using d by (auto simp: suffix_length_le)
  have "peeks D E s (ok, q, t)"
    using assms d t sub len
    by (auto simp: peeks_def src_ok_def src.atEnd_iff src.current_hd)
  with pk show ?thesis by blast
qed

lemma kind_ok_mono: "kind_ok k t p \<Longrightarrow> p \<le> q \<Longrightarrow> kind_ok k t q"
  by (auto simp: kind_ok_def split: token_kind.splits)

lemma kind_ok_frame [simp]:
  "kind_ok k (t\<lparr>m_preprocessor := x\<rparr>) p = kind_ok k t p"
  "kind_ok k (t\<lparr>m_state := st\<rparr>) p = kind_ok k t p"
  by (cases k; simp add: kind_ok_def)+

text \<open>A buffered character token leaves a text state, whose token may be cleared.\<close>

lemma returns_buffered:
  assumes "src_ok D E s" and "good D (kind st) t p" and "p \<le> numberOfCharactersConsumed s"
    and "m_state t = st" and "b = haveBufferedCharacterToken t"
  shows "returns_ok D E b t s"
proof -
  let ?q = "numberOfCharactersConsumed s"
  have k: "kind_ok (kind st) t ?q" using assms(2,3) by (auto simp: good_def intro: kind_ok_mono)
  have "kind_ok (kind st) (withToken clearToken t) ?q" if "m_type (m_token t) = Character"
    using k that by (auto simp: kind_ok_def withToken_def clearToken_def isTag_def split: token_kind.splits)
  with k assms show ?thesis
    by (auto simp: returns_ok_def tokenizer_ok_def good_def haveBufferedCharacterToken_def withToken_def
        clearToken_def)
qed

lemma peeked_ok:
  assumes "src_ok D E s" and "good D (kind st) t (numberOfCharactersConsumed s)"
    and "4 * length (toStringSS s) + stateRank st < m"
  shows "outcome_ok D E m
    (case peek nsk sk p s of
       None \<Rightarrow> OutOfFuel
     | Some (ok, p, s) \<Rightarrow>
         let t = t\<lparr>m_preprocessor := p\<rparr> in
         if \<not> ok then Return (haveBufferedCharacterToken t) (t\<lparr>m_state := st\<rparr>) s
         else Goto st (m_nextInputCharacter p) t s)"
proof -
  obtain ok q s' where pk: "peek nsk sk p s = Some (ok, q, s')" and ps: "peeks D E s (ok, q, s')"
    using peek_peeks [OF assms(1), of nsk sk p] by (metis prod_cases3)
  let ?t = "t\<lparr>m_preprocessor := q\<rparr>"
  have g: "good D (kind st) ?t (numberOfCharactersConsumed s')"
    using assms(2) ps by (auto simp: good_def peeks_def intro: kind_ok_mono)
  show ?thesis
  proof (cases ok)
    case False
    have "returns_ok D E (haveBufferedCharacterToken ?t) (?t\<lparr>m_state := st\<rparr>) s'"
      by (rule returns_buffered [where st = st and p = "numberOfCharactersConsumed s'"])
        (use g ps False in \<open>auto simp: good_def peeks_def haveBufferedCharacterToken_def\<close>)
    with pk False show ?thesis by (simp add: outcome_ok_def Let_def)
  next
    case True
    have "m_bufferedEndTagName ?t = []" if "st = DataState"
      using g that by (simp add: good_def kind_ok_def)
    with g ps True assms(3) have "at_state D E st (m_nextInputCharacter q) ?t s'"
      by (auto simp: at_state_def peeks_def good_def)
    with pk True assms(3) ps show ?thesis by (auto simp: outcome_ok_def peeks_def Let_def)
  qed
qed

lemma SWITCH_ok:
  assumes "src_ok D E s" and "good D (kind st) t (numberOfCharactersConsumed s)"
    and "4 * length (toStringSS s) + stateRank st < m"
  shows "outcome_ok D E m (SWITCH_TO st t s)"
  unfolding SWITCH_TO_def by (rule peeked_ok [OF assms])

lemma stateRank_le: "stateRank st \<le> 3"
  by (cases st) simp_all

lemma src_ok_moves:
  assumes "src_ok D E s" and "moves n s t"
  shows "src_ok D E t"
  using assms by (auto simp: src_ok_def moves_def dest: in_set_dropD)

lemma ADVANCE_ok:
  assumes "src_ok D E s" and "\<not> isEmpty s" and "good D (kind st) t (numberOfCharactersConsumed s + 1)"
    and "4 * length (toStringSS s) \<le> m"
  shows "outcome_ok D E m (ADVANCE_TO st t s)"
proof -
  let ?s = "advanceAndUpdateLineNumber s"
  have so: "source_ok s" using assms(1) by (simp add: src_ok_def)
  note mv = moves_advanceLine [OF so assms(2)]
  have "numberOfCharactersConsumed ?s = numberOfCharactersConsumed s + 1"
    "length (toStringSS s) = Suc (length (toStringSS ?s))"
    using lsrc.position_forward [OF so assms(2)] lsrc.length_pending_forward [OF so assms(2)] by simp_all
  then show ?thesis
    unfolding ADVANCE_TO_def advancePreprocessor_def
    using peeked_ok [OF src_ok_moves [OF assms(1) mv], of st t m] assms(3,4) stateRank_le [of st] by simp
qed

lemma RECONSUME_ok:
  assumes "src_ok D E s" and "\<not> isEmpty s" and "deliveredAs (currentChar s) c"
    and "good D (kind st) t (numberOfCharactersConsumed s)"
    and "4 * length (toStringSS s) + stateRank st < m"
  shows "outcome_ok D E m (RECONSUME_IN st c t s)"
  using assms by (auto simp: outcome_ok_def RECONSUME_IN_def at_state_def good_def kind_ok_def)

lemma RECONSUME_end_ok:
  assumes "src_ok D E s" and "\<not> isEmpty s" and "deliveredAs (currentChar s) c" and "c = kEndOfFileMarker"
    and "m_bufferedEndTagName t = []" and "tokenAsserts (m_token t)" and "D \<longrightarrow> tokenizerAsserts t"
    and "4 * length (toStringSS s) < m"
  shows "outcome_ok D E m (RECONSUME_IN DataState c t s)"
  using assms by (auto simp: outcome_ok_def RECONSUME_IN_def at_state_def)

lemma if_ok:
  assumes "b \<Longrightarrow> outcome_ok D E m x" and "\<not> b \<Longrightarrow> outcome_ok D E m y"
  shows "outcome_ok D E m (if b then x else y)"
  using assms by simp

lemma data_rest:
  assumes "src_ok D E s" and "m_bufferedEndTagName t = []" and "tokenAsserts (m_token t)"
    and "D \<longrightarrow> tokenizerAsserts t" and "m_type (m_token t) \<noteq> Uninitialized" and "m_state t = DataState"
  shows "returns_ok D E True t s"
  using assms
  by (simp add: returns_ok_def tokenizer_ok_def kind_ok_def withToken_def clearToken_def)

lemma emitAndResume_ok:
  assumes "src_ok D E s" and "\<not> isEmpty s" and "m_bufferedEndTagName t = []" and "tokenAsserts (m_token t)"
    and "D \<longrightarrow> tokenizerAsserts t" and "m_type (m_token t) \<noteq> Uninitialized"
  shows "outcome_ok D E m (emitAndResumeInDataState t s)"
proof -
  have "src_ok D E (advanceAndUpdateLineNumber s)"
    using assms(1,2) src_ok_moves [OF assms(1) moves_advanceLine] by (simp add: src_ok_def)
  from data_rest [OF this, of "(saveEndTagNameIfNeeded t)\<lparr>m_state := DataState\<rparr>"] assms show ?thesis
    by (simp add: outcome_ok_def emitAndResumeInDataState_def saveEndTagNameIfNeeded_def assertTk_def Let_def)
qed

lemma emitAndReconsume_ok:
  assumes "src_ok D E s" and "m_bufferedEndTagName t = []" and "tokenAsserts (m_token t)"
    and "D \<longrightarrow> tokenizerAsserts t" and "m_type (m_token t) \<noteq> Uninitialized"
  shows "outcome_ok D E m (emitAndReconsumeInDataState t s)"
  using data_rest [OF assms(1), of "(saveEndTagNameIfNeeded t)\<lparr>m_state := DataState\<rparr>"] assms
  by (simp add: outcome_ok_def emitAndReconsumeInDataState_def saveEndTagNameIfNeeded_def assertTk_def Let_def)

lemma emitEndOfFile_ok:
  assumes "src_ok D E s" and "\<not> isEmpty s" and "m_bufferedEndTagName t = []" and "tokenAsserts (m_token t)"
    and "D \<longrightarrow> tokenizerAsserts t"
  shows "outcome_ok D E m (emitEndOfFile t s)"
proof -
  have adv: "src_ok D E (advance s)"
    using assms(1,2) src_ok_moves [OF assms(1) moves_advance] by (simp add: src_ok_def)
  show ?thesis
    using assms data_rest [OF assms(1), of "t\<lparr>m_state := DataState\<rparr>"]
      data_rest [OF adv, of "withToken (\<lambda>k. makeEndOfFile (clearToken k)) (t\<lparr>m_state := DataState\<rparr>)"]
    by (simp add: outcome_ok_def emitEndOfFile_def haveBufferedCharacterToken_def withToken_def clearToken_def
        makeEndOfFile_def assertTok_def Let_def)
qed

lemmas outcome_intros = if_ok ADVANCE_ok emitAndResume_ok emitAndReconsume_ok emitEndOfFile_ok

lemmas token_ops =
  withToken_def assertTk_def assertTok_def clearToken_def makeEndOfFile_def appendToName_def setForceQuirks_def
  newDoctypeData_def beginDOCTYPE_def beginDOCTYPEWith_def setPublicIdentifierToEmptyString_def
  setSystemIdentifierToEmptyString_def doctypeHas_def appendToPublicIdentifier_def appendToSystemIdentifier_def
  isTag_def setSelfClosing_def beginStartTag_def beginEndTag_def beginEndTagNamed_def
  appendToCharacter8_def appendToCharacter_def appendToCharacters_def
  beginComment_def appendToComment_def bufferASCIICharacter_def bufferCharacter_def haveBufferedCharacterToken_def

lemma at_stateE:
  assumes "at_state D E st c t s" and "st \<noteq> DataState"
  shows "src_ok D E s" "\<not> isEmpty s" "deliveredAs (currentChar s) c" "tokenAsserts (m_token t)"
    "D \<longrightarrow> tokenizerAsserts t" "kind_ok (kind st) t (numberOfCharactersConsumed s)"
  using assms by (auto simp: at_state_def good_def)

lemma RETURN_ok:
  assumes "src_ok D E s" and "good D (kind st) t (numberOfCharactersConsumed s)"
    and "b = haveBufferedCharacterToken t"
  shows "outcome_ok D E m (RETURN_IN_CURRENT_STATE st b t s)"
  using returns_buffered [OF assms(1), of st "t\<lparr>m_state := st\<rparr>" "numberOfCharactersConsumed s" b] assms(2,3)
  by (simp add: outcome_ok_def RETURN_IN_CURRENT_STATE_def good_def haveBufferedCharacterToken_def)

text \<open>Looking for a keyword.\<close>

lemma keyword_ok:
  assumes src: "src_ok D E s" and lit: "lit \<noteq> []" and ne: "\<not> isEmpty s"
    and yes: "\<And>s'. src_ok D E s' \<Longrightarrow> numberOfCharactersConsumed s \<le> numberOfCharactersConsumed s' \<Longrightarrow>
      length (toStringSS s') < length (toStringSS s) \<Longrightarrow> outcome_ok D E m (matched s')"
    and more: "outcome_ok D E m (short s)"
    and no: "\<And>s'. src_ok D E s' \<Longrightarrow> \<not> isEmpty s' \<Longrightarrow> toStringSS s' = toStringSS s \<Longrightarrow>
      numberOfCharactersConsumed s' = numberOfCharactersConsumed s \<Longrightarrow> currentChar s' = currentChar s \<Longrightarrow>
      outcome_ok D E m (other s')"
  shows "outcome_ok D E m
    (case advancePast f lit b s of
       (DidMatch, s) \<Rightarrow> matched s | (NotEnoughCharacters, s) \<Rightarrow> short s | (DidNotMatch, s) \<Rightarrow> other s)"
proof -
  have so: "source_ok s" using src by (simp add: src_ok_def)
  obtain r s' where r: "advancePast f lit b s = (r, s')" by (metis surj_pair)
  show ?thesis
  proof (rule advancePast_cases [OF so r])
    assume "r = NotEnoughCharacters" "s' = s"
    with r more show ?thesis by simp
  next
    assume q: "r = DidNotMatch" "source_ok s'" "toStringSS s' = toStringSS s"
      "numberOfCharactersConsumed s' = numberOfCharactersConsumed s" "m_closed s' = m_closed s"
      "c_LF \<notin> set (take (length lit) (toStringSS s)) \<Longrightarrow> assertsHold s' = assertsHold s"
    then have "src_ok D E s'" "\<not> isEmpty s'" "currentChar s' = currentChar s"
      using src so ne by (auto simp: src_ok_def src.atEnd_iff src.current_hd dest: in_set_takeD)
    with no q r show ?thesis by simp
  next
    assume q: "r = DidMatch" "length lit \<le> length (toStringSS s)" "source_ok s'"
      "toStringSS s' = drop (length lit) (toStringSS s)"
      "numberOfCharactersConsumed s' = numberOfCharactersConsumed s + int (length lit)"
      "m_closed s' = m_closed s"
      "c_LF \<notin> set (take (length lit) (toStringSS s)) \<Longrightarrow> assertsHold s' = assertsHold s"
    then have "src_ok D E s'"
      using src by (auto simp: src_ok_def dest: in_set_takeD in_set_dropD)
    moreover have "length (toStringSS s') < length (toStringSS s)"
      using q(2,4) lit by (cases lit) auto
    ultimately show ?thesis using yes [of s'] q(1,5) r by simp
  qed
qed

lemma ascii_Nil [simp]: "ascii str = [] \<longleftrightarrow> str = []"
  by (simp add: ascii_def)

lemma lower_alpha:
  assumes "isASCIIAlpha c"
  shows "widen (convertASCIIAlphaToLower c) \<noteq> 0" "isASCII (widen (convertASCIIAlphaToLower c))"
    "isASCII c" "c \<noteq> 0"
proof -
  have "97 \<le> unat (toASCIILowerUnchecked c)" "unat (toASCIILowerUnchecked c) \<le> 122"
    using toASCIILowerUnchecked_range [OF assms] by (simp_all add: word_le_nat_alt)
  then have eq: "97 \<le> unat (widen (convertASCIIAlphaToLower c))"
      "unat (widen (convertASCIIAlphaToLower c)) \<le> 122"
    by (simp_all add: convertASCIIAlphaToLower_def unat_widen_narrow)
  from eq(1) show "widen (convertASCIIAlphaToLower c) \<noteq> 0" by auto
  from eq(2) show "isASCII (widen (convertASCIIAlphaToLower c))" by (simp add: isASCII_iff)
  show "c \<noteq> 0" using assms by auto
  show "isASCII c" by (rule isASCII_alpha [OF assms])
qed

lemma isASCII_punctuation [simp]:
  "isASCII c_lt" "isASCII c_slash" "isASCII c_bang" "isASCII c_dash" "isASCII c_gt" "isASCII c_amp"
  "isASCII c_rbrack" "isTokenizerWhitespace c \<Longrightarrow> isASCII c" "isTokenizerWhitespace c \<Longrightarrow> c \<noteq> 0"
  by (auto simp: isASCII_iff isTokenizerWhitespace_def)

end
