(* ===== verification/Tokenizer_Blocks.thy ===== *)
theory Tokenizer_Blocks
  imports Tokenizer_Invariant
begin

text \<open>
  Every block of the tokenizer's state machine, entered with the token its state expects,
  returns or jumps to a state with the token that state expects. One lemma per kind of
  state; \<open>stepState_ok\<close> collects them.
\<close>

lemmas comment_blocks =
  onContinueBogusCommentState_def onCommentStartState_def onCommentStartDashState_def onCommentState_def
  onCommentEndDashState_def onCommentEndState_def onCommentEndBangState_def

lemma comment_states_ok:
  assumes "at_state D E st c t s" and "kind st = CommentK"
  shows "outcome_ok D E (4 * length (toStringSS s) + stateRank st) (stepState st env c t s)"
proof -
  have "st \<noteq> DataState" using assms(2) by auto
  note a = at_stateE [OF assms(1) this]
  have k: "m_bufferedEndTagName t = []" "m_type (m_token t) = Comment"
    using a(6) assms(2) by (auto simp: kind_ok_def)
  note a' = a(1-5) k
  show ?thesis
    using assms(2)
    by (cases st; simp only: kind.simps token_kind.distinct stepState.simps comment_blocks)
      (intro outcome_intros; simp add: good_def kind_ok_def token_ops a')+
qed

lemmas doctype_blocks =
  onDOCTYPENameState_def onAfterDOCTYPENameState_def onAfterDOCTYPEPublicKeywordState_def
  onBeforeDOCTYPEPublicIdentifierState_def onDOCTYPEPublicIdentifierDoubleQuotedState_def
  onDOCTYPEPublicIdentifierSingleQuotedState_def onAfterDOCTYPEPublicIdentifierState_def
  onBetweenDOCTYPEPublicAndSystemIdentifiersState_def onAfterDOCTYPESystemKeywordState_def
  onBeforeDOCTYPESystemIdentifierState_def onDOCTYPESystemIdentifierDoubleQuotedState_def
  onDOCTYPESystemIdentifierSingleQuotedState_def onAfterDOCTYPESystemIdentifierState_def onBogusDOCTYPEState_def

lemma doctype_states_ok:
  assumes "at_state D E st c t s" and "kind st \<in> {DoctypeK, PublicK, SystemK}"
  shows "outcome_ok D E (4 * length (toStringSS s) + stateRank st) (stepState st env c t s)"
proof -
  have "st \<noteq> DataState" using assms(2) by auto
  note a = at_stateE [OF assms(1) this]
  obtain d where d: "m_doctypeData (m_token t) = Some d" "m_type (m_token t) = DOCTYPE" "m_bufferedEndTagName t = []"
    "kind st = PublicK \<Longrightarrow> hasPublicIdentifier d" "kind st = SystemK \<Longrightarrow> hasSystemIdentifier d"
    using a(6) assms(2) by (auto simp: kind_ok_def doctypeHas_def split: option.splits)
  note a' = a(1-5) d(1-3)
  show ?thesis
    using assms(2) d(4,5)
    by (cases st; simp only: kind.simps token_kind.distinct insert_iff empty_iff simp_thms stepState.simps doctype_blocks)
      (intro outcome_intros keyword_ok SWITCH_ok RETURN_ok; simp add: good_def kind_ok_def token_ops a')+
qed

lemmas fresh_blocks =
  onTagOpenState_def onEndTagOpenState_def onMarkupDeclarationOpenState_def onBogusCommentState_def
  onDOCTYPEState_def onBeforeDOCTYPENameState_def

lemma fresh_states_ok:
  assumes "at_state D E st c t s" and "kind st = FreshK"
  shows "outcome_ok D E (4 * length (toStringSS s) + stateRank st) (stepState st env c t s)"
proof -
  have "st \<noteq> DataState" using assms(2) by auto
  note a = at_stateE [OF assms(1) this]
  have k: "m_bufferedEndTagName t = []" "m_type (m_token t) = Uninitialized" "0 \<le> numberOfCharactersConsumed s"
    using a(1,6) assms(2) by (auto simp: kind_ok_def src_ok_def)
  note a' = a(1,2,4,5) k
  show ?thesis
    using assms(2) a(3)
    by (cases st; simp only: kind.simps token_kind.distinct stepState.simps fresh_blocks)
      (intro outcome_intros keyword_ok SWITCH_ok RETURN_ok RECONSUME_ok;
       simp add: good_def kind_ok_def token_ops lower_alpha a')+
qed

lemmas tag_blocks =
  onTagNameState_def onBeforeAttributeNameState_def onAfterAttributeValueQuotedState_def
  onSelfClosingStartTagState_def onAttributeNameState_def onAfterAttributeNameState_def
  onBeforeAttributeValueState_def onAttributeValueDoubleQuotedState_def
  onAttributeValueSingleQuotedState_def onAttributeValueUnquotedState_def

lemmas attribute_ops =
  beginAttribute_def updateCurrentAttribute_def endAttribute_def appendToAttributeName_def
  appendToAttributeValue_def hasCurrentAttribute_def

lemma tag_states_ok:
  assumes "at_state D E st c t s" and "kind st = TagK"
  shows "outcome_ok D E (4 * length (toStringSS s) + stateRank st) (stepState st env c t s)"
proof -
  have "st \<noteq> DataState" using assms(2) by auto
  note a = at_stateE [OF assms(1) this]
  have k: "m_bufferedEndTagName t = []" "m_type (m_token t) = StartTag \<or> m_type (m_token t) = EndTag"
    "m_type (m_token t) = StartTag \<or> m_type (m_token t) = EndTag \<or> m_type (m_token t) = DOCTYPE"
    "0 < numberOfCharactersConsumed s" "0 \<le> numberOfCharactersConsumed s" "numberOfCharactersConsumed s \<noteq> 0"
    "m_type (m_token t) \<noteq> Uninitialized"
    using a(6) assms(2) by (auto simp: kind_ok_def isTag_def)
  note a' = a(1,2,4,5) k
  show ?thesis
    using assms(2) a(3)
    by (cases st; simp only: kind.simps token_kind.distinct stepState.simps tag_blocks)
      (intro outcome_intros RECONSUME_end_ok RECONSUME_ok;
       simp add: good_def kind_ok_def token_ops attribute_ops a')+
qed

lemma attribute_states_ok:
  assumes "at_state D E st c t s" and "kind st = AttrK"
  shows "outcome_ok D E (4 * length (toStringSS s) + stateRank st) (stepState st env c t s)"
proof -
  have "st \<noteq> DataState" using assms(2) by auto
  note a = at_stateE [OF assms(1) this]
  have k: "m_bufferedEndTagName t = []" "m_type (m_token t) = StartTag \<or> m_type (m_token t) = EndTag"
    "m_type (m_token t) = StartTag \<or> m_type (m_token t) = EndTag \<or> m_type (m_token t) = DOCTYPE"
    "0 < numberOfCharactersConsumed s" "0 \<le> numberOfCharactersConsumed s" "numberOfCharactersConsumed s \<noteq> 0"
    "m_type (m_token t) \<noteq> Uninitialized"
    using a(6) assms(2) by (auto simp: kind_ok_def isTag_def)
  obtain i where i: "m_currentAttribute (m_token t) = Some i" "i < length (m_attributes (m_token t))"
    using a(6) assms(2) by (auto simp: kind_ok_def hasCurrentAttribute_def split: option.splits)
  note a' = a(1,2,4,5) k i
  show ?thesis
    using assms(2) a(3)
    by (cases st; simp only: kind.simps token_kind.distinct stepState.simps tag_blocks)
      (intro outcome_intros RECONSUME_end_ok RECONSUME_ok;
       simp add: good_def kind_ok_def token_ops attribute_ops a')+
qed

section \<open>Character references\<close>

definition env_ok :: "html_env \<Rightarrow> bool" where
  "env_ok env \<longleftrightarrow> (\<forall>e\<in>set (staticEntityTable (entityTable env)). 0 \<notin> set (decodeEntity e))"

lemma fold_appendToAttributeValue:
  assumes "hasCurrentAttribute k" and "isTag k" and "0 \<notin> set cs"
  shows "m_type (fold appendToAttributeValue cs k) = m_type k \<and>
    hasCurrentAttribute (fold appendToAttributeValue cs k) \<and>
    tokenAsserts (fold appendToAttributeValue cs k) = tokenAsserts k"
  using assms
proof (induction cs arbitrary: k)
  case (Cons c cs)
  obtain i where i: "m_currentAttribute k = Some i" "i < length (m_attributes k)"
    using Cons.prems(1) by (auto simp: hasCurrentAttribute_def split: option.splits)
  have "hasCurrentAttribute (appendToAttributeValue c k)" "isTag (appendToAttributeValue c k)"
    "m_type (appendToAttributeValue c k) = m_type k"
    "tokenAsserts (appendToAttributeValue c k) = tokenAsserts k"
    using Cons.prems i by (auto simp: attribute_ops token_ops)
  with Cons.IH [of "appendToAttributeValue c k"] Cons.prems(3) show ?case by simp
qed auto

lemma fold_bufferCharacter:
  assumes "m_type (m_token t) \<in> {Uninitialized, Character}" and "0 \<notin> set cs"
  shows "m_type (m_token (fold bufferCharacter cs t)) \<in> {Uninitialized, Character} \<and>
    tokenAsserts (m_token (fold bufferCharacter cs t)) = tokenAsserts (m_token t) \<and>
    tokenizerAsserts (fold bufferCharacter cs t) = tokenizerAsserts t \<and>
    m_bufferedEndTagName (fold bufferCharacter cs t) = m_bufferedEndTagName t"
  using assms
proof (induction cs arbitrary: t)
  case (Cons c cs)
  have "m_type (m_token (bufferCharacter c t)) \<in> {Uninitialized, Character}"
    "tokenAsserts (m_token (bufferCharacter c t)) = tokenAsserts (m_token t)"
    "tokenizerAsserts (bufferCharacter c t) = tokenizerAsserts t"
    "m_bufferedEndTagName (bufferCharacter c t) = m_bufferedEndTagName t"
    using Cons.prems by (auto simp: token_ops)
  with Cons.IH [of "bufferCharacter c t"] Cons.prems(2) show ?case by simp
qed auto

lemma reference_moves:
  assumes "src_ok D E s" and "env_ok env"
  obtains r where "consumeHTMLEntity (entityTable env) a s = Some r" "src_ok D E (afterSource r)"
    "length (toStringSS (afterSource r)) \<le> length (toStringSS s)"
    "numberOfCharactersConsumed s \<le> numberOfCharactersConsumed (afterSource r)"
    "0 \<notin> set (decoded r)" "\<not> success r \<Longrightarrow> decoded r = []"
proof -
  have "source_ok s" using assms(1) by (simp add: src_ok_def)
  from consumeHTMLEntity_ok [OF this] obtain r n where
    r: "consumeHTMLEntity (entityTable env) a s = Some r" "moves n s (afterSource r)"
      "0 \<notin> set (decoded r)" "\<not> success r \<Longrightarrow> decoded r = []"
    using assms(2) unfolding reference_ok_def env_ok_def by blast
  from that [OF r(1) src_ok_moves [OF assms(1) r(2)]] r show thesis by (auto simp: moves_def)
qed

lemma processEntity_ok:
  assumes "src_ok D E s" and "env_ok env" and "good D TextK t p"
  shows "\<exists>ok t' s'. processEntity env t s = Some (ok, t', s') \<and> src_ok D E s' \<and>
    length (toStringSS s') \<le> length (toStringSS s) \<and> (\<forall>q. good D TextK t' q)"
proof -
  obtain r where r: "consumeHTMLEntity (entityTable env) 0 s = Some r" "src_ok D E (afterSource r)"
    "length (toStringSS (afterSource r)) \<le> length (toStringSS s)" "0 \<notin> set (decoded r)"
    by (rule reference_moves [OF assms(1,2)])
  have t: "m_type (m_token t) \<in> {Uninitialized, Character}" "m_bufferedEndTagName t = []"
    "tokenAsserts (m_token t)" "D \<longrightarrow> tokenizerAsserts t"
    using assms(3) by (auto simp: good_def kind_ok_def)
  have "good D TextK t q" "good D TextK (bufferASCIICharacter c_amp t) q"
    "good D TextK (fold bufferCharacter (decoded r) t) q" for q
    using t fold_bufferCharacter [OF t(1) r(4)] by (auto simp: good_def kind_ok_def token_ops)
  with r show ?thesis
    by (cases "notEnoughCharacters r"; cases "success r") (auto simp: processEntity_def)
qed

lemma reference_text_ok:
  assumes "at_state D E st c t s" and "env_ok env"
    and "st = CharacterReferenceInDataState \<or> st = CharacterReferenceInRCDATAState"
  shows "outcome_ok D E (4 * length (toStringSS s) + stateRank st) (stepState st env c t s)"
proof -
  have "st \<noteq> DataState" "kind st = TextK" using assms(3) by auto
  note a = at_stateE [OF assms(1) this(1), unfolded this(2)]
  have "good D TextK t (numberOfCharactersConsumed s)" using a by (simp add: good_def)
  from processEntity_ok [OF a(1) assms(2) this]
  obtain ok t' s' where p: "processEntity env t s = Some (ok, t', s')" "src_ok D E s'"
    "length (toStringSS s') \<le> length (toStringSS s)" "\<And>q. good D TextK t' q" by blast
  show ?thesis
    using assms(3) p
    by (auto simp: onCharacterReferenceInDataState_def onCharacterReferenceInRCDATAState_def
        intro!: SWITCH_ok RETURN_ok)
qed

lemma reference_attribute_ok:
  assumes "at_state D E CharacterReferenceInAttributeValueState c t s" and "env_ok env"
  shows "outcome_ok D E (4 * length (toStringSS s) + stateRank CharacterReferenceInAttributeValueState)
    (onCharacterReferenceInAttributeValueState env t s)"
proof -
  note a = at_stateE [OF assms(1)]
  have k: "m_bufferedEndTagName t = []" "isTag (m_token t)" "hasCurrentAttribute (m_token t)"
    "0 < numberOfCharactersConsumed s" "m_additionalAllowedCharacter t \<in> {c_quot, c_apos, c_gt}"
    using a(6) by (auto simp: kind_ok_def)
  obtain r where r: "consumeHTMLEntity (entityTable env) (m_additionalAllowedCharacter t) s = Some r"
    "src_ok D E (afterSource r)" "length (toStringSS (afterSource r)) \<le> length (toStringSS s)"
    "numberOfCharactersConsumed s \<le> numberOfCharactersConsumed (afterSource r)"
    "0 \<notin> set (decoded r)" "\<not> success r \<Longrightarrow> decoded r = []"
    using reference_moves [OF a(1) assms(2)] by blast
  define u where "u = (if \<not> success r
      then withToken (appendToAttributeValue c_amp) (assertTk (decoded r = []) t)
      else withToken (fold appendToAttributeValue (decoded r)) t)"
  have f: "fold appendToAttributeValue [c_amp] (m_token t) = appendToAttributeValue c_amp (m_token t)" by simp
  have u: "m_bufferedEndTagName u = []" "isTag (m_token u)" "hasCurrentAttribute (m_token u)"
    "tokenAsserts (m_token u)" "D \<longrightarrow> tokenizerAsserts u"
    "m_additionalAllowedCharacter u = m_additionalAllowedCharacter t"
    using k a(4,5) r(6) fold_appendToAttributeValue [OF k(3,2) r(5)]
      fold_appendToAttributeValue [OF k(3,2), of "[c_amp]"]
    by (auto simp: u_def withToken_def assertTk_def isTag_def)
  have "good D AttrK u (numberOfCharactersConsumed (afterSource r))"
    "good D AttrRefK t (numberOfCharactersConsumed (afterSource r))"
    "good D AttrK (assertTk (m_additionalAllowedCharacter u = c_gt) u) (numberOfCharactersConsumed (afterSource r))"
    if "m_additionalAllowedCharacter t \<noteq> c_quot" "m_additionalAllowedCharacter t \<noteq> c_apos"
    using u k a(4,5) r(4) that by (auto simp: good_def kind_ok_def assertTk_def)
  moreover have "good D AttrK u (numberOfCharactersConsumed (afterSource r))"
    "good D AttrRefK t (numberOfCharactersConsumed (afterSource r))"
    using u k a(4,5) r(4) by (auto simp: good_def kind_ok_def)
  moreover have "onCharacterReferenceInAttributeValueState env t s =
      (if notEnoughCharacters r
       then RETURN_IN_CURRENT_STATE CharacterReferenceInAttributeValueState
              (haveBufferedCharacterToken t) t (afterSource r)
       else if m_additionalAllowedCharacter u = c_quot then SWITCH_TO AttributeValueDoubleQuotedState u (afterSource r)
       else if m_additionalAllowedCharacter u = c_apos then SWITCH_TO AttributeValueSingleQuotedState u (afterSource r)
       else SWITCH_TO AttributeValueUnquotedState
              (assertTk (m_additionalAllowedCharacter u = c_gt) u) (afterSource r))"
    using r(1) by (simp add: onCharacterReferenceInAttributeValueState_def Let_def u_def)
  ultimately show ?thesis
    using r(2,3) u(6) by (auto intro!: SWITCH_ok RETURN_ok)
qed

section \<open>Text\<close>

lemma on_Data:
  assumes "at_state D E DataState c t s"
  shows "outcome_ok D E (4 * length (toStringSS s) + stateRank DataState) (onDataState c t s)"
proof -
  have a: "src_ok D E s" "\<not> isEmpty s" "m_bufferedEndTagName t = []" "tokenAsserts (m_token t)"
    "D \<longrightarrow> tokenizerAsserts t" and k: "c \<noteq> kEndOfFileMarker \<Longrightarrow> m_type (m_token t) \<in> {Uninitialized, Character}"
    using assms by (auto simp: at_state_def good_def kind_ok_def split: if_splits)
  have "outcome_ok D E m (RETURN_IN_CURRENT_STATE DataState True t s)" if "haveBufferedCharacterToken t" for m
    using a that data_rest [OF a(1), of "t\<lparr>m_state := DataState\<rparr>"]
    by (simp add: outcome_ok_def RETURN_IN_CURRENT_STATE_def haveBufferedCharacterToken_def)
  then show ?thesis
    unfolding onDataState_def using k
    by (intro outcome_intros; auto simp add: good_def kind_ok_def token_ops a)
qed

lemmas text_blocks =
  onRCDATAState_def onRAWTEXTState_def onScriptDataState_def onPLAINTEXTState_def
  onRCDATALessThanSignState_def onRCDATAEndTagOpenState_def onRAWTEXTLessThanSignState_def
  onRAWTEXTEndTagOpenState_def onScriptDataLessThanSignState_def onScriptDataEndTagOpenState_def
  onScriptDataEscapeStartState_def onScriptDataEscapeStartDashState_def onScriptDataEscapedState_def
  onScriptDataEscapedDashState_def onScriptDataEscapedDashDashState_def onScriptDataEscapedLessThanSignState_def
  onScriptDataEscapedEndTagOpenState_def onScriptDataDoubleEscapeStartState_def onScriptDataDoubleEscapedState_def
  onScriptDataDoubleEscapedDashState_def onScriptDataDoubleEscapedDashDashState_def
  onScriptDataDoubleEscapedLessThanSignState_def onScriptDataDoubleEscapeEndState_def
  onCDATASectionState_def onCDATASectionRightSquareBracketState_def onCDATASectionDoubleRightSquareBracketState_def
  lessThanSignBlock_def endTagOpenBlock_def

lemma delimiter_ascii:
  "isTokenizerWhitespace c \<or> c = c_slash \<or> c = c_gt \<Longrightarrow> c \<noteq> 0"
  "isTokenizerWhitespace c \<or> c = c_slash \<or> c = c_gt \<Longrightarrow> isASCII c"
  by (auto simp: isTokenizerWhitespace_def isASCII_iff)

lemma text_states_ok:
  assumes "at_state D E st c t s" and "kind st = TextK"
    and "st \<notin> {DataState, CharacterReferenceInDataState, CharacterReferenceInRCDATAState}"
  shows "outcome_ok D E (4 * length (toStringSS s) + stateRank st) (stepState st env c t s)"
proof -
  have "st \<noteq> DataState" using assms(3) by auto
  note a = at_stateE [OF assms(1) this]
  have k: "m_bufferedEndTagName t = []" "m_type (m_token t) = Uninitialized \<or> m_type (m_token t) = Character"
    using a(6) assms(2) by (auto simp: kind_ok_def)
  note a' = a(1,2,4,5) k
  show ?thesis
    using assms(2,3) a(3)
    by (cases st; simp only: kind.simps token_kind.distinct insert_iff empty_iff simp_thms stepState.simps
          text_blocks Let_def)
      (intro outcome_intros RECONSUME_ok;
       simp add: good_def kind_ok_def token_ops appendToTemporaryBuffer_def appendToPossibleEndTag_def
         lower_alpha delimiter_ascii a')+
qed

section \<open>Committing to an end tag\<close>

lemma delivered_current:
  assumes "src_ok D E s" and "\<not> isEmpty s" and "deliveredAs (currentChar s) c" and "D" and "c \<noteq> replacementCharacter"
  shows "currentChar s = c"
proof -
  have "currentChar s \<in> set (toStringSS s)"
    using assms(1,2) by (auto simp: src_ok_def src.atEnd_iff src.current_hd)
  with assms show ?thesis by (auto simp: src_ok_def deliveredAs_def)
qed

lemma flush_returns_ok:
  assumes "src_ok D E s" and "0 < numberOfCharactersConsumed s" and "m_bufferedEndTagName t \<noteq> []"
    and "m_type (m_token t) = Character" and "tokenAsserts (m_token t)" and "D \<longrightarrow> tokenizerAsserts t"
    and "m_state t \<in> {DataState, BeforeAttributeNameState, SelfClosingStartTagState}"
  shows "returns_ok D E True t s"
  using assms by (auto simp: returns_ok_def tokenizer_ok_def flush_pending_def withToken_def clearToken_def)

lemma advanced_source:
  assumes "src_ok D E s" and "\<not> isEmpty s"
  shows "src_ok D E (advanceAndUpdateLineNumber s)" "src_ok D E (advance s)"
    "0 < numberOfCharactersConsumed (advanceAndUpdateLineNumber s)" "0 < numberOfCharactersConsumed (advance s)"
    "length (toStringSS s) = Suc (length (toStringSS (advanceAndUpdateLineNumber s)))"
proof -
  have so: "source_ok s" "0 \<le> numberOfCharactersConsumed s" using assms(1) by (simp_all add: src_ok_def)
  show "src_ok D E (advanceAndUpdateLineNumber s)" "src_ok D E (advance s)"
    using src_ok_moves [OF assms(1)] moves_advanceLine [OF so(1) assms(2)] moves_advance [OF so(1) assms(2)] by auto
  show "0 < numberOfCharactersConsumed (advanceAndUpdateLineNumber s)" "0 < numberOfCharactersConsumed (advance s)"
    using src.position_forward [OF so(1) assms(2)] lsrc.position_forward [OF so(1) assms(2)] so(2) by auto
  show "length (toStringSS s) = Suc (length (toStringSS (advanceAndUpdateLineNumber s)))"
    by (rule lsrc.length_pending_forward [OF so(1) assms(2)])
qed

lemma commitPartial_ok:
  assumes src: "src_ok D E s" "\<not> isEmpty s" "deliveredAs (currentChar s) c" and g: "good D EndNameK t p"
    and c: "isTokenizerWhitespace c \<or> c = c_slash"
    and st: "st = BeforeAttributeNameState \<or> st = SelfClosingStartTagState"
  shows "outcome_ok D E (4 * length (toStringSS s)) (commitPartial st c t s)"
proof -
  let ?s = "advanceAndUpdateLineNumber s"
  define u where "u = appendToTemporaryBuffer c (assertTk (currentChar s = c) t)"
  have cur: "currentChar s = c" if D
    using delivered_current [OF src that] c by (auto simp: isTokenizerWhitespace_def)
  have u: "m_bufferedEndTagName u \<noteq> []" "m_token u = m_token t" "D \<longrightarrow> tokenizerAsserts u"
    "m_type (m_token t) \<in> {Uninitialized, Character}" "tokenAsserts (m_token t)"
    using g c cur by (auto simp: u_def good_def kind_ok_def appendToTemporaryBuffer_def assertTk_def)
  note adv = advanced_source [OF src(1,2)]
  have eq: "commitPartial st c t s =
      (if haveBufferedCharacterToken u then Return True (u\<lparr>m_state := st\<rparr>) ?s
       else SWITCH_TO st (flushBufferedEndTag u) ?s)"
    by (simp add: commitPartial_def commitToPartialEndTag_def Let_def u_def)
  show ?thesis
  proof (cases "haveBufferedCharacterToken u")
    case True
    then have "returns_ok D E True (u\<lparr>m_state := st\<rparr>) ?s"
      using flush_returns_ok [OF adv(1,3), of "u\<lparr>m_state := st\<rparr>"] u st by (auto simp: haveBufferedCharacterToken_def)
    with True eq show ?thesis by (simp add: outcome_ok_def)
  next
    case False
    have "good D (kind st) (flushBufferedEndTag u) (numberOfCharactersConsumed ?s)"
      using u st adv(3) False by (auto simp: good_def kind_ok_def flushBufferedEndTag_def token_ops)
    with False eq adv(5) st show ?thesis by (auto intro!: SWITCH_ok adv)
  qed
qed

lemma commitComplete_ok:
  assumes src: "src_ok D E s" "\<not> isEmpty s" "deliveredAs (currentChar s) c_gt" and g: "good D EndNameK t p"
  shows "outcome_ok D E m (commitToCompleteEndTag t s)"
proof -
  define u where "u = (appendToTemporaryBuffer c_gt (assertTk (currentChar s = c_gt) t))\<lparr>m_state := DataState\<rparr>"
  have cur: "currentChar s = c_gt" if D
    using delivered_current [OF src that] by auto
  have u: "m_bufferedEndTagName u \<noteq> []" "m_token u = m_token t" "D \<longrightarrow> tokenizerAsserts u" "m_state u = DataState"
    "m_type (m_token t) \<in> {Uninitialized, Character}" "tokenAsserts (m_token t)"
    using g cur by (auto simp: u_def good_def kind_ok_def appendToTemporaryBuffer_def assertTk_def)
  note adv = advanced_source [OF src(1,2)]
  have eq: "commitToCompleteEndTag t s =
      (if haveBufferedCharacterToken u then Return True u (advance s)
       else Return True (flushBufferedEndTag u) (advance s))"
    by (simp add: commitToCompleteEndTag_def Let_def u_def)
  show ?thesis
  proof (cases "haveBufferedCharacterToken u")
    case True
    then have "returns_ok D E True u (advance s)"
      using flush_returns_ok [OF adv(2,4), of u] u by (auto simp: haveBufferedCharacterToken_def)
    with True eq show ?thesis by (simp add: outcome_ok_def)
  next
    case False
    have "returns_ok D E True (flushBufferedEndTag u) (advance s)"
      by (rule data_rest) (use adv u False in \<open>auto simp: flushBufferedEndTag_def token_ops\<close>)
    with False eq show ?thesis by (simp add: outcome_ok_def)
  qed
qed

lemma endTagNameBlock_ok:
  assumes src: "src_ok D E s" "\<not> isEmpty s" "deliveredAs (currentChar s) c"
    and g: "good D EndNameK t (numberOfCharactersConsumed s)"
    and k: "kind self = EndNameK" "kind text = TextK" "stateRank text < 2"
  shows "outcome_ok D E (4 * length (toStringSS s) + 2) (endTagNameBlock self text c t s)"
proof -
  have t: "m_bufferedEndTagName t \<noteq> []" "tokenAsserts (m_token t)" "D \<longrightarrow> tokenizerAsserts t"
    "m_type (m_token t) = Uninitialized \<or> m_type (m_token t) = Character"
    using g by (auto simp: good_def kind_ok_def)
  have more: "outcome_ok D E m x \<Longrightarrow> m \<le> n \<Longrightarrow> outcome_ok D E n x" for m n x
    by (auto simp: outcome_ok_def split: outcome.splits)
  show ?thesis
    unfolding endTagNameBlock_def Let_def using src(3)
    by (intro outcome_intros RECONSUME_ok more [OF commitPartial_ok [OF src(1,2) _ g]]
          commitComplete_ok [OF src(1,2) _ g];
        simp add: good_def kind_ok_def token_ops appendToTemporaryBuffer_def appendToPossibleEndTag_def
          lower_alpha k src(1,2) t)
qed

lemma endTagName_states_ok:
  assumes "at_state D E st c t s" and "kind st = EndNameK"
  shows "outcome_ok D E (4 * length (toStringSS s) + stateRank st) (stepState st env c t s)"
proof -
  have "st \<noteq> DataState" using assms(2) by auto
  note a = at_stateE [OF assms(1) this]
  have g: "good D EndNameK t (numberOfCharactersConsumed s)" using a assms(2) by (simp add: good_def)
  note b = endTagNameBlock_ok [OF a(1-3) g]
  show ?thesis
    using assms(2)
    by (cases st; simp only: kind.simps token_kind.distinct stepState.simps stateRank.simps
          onRCDATAEndTagNameState_def onRAWTEXTEndTagNameState_def onScriptDataEndTagNameState_def
          onScriptDataEscapedEndTagNameState_def) (rule b; simp)+
qed

section \<open>The machine\<close>

theorem stepState_ok:
  assumes "at_state D E st c t s" and "env_ok env"
  shows "outcome_ok D E (4 * length (toStringSS s) + stateRank st) (stepState st env c t s)"
proof (cases "kind st")
  case TextK
  show ?thesis
  proof (cases "st \<in> {DataState, CharacterReferenceInDataState, CharacterReferenceInRCDATAState}")
    case True
    then show ?thesis using on_Data reference_text_ok [OF assms] assms(1) by auto
  next
    case False
    then show ?thesis by (rule text_states_ok [OF assms(1) TextK])
  qed
next
  case AttrRefK
  then have "st = CharacterReferenceInAttributeValueState" by (cases st) auto
  with reference_attribute_ok assms show ?thesis by auto
qed (auto intro: endTagName_states_ok fresh_states_ok tag_states_ok attribute_states_ok comment_states_ok
    doctype_states_ok assms(1))

lemma runStates_ok:
  assumes "at_state D E st c t s" and "env_ok env" and "4 * length (toStringSS s) + stateRank st < fuel"
  shows "\<exists>b t' s'. runStates fuel env st c t s = Some (b, t', s') \<and> returns_ok D E b t' s'"
  using assms(1,3)
proof (induction fuel arbitrary: st c t s)
  case (Suc fuel)
  note o = stepState_ok [OF Suc.prems(1) assms(2)]
  show ?case
  proof (cases "stepState st env c t s")
    case (Goto st' c' t' s')
    with o have "at_state D E st' c' t' s'" "4 * length (toStringSS s') + stateRank st' < fuel"
      using Suc.prems(2) by (auto simp: outcome_ok_def)
    from Suc.IH [OF this] Goto show ?thesis by simp
  qed (use o in \<open>auto simp: outcome_ok_def\<close>)
qed simp

lemma flush_ok:
  assumes "tokenizer_ok D E t s" and "flush_pending t (numberOfCharactersConsumed s)"
  shows "m_state t = DataState \<Longrightarrow> returns_ok D E True (flushBufferedEndTag t) s"
    and "m_state t \<noteq> DataState \<Longrightarrow> good D (kind (m_state t)) (flushBufferedEndTag t) (numberOfCharactersConsumed s)"
proof -
  have a: "src_ok D E s" "tokenAsserts (m_token t)" "D \<longrightarrow> tokenizerAsserts t"
    using assms(1) by (auto simp: tokenizer_ok_def)
  show "returns_ok D E True (flushBufferedEndTag t) s" if "m_state t = DataState"
    by (rule data_rest) (use a that assms(2) in \<open>auto simp: flushBufferedEndTag_def token_ops flush_pending_def\<close>)
  show "good D (kind (m_state t)) (flushBufferedEndTag t) (numberOfCharactersConsumed s)" if "m_state t \<noteq> DataState"
    using a that assms(2) by (auto simp: good_def kind_ok_def flushBufferedEndTag_def token_ops flush_pending_def)
qed

lemma buffering_EndName: "kind st = EndNameK \<Longrightarrow> inEndTagBufferingState t = True" if "m_state t = st"
  using that by (cases st) (auto simp: inEndTagBufferingState_def)

end
