(* ===== verification/Tokenizer_Session.thy ===== *)
theory Tokenizer_Session
  imports Tokenizer_Blocks
begin

text \<open>
  The tokenizer as its client sees it. \<open>session\<close> is the reachability relation of a tokenizer and
  its source under the client's moves: more input arrives, the end of the file is marked,
  the next token is asked for and released, and between two tokens the tree builder may switch
  the tokenizer to another text state. The invariant \<open>tokenizer_ok\<close> holds in every
  session, and with it every call of \<open>nextToken\<close> returns.
\<close>

section \<open>One call\<close>

lemma processToken_tail:
  "(case peek (m_forceNullCharacterReplacement t) (isNullCharacterSkippingState (m_state t))
       (m_preprocessor t) s of
      None \<Rightarrow> None
    | Some (ok, p, s) \<Rightarrow>
        let t = t\<lparr>m_preprocessor := p\<rparr> in
        if \<not> ok then Some (haveBufferedCharacterToken t, t, s)
        else runStates (tokenFuel s) env (m_state t) (m_nextInputCharacter p) t s) =
   (case SWITCH_TO (m_state t) t s of
      Return b t s \<Rightarrow> Some (b, t, s)
    | Goto st c t s \<Rightarrow> runStates (tokenFuel s) env st c t s
    | OutOfFuel \<Rightarrow> None)"
  by (auto simp: SWITCH_TO_def Let_def split: option.splits)

lemma switched_ok:
  assumes "src_ok D E s" and "good D (kind (m_state t)) t (numberOfCharactersConsumed s)" and "env_ok env"
  shows "\<exists>b t' s'. (case SWITCH_TO (m_state t) t s of
      Return b t s \<Rightarrow> Some (b, t, s)
    | Goto st c t s \<Rightarrow> runStates (tokenFuel s) env st c t s
    | OutOfFuel \<Rightarrow> None) = Some (b, t', s') \<and> returns_ok D E b t' s'"
proof -
  have o: "outcome_ok D E (Suc (4 * length (toStringSS s) + stateRank (m_state t))) (SWITCH_TO (m_state t) t s)"
    by (rule SWITCH_ok [OF assms(1,2)]) simp
  show ?thesis
  proof (cases "SWITCH_TO (m_state t) t s")
    case (Goto st c u v)
    with o have a: "at_state D E st c u v" by (simp add: outcome_ok_def)
    then have "wf_source v" by (simp add: at_state_def src_ok_def source_ok_def)
    then have "4 * length (toStringSS v) + stateRank st < tokenFuel v"
      using stateRank_le [of st] by (simp add: tokenFuel_def lengthSS_toString)
    from runStates_ok [OF a assms(3) this] Goto show ?thesis by simp
  qed (use o in \<open>auto simp: outcome_ok_def\<close>)
qed

lemma processToken_ok:
  assumes "tokenizer_ok D E t s" and "env_ok env"
  shows "\<exists>b t' s'. processToken env t s = Some (b, t', s') \<and> returns_ok D E b t' s'"
proof -
  have src: "src_ok D E s" using assms(1) by (simp add: tokenizer_ok_def)
  show ?thesis
  proof (cases "flush_pending t (numberOfCharactersConsumed s)")
    case True
    then have "m_bufferedEndTagName t \<noteq> []" "\<not> inEndTagBufferingState t"
      by (auto simp: flush_pending_def inEndTagBufferingState_def)
    moreover have "m_state (flushBufferedEndTag t) = m_state t"
      by (simp add: flushBufferedEndTag_def withToken_def)
    ultimately show ?thesis
      using flush_ok [OF assms(1) True] switched_ok [OF src _ assms(2), of "flushBufferedEndTag t"]
      unfolding processToken_def Let_def processToken_tail [unfolded Let_def]
      by (cases "m_state t = DataState") auto
  next
    case False
    then have g: "good D (kind (m_state t)) t (numberOfCharactersConsumed s)"
      using assms(1) by (auto simp: tokenizer_ok_def good_def)
    then have "\<not> (m_bufferedEndTagName t \<noteq> [] \<and> \<not> inEndTagBufferingState t)"
      using buffering_EndName [of t "m_state t"] by (auto simp: good_def kind_ok_def)
    then have "processToken env t s =
        (case SWITCH_TO (m_state t) t s of
           Return b t s \<Rightarrow> Some (b, t, s)
         | Goto st c t s \<Rightarrow> runStates (tokenFuel s) env st c t s
         | OutOfFuel \<Rightarrow> None)"
      unfolding processToken_def processToken_tail [symmetric] by (auto simp: Let_def)
    with switched_ok [OF src g assms(2)] show ?thesis by simp
  qed
qed

lemma nextToken_ok:
  assumes "tokenizer_ok D E t s" and "env_ok env"
  shows "\<exists>k t' s'. nextToken env t s = Some (k, t', s') \<and> tokenizer_ok D E (releaseToken k t') s'
    \<and> (\<forall>tok. k = Some tok \<longrightarrow> m_type tok \<noteq> Uninitialized)"
  using processToken_ok [OF assms]
  by (auto simp: nextToken_def returns_ok_def releaseToken_def)

section \<open>Sessions\<close>

inductive session :: "html_env \<Rightarrow> uchar set \<Rightarrow> HTMLTokenizer \<Rightarrow> SegmentedString \<Rightarrow> bool" for env A where
  start: "session env A (newTokenizer options) emptySegmentedString"
| feed: "session env A t s \<Longrightarrow> \<not> isClosed s \<Longrightarrow> set (chars x) \<subseteq> A \<Longrightarrow> session env A t (appendSS (segmentedStringOf x) s)"
| finish: "session env A t s \<Longrightarrow> \<not> isClosed s \<Longrightarrow> session env A t (closeSS s)"
| token: "session env A t s \<Longrightarrow> nextToken env t s = Some (k, t', s') \<Longrightarrow> session env A (releaseToken k t') s'"
| switch: "session env A t s \<Longrightarrow> isInDataState t \<Longrightarrow> m_bufferedEndTagName t = [] \<Longrightarrow>
    u \<in> {setPLAINTEXTState t, setRAWTEXTState t, setRCDATAState t, setScriptDataState t, updateStateFor name t} \<Longrightarrow>
    session env A u s"
| mode: "session env A t s \<Longrightarrow> session env A (setForceNullCharacterReplacement a (setShouldAllowCDATA b t)) s"

lemma updateStateFor_state:
  "m_state t = DataState \<Longrightarrow> \<exists>st. kind st = TextK \<and> updateStateFor name t = t\<lparr>m_state := st\<rparr>"
  by (auto simp: updateStateFor_def intro: exI [of _ RCDATAState] exI [of _ PLAINTEXTState]
      exI [of _ ScriptDataState] exI [of _ RAWTEXTState] exI [of _ DataState])

lemma kind_ok_text_states:
  assumes "kind_ok TextK t p" and "u \<in> {setPLAINTEXTState t, setRAWTEXTState t, setRCDATAState t,
    setScriptDataState t, updateStateFor name t}" and "m_state t = DataState"
  shows "kind (m_state u) = TextK \<and> kind_ok TextK u p \<and> m_token u = m_token t \<and> tokenizerAsserts u = tokenizerAsserts t"
proof -
  have "\<exists>st. kind st = TextK \<and> u = t\<lparr>m_state := st\<rparr>"
    using assms(2) updateStateFor_state [OF assms(3), of name]
    by (auto simp: setPLAINTEXTState_def setRAWTEXTState_def setRCDATAState_def setScriptDataState_def
        intro: exI [of _ RCDATAState] exI [of _ PLAINTEXTState] exI [of _ ScriptDataState] exI [of _ RAWTEXTState])
  with assms(1) show ?thesis by auto
qed

lemma kind_ok_mode [simp]:
  "kind_ok k (t\<lparr>m_shouldAllowCDATA := x, m_forceNullCharacterReplacement := y\<rparr>) p = kind_ok k t p"
  by (cases k) (simp_all add: kind_ok_def)

lemma session_tokenizer_ok:
  assumes "session env A t s" and "env_ok env"
  shows "tokenizer_ok (c_CR \<notin> A) (c_LF \<notin> A) t s"
  using assms(1)
proof induction
  case (start options)
  have "numberOfCharactersConsumed emptySegmentedString = 0"
    by (simp add: numberOfCharactersConsumed_def emptySegmentedString_def emptySubstring_def
        numberOfCharactersConsumedSub_def stringLength_def pushedCount_def)
  then show ?case
    using emptySegmentedString_ok
    by (simp add: tokenizer_ok_def newTokenizer_def newToken_def kind_ok_def src_ok_def source_ok_def
        emptySegmentedString_def)
next
  case (feed t s x)
  have "src_ok (c_CR \<notin> A) (c_LF \<notin> A) (appendSS (segmentedStringOf x) s)"
    "numberOfCharactersConsumed (appendSS (segmentedStringOf x) s) = numberOfCharactersConsumed s"
    using feed appendSS_ok [of s "segmentedStringOf x"] segmentedStringOf_ok [of x]
    by (auto simp: tokenizer_ok_def src_ok_def source_ok_def isClosed_def)
  with feed show ?case by (simp add: tokenizer_ok_def)
next
  case (finish t s)
  have "numberOfCharactersConsumed (closeSS s) = numberOfCharactersConsumed s" "source_ok (closeSS s) = source_ok s"
    "toStringSS (closeSS s) = toStringSS s" "assertsHold (closeSS s) = (assertsHold s \<and> \<not> isClosed s)"
    by (simp_all add: closeSS_def assertSS_def numberOfCharactersConsumed_def pushedCount_def source_ok_def wf_source_def
        pointers_ok_def toStringSS_def isClosed_def)
  with finish show ?case by (simp add: tokenizer_ok_def src_ok_def)
next
  case (token t s k t' s')
  from nextToken_ok [OF token.IH assms(2)] token.hyps(2) show ?case by auto
next
  case (switch t s u name)
  then have "kind_ok TextK t (numberOfCharactersConsumed s)"
    by (auto simp: tokenizer_ok_def isInDataState_def flush_pending_def)
  from kind_ok_text_states [OF this switch.hyps(4)] switch show ?case
    by (auto simp: tokenizer_ok_def isInDataState_def)
next
  case (mode t s a b)
  then show ?case
    by (auto simp: tokenizer_ok_def flush_pending_def setForceNullCharacterReplacement_def setShouldAllowCDATA_def)
qed

text \<open>
  C1: in every session, asking for the next token returns: the jumps of the state machine
  always end, whatever the input and however it is cut into segments, and a token that is
  returned has a type.
\<close>

theorem nextToken_returns:
  assumes "session env A t s" and "env_ok env"
  shows "\<exists>k t' s'. nextToken env t s = Some (k, t', s') \<and> (\<forall>tok. k = Some tok \<longrightarrow> m_type tok \<noteq> Uninitialized)"
  using nextToken_ok [OF session_tokenizer_ok [OF assms] assms(2)] by blast

definition exampleEnv :: html_env where
  "exampleEnv = \<lparr>u_foldCase = id, entityTable = exampleTable\<rparr>"

definition exampleOptions :: HTMLParserOptions where
  "exampleOptions = \<lparr>scriptEnabled = True, pluginsEnabled = True, usePreHTML5ParserQuirks = False,
     maximumDOMTreeDepth = 512\<rparr>"

lemma exampleEnv_ok: "env_ok exampleEnv"
  by (simp add: env_ok_def exampleEnv_def exampleTable_def decodeEntity_def append32_def)

lemma session_of: "session env UNIV (newTokenizer exampleOptions) (appendSS (segmentedStringOf x) emptySegmentedString)"
  by (rule session.feed [OF session.start]) (simp_all add: isClosed_def emptySegmentedString_def)

theorem nextToken_returns_witness:
  "\<exists>k t' s'. nextToken exampleEnv (newTokenizer exampleOptions)
      (appendSS (segmentedStringOf (WString True (ascii ''<a b=c>''))) emptySegmentedString) = Some (k, t', s')"
  using nextToken_returns [OF session_of exampleEnv_ok, of "WString True (ascii ''<a b=c>'')"] by blast





end
