(* ===== verification/Html_Input_Stream.thy ===== *)
theory Html_Input_Stream
  imports Segmented_String Input_Preprocessor
begin

text \<open>
  \<^verbatim>\<open>HTMLInputStream\<close> and \<^verbatim>\<open>InsertionPointRecord\<close> of \<^verbatim>\<open>html/parser/HTMLInputStream.h\<close>.

  \<^item> The insertion point records of the program live on the C++ stack and are destroyed in the
    reverse order of their construction; the field \<open>records\<close> lists those alive, the
    outermost first.
  \<^item> The pointer \<^verbatim>\<open>m_last\<close> is the address of \<^verbatim>\<open>m_first\<close> or of the \<^verbatim>\<open>m_next\<close> of a record, named by
    the position of the record. Going through it when the record is gone is the
    result \<open>None\<close>.
\<close>

datatype string_ptr = PtrFirst | PtrNext nat

record InsertionPointRecord =
  m_next :: SegmentedString
  m_line :: int
  m_column :: int

record HTMLInputStream =
  m_first :: SegmentedString
  m_last :: string_ptr
  records :: "InsertionPointRecord list"

definition newInputStream :: HTMLInputStream where
  "newInputStream = \<lparr>m_first = emptySegmentedString, m_last = PtrFirst, records = []\<rparr>"

text \<open>Reading and updating the string \<^verbatim>\<open>m_last\<close> points to.\<close>

definition lastString :: "HTMLInputStream \<Rightarrow> SegmentedString option" where
  "lastString st =
     (case m_last st of
        PtrFirst \<Rightarrow> Some (m_first st)
      | PtrNext i \<Rightarrow> if i < length (records st) then Some (m_next (records st ! i)) else None)"

definition updateLast :: "(SegmentedString \<Rightarrow> SegmentedString) \<Rightarrow> HTMLInputStream \<Rightarrow> HTMLInputStream option" where
  "updateLast f st =
     (case m_last st of
        PtrFirst \<Rightarrow> Some (st\<lparr>m_first := f (m_first st)\<rparr>)
      | PtrNext i \<Rightarrow>
          if i < length (records st)
          then let r = records st ! i
               in Some (st\<lparr>records := (records st)[i := r\<lparr>m_next := f (m_next r)\<rparr>]\<rparr>)
          else None)"

definition appendToEnd :: "SegmentedString \<Rightarrow> HTMLInputStream \<Rightarrow> HTMLInputStream option" where
  "appendToEnd string st = updateLast (appendSS string) st"

definition insertAtCurrentInsertionPoint :: "SegmentedString \<Rightarrow> HTMLInputStream \<Rightarrow> HTMLInputStream" where
  "insertAtCurrentInsertionPoint string st = st\<lparr>m_first := appendSS string (m_first st)\<rparr>"

definition hasInsertionPoint :: "HTMLInputStream \<Rightarrow> bool" where
  "hasInsertionPoint st \<longleftrightarrow> m_last st \<noteq> PtrFirst"

definition markEndOfFile :: "HTMLInputStream \<Rightarrow> HTMLInputStream option" where
  "markEndOfFile st =
     updateLast (\<lambda>s. closeSS (appendSS (segmentedStringOf (WString True [kEndOfFileMarker])) s)) st"

definition closeWithoutMarkingEndOfFile :: "HTMLInputStream \<Rightarrow> HTMLInputStream option" where
  "closeWithoutMarkingEndOfFile st = updateLast closeSS st"

definition haveSeenEndOfFile :: "HTMLInputStream \<Rightarrow> bool option" where
  "haveSeenEndOfFile st = map_option isClosed (lastString st)"

text \<open>
  \<^verbatim>\<open>splitInto\<close> is called with the \<^verbatim>\<open>m_next\<close> of the record under construction, the \<open>i\<close>-th one,
  \<^verbatim>\<open>mergeFrom\<close> with that of the record being destroyed.
\<close>

definition splitInto :: "nat \<Rightarrow> SegmentedString \<Rightarrow> HTMLInputStream \<Rightarrow> SegmentedString \<times> HTMLInputStream" where
  "splitInto i next st =
     (let next = assignSegmentedString (m_first st) next;
          st = st\<lparr>m_first := assignSegmentedString emptySegmentedString (m_first st)\<rparr>
      in (next, if m_last st = PtrFirst then st\<lparr>m_last := PtrNext i\<rparr> else st))"

definition mergeFrom :: "nat \<Rightarrow> SegmentedString \<Rightarrow> HTMLInputStream \<Rightarrow> HTMLInputStream" where
  "mergeFrom i next st =
     (let st = st\<lparr>m_first := appendSS next (m_first st)\<rparr>;
          st = (if m_last st = PtrNext i then st\<lparr>m_last := PtrFirst\<rparr> else st)
      in if isClosed next then st\<lparr>m_first := closeSS (m_first st)\<rparr> else st)"

text \<open>The constructor and the destructor of \<^verbatim>\<open>InsertionPointRecord\<close>.\<close>

definition openInsertionPoint :: "HTMLInputStream \<Rightarrow> HTMLInputStream" where
  "openInsertionPoint st =
     (let line = currentLine (m_first st);
          column = currentColumn (m_first st);
          (next, st) = splitInto (length (records st)) emptySegmentedString st;
          st = st\<lparr>m_first := setCurrentPosition line column 0 (m_first st)\<rparr>
      in st\<lparr>records := records st @ [\<lparr>m_next = next, m_line = line, m_column = column\<rparr>]\<rparr>)"

definition closeInsertionPoint :: "HTMLInputStream \<Rightarrow> HTMLInputStream" where
  "closeInsertionPoint st =
     (let r = last (records st);
          unparsedRemainderLength = lengthSS (m_first st);
          st = mergeFrom (length (records st) - 1) (m_next r) st;
          st = st\<lparr>m_first := setCurrentPosition (m_line r) (m_column r) unparsedRemainderLength (m_first st)\<rparr>
      in st\<lparr>records := butlast (records st)\<rparr>)"

text \<open>
  What \<^verbatim>\<open>HTMLDocumentParser::insert\<close> puts at the insertion point: a copy of the written text whose
  line feeds do not count as lines of the document.
\<close>

definition insertWritten :: "SegmentedString \<Rightarrow> HTMLInputStream \<Rightarrow> HTMLInputStream" where
  "insertWritten source st =
     insertAtCurrentInsertionPoint (setExcludeLineNumbers (copySegmentedString source)) st"

end
