(* ===== verification/Input_Stream_Refine.thy ===== *)
theory Input_Stream_Refine
  imports Html_Input_Stream Source_Properties
begin

text \<open>
  Correctness of \<^verbatim>\<open>HTMLInputStream\<close>. The abstraction \<open>contents\<close> is the list of texts the stream is
  made of, the current one first; the operations are what the picture at the head of the
  class says. Opening an insertion point, letting a script write there and closing it again
  puts what is left of the script's text in front of the old text and restores line and
  column at the seam.
\<close>

section \<open>The pieces\<close>

lemma assign_ok:
  assumes "source_ok s"
  shows "assignSegmentedString s t = s\<lparr>assertsHold := assertsHold t, readsInBounds := readsInBounds t\<rparr>"
proof -
  have "substring_ok (m_currentString s)" "m_pushedChar1 s = 0" "m_pushedChar2 s = 0"
    "m_currentChar s = (if m_length (m_currentString s) = 0 then 0 else getCurrentChar (m_currentString s))"
    using assms by (simp_all add: source_ok_def wf_source_def)
  then show ?thesis by (simp add: assignSegmentedString_def Let_def reloadCurrentChar_ok)
qed

lemma pointers_ok_ghost [simp]: "pointers_ok (s\<lparr>assertsHold := b, readsInBounds := c\<rparr>) = pointers_ok s"
  by (simp add: pointers_ok_def)

lemma source_ok_ghost [simp]:
  "source_ok s \<Longrightarrow> readsInBounds t \<Longrightarrow> source_ok (s\<lparr>assertsHold := b, readsInBounds := readsInBounds t\<rparr>)"
  by (simp add: source_ok_def wf_source_def)

lemma abs_ghost [simp]:
  "toStringSS (s\<lparr>assertsHold := b, readsInBounds := c\<rparr>) = toStringSS s"
  "numberOfCharactersConsumed (s\<lparr>assertsHold := b, readsInBounds := c\<rparr>) = numberOfCharactersConsumed s"
  by (simp_all add: toStringSS_def numberOfCharactersConsumed_def pushedCount_def)

lemma source_ok_reads: "source_ok s \<Longrightarrow> readsInBounds s"
  by (simp add: source_ok_def wf_source_def)

lemma position_ok [simp]:
  "source_ok (setCurrentPosition l c n s) = source_ok s"
  "toStringSS (setCurrentPosition l c n s) = toStringSS s"
  "m_closed (setCurrentPosition l c n s) = m_closed s"
  "assertsHold (setCurrentPosition l c n s) = assertsHold s"
  "numberOfCharactersConsumed (setCurrentPosition l c n s) = numberOfCharactersConsumed s"
  "currentLine (setCurrentPosition l c n s) = l"
  "currentColumn (setCurrentPosition l c n s) = c - n"
  by (simp_all add: setCurrentPosition_def source_ok_def wf_source_def pointers_ok_def toStringSS_def
      numberOfCharactersConsumed_def pushedCount_def currentLine_def currentColumn_def)

lemma close_ok [simp]:
  "source_ok (closeSS s) = source_ok s"
  "toStringSS (closeSS s) = toStringSS s"
  "m_closed (closeSS s)"
  "assertsHold (closeSS s) \<longleftrightarrow> assertsHold s \<and> \<not> m_closed s"
  "numberOfCharactersConsumed (closeSS s) = numberOfCharactersConsumed s"
  "currentLine (closeSS s) = currentLine s"
  "currentColumn (closeSS s) = currentColumn s"
  by (simp_all add: closeSS_def assertSS_def source_ok_def wf_source_def pointers_ok_def toStringSS_def
      numberOfCharactersConsumed_def pushedCount_def currentLine_def currentColumn_def)

lemma source_ok_substrings: "source_ok s \<Longrightarrow> substrings_ok s" "source_ok s \<Longrightarrow> m_pushedChar1 s = 0"
  by (auto simp: source_ok_def wf_source_def substrings_ok_def)

lemma exclude_substrings:
  "substrings_ok s \<Longrightarrow> substrings_ok (setExcludeLineNumbers s)"
  "m_pushedChar1 (setExcludeLineNumbers s) = m_pushedChar1 s"
  "toStringSS (setExcludeLineNumbers s) = toStringSS s"
proof -
  have "appendTo (setExcludeLineNumbersSub x) = appendTo x" for x
    by (simp add: appendTo_def setExcludeLineNumbersSub_def stringLength_def)
  then show "toStringSS (setExcludeLineNumbers s) = toStringSS s"
    by (simp add: toStringSS_def setExcludeLineNumbers_def comp_def)
qed (auto simp: substrings_ok_def setExcludeLineNumbers_def setExcludeLineNumbersSub_def substring_ok_def
    stringLength_def)

text \<open>A source may be appended to another one however far it has been read.\<close>

lemma appendSubstring_consumed:
  assumes "wf_shape s" and "substring_ok x" and "\<not> m_closed s"
  shows "numberOfCharactersConsumed s \<le> numberOfCharactersConsumed (appendSubstring x s)"
  using assms(3)
proof (cases rule: appendSubstring_cases [where x = x])
  case first
  have "m_pushedChar1 s = 0" using assms(1) first(2) by (simp add: wf_shape_def)
  with assms(2) first show ?thesis
    by (simp add: numberOfCharactersConsumed_def numberOfCharactersConsumedSub_def substring_ok_def
        pushedCount_def)
qed (auto simp: numberOfCharactersConsumed_def pushedCount_def)

lemma fold_appendSubstring_consumed:
  assumes "wf_shape s" and "\<forall>x\<in>set xs. substring_ok x" and "\<not> m_closed s"
  shows "numberOfCharactersConsumed s \<le> numberOfCharactersConsumed (fold appendSubstring xs s)"
  using assms
proof (induction xs arbitrary: s)
  case (Cons x xs)
  have "numberOfCharactersConsumed s \<le> numberOfCharactersConsumed (appendSubstring x s)"
    by (rule appendSubstring_consumed) (use Cons.prems in auto)
  also have "\<dots> \<le> numberOfCharactersConsumed (fold appendSubstring xs (appendSubstring x s))"
    by (rule Cons.IH) (use Cons.prems appendSubstring_ok [of s x] in auto)
  finally show ?case by simp
qed simp

lemma append_source_ok:
  assumes "source_ok s" and "substrings_ok other" and "m_pushedChar1 other = 0" and "\<not> m_closed s"
  shows "source_ok (appendSS other s)" and "toStringSS (appendSS other s) = toStringSS s @ toStringSS other"
    and "assertsHold (appendSS other s) = assertsHold s" and "\<not> m_closed (appendSS other s)"
    and "numberOfCharactersConsumed s \<le> numberOfCharactersConsumed (appendSS other s)"
proof -
  have wf: "wf_source s" "m_pushedChar1 s = 0" using assms by (auto simp: source_ok_def)
  note a = appendSS_ok [OF wf(1) assms(2,3,4)]
  from a wf assms(4) show "source_ok (appendSS other s)"
    "toStringSS (appendSS other s) = toStringSS s @ toStringSS other"
    "assertsHold (appendSS other s) = assertsHold s" "\<not> m_closed (appendSS other s)"
    by (simp_all add: source_ok_def)
  have sh: "wf_shape s" by (rule wf_source_shape) (rule wf(1))
  have ok: "substring_ok (m_currentString other)" "\<forall>x\<in>set (m_substrings other). substring_ok x"
    using assms(2) by (simp_all add: substrings_ok_def)
  note b = appendSubstring_ok [OF sh ok(1) assms(4)]
  have "numberOfCharactersConsumed s \<le> numberOfCharactersConsumed (appendSubstring (m_currentString other) s)"
    by (rule appendSubstring_consumed [OF sh ok(1) assms(4)])
  also have "\<dots> \<le> numberOfCharactersConsumed (fold appendSubstring (m_substrings other)
      (appendSubstring (m_currentString other) s))"
    by (rule fold_appendSubstring_consumed) (use b ok assms(4) in auto)
  finally show "numberOfCharactersConsumed s \<le> numberOfCharactersConsumed (appendSS other s)"
    using b(1) ok assms(3,4) b(4) fold_appendSubstring_ok [OF b(1) ok(2)]
    by (simp add: appendSS_def Let_def loadAfterAppend_ok)
qed

section \<open>Invariant and abstraction\<close>

definition input_ok :: "HTMLInputStream \<Rightarrow> bool" where
  "input_ok st \<longleftrightarrow>
     source_ok (m_first st) \<and> (\<forall>r\<in>set (records st). source_ok (m_next r)) \<and>
     m_last st = (if records st = [] then PtrFirst else PtrNext 0) \<and>
     (records st \<noteq> [] \<longrightarrow> \<not> m_closed (m_first st) \<and> (\<forall>r\<in>set (tl (records st)). \<not> m_closed (m_next r)))"

definition contents :: "HTMLInputStream \<Rightarrow> uchar list list" where
  "contents st = toStringSS (m_first st) # rev (map (\<lambda>r. toStringSS (m_next r)) (records st))"

definition inputAsserts :: "HTMLInputStream \<Rightarrow> bool" where
  "inputAsserts st \<longleftrightarrow> assertsHold (m_first st) \<and> (\<forall>r\<in>set (records st). assertsHold (m_next r))"

lemma newInputStream_ok: "input_ok newInputStream" "contents newInputStream = [[]]" "inputAsserts newInputStream"
  using emptySegmentedString_source emptySegmentedString_ok(2)
  by (simp_all add: input_ok_def newInputStream_def contents_def inputAsserts_def)

lemma lastString_ok:
  assumes "input_ok st"
  shows "lastString st = Some (if records st = [] then m_first st else m_next (hd (records st)))"
  using assms by (auto simp: input_ok_def lastString_def hd_conv_nth)

lemma updateLast_ok:
  assumes "input_ok st" and "\<And>s. source_ok s \<Longrightarrow> haveSeenEndOfFile st = Some (m_closed s) \<Longrightarrow>
    source_ok (f s) \<and> toStringSS (f s) = toStringSS s @ cs \<and> assertsHold (f s) = assertsHold s"
  shows "\<exists>st'. updateLast f st = Some st' \<and> input_ok st' \<and> lastString st' = map_option f (lastString st)
    \<and> contents st' = butlast (contents st) @ [last (contents st) @ cs] \<and> inputAsserts st' = inputAsserts st
    \<and> length (records st') = length (records st)"
proof (cases "records st")
  case Nil
  with assms(1) have "m_last st = PtrFirst" "source_ok (m_first st)" by (simp_all add: input_ok_def)
  with assms(2) [of "m_first st"] Nil show ?thesis
    by (simp add: updateLast_def input_ok_def contents_def inputAsserts_def haveSeenEndOfFile_def
        lastString_def isClosed_def)
next
  case (Cons r rs)
  with assms(1) have "m_last st = PtrNext 0" "source_ok (m_next r)" by (simp_all add: input_ok_def)
  with assms Cons show ?thesis
    by (simp add: updateLast_def input_ok_def contents_def inputAsserts_def haveSeenEndOfFile_def
        lastString_def isClosed_def butlast_append)
qed

section \<open>The operations\<close>

lemma appendToEnd_ok:
  assumes "input_ok st" and "haveSeenEndOfFile st = Some False" and "source_ok x"
  shows "\<exists>st'. appendToEnd x st = Some st' \<and> input_ok st' \<and> haveSeenEndOfFile st' = Some False
    \<and> contents st' = butlast (contents st) @ [last (contents st) @ toStringSS x]
    \<and> inputAsserts st' = inputAsserts st"
proof -
  have "source_ok (appendSS x s) \<and> toStringSS (appendSS x s) = toStringSS s @ toStringSS x
      \<and> assertsHold (appendSS x s) = assertsHold s"
    if "source_ok s" "haveSeenEndOfFile st = Some (m_closed s)" for s
    using append_source_ok [OF that(1) source_ok_substrings [OF assms(3)]] that(2) assms(2) by simp
  from updateLast_ok [OF assms(1), of "appendSS x", OF this] obtain st' where
    st': "updateLast (appendSS x) st = Some st'" "input_ok st'" "lastString st' = map_option (appendSS x) (lastString st)"
    "contents st' = butlast (contents st) @ [last (contents st) @ toStringSS x]" "inputAsserts st' = inputAsserts st"
    by auto
  obtain s where s: "lastString st = Some s" "source_ok s" "\<not> m_closed s"
    using assms(1,2) lastString_ok [OF assms(1)]
    by (cases "records st") (auto simp: input_ok_def haveSeenEndOfFile_def isClosed_def)
  have "haveSeenEndOfFile st' = Some False"
    using st'(3) s append_source_ok [OF s(2) source_ok_substrings [OF assms(3)] s(3)]
    by (simp add: haveSeenEndOfFile_def isClosed_def)
  with st' show ?thesis by (simp add: appendToEnd_def)
qed

lemma markEndOfFile_ok:
  assumes "input_ok st" and "haveSeenEndOfFile st = Some False"
  shows "\<exists>st'. markEndOfFile st = Some st' \<and> input_ok st' \<and> haveSeenEndOfFile st' = Some True
    \<and> contents st' = butlast (contents st) @ [last (contents st) @ [kEndOfFileMarker]]
    \<and> inputAsserts st' = inputAsserts st"
proof -
  let ?x = "segmentedStringOf (WString True [kEndOfFileMarker])"
  let ?f = "\<lambda>s. closeSS (appendSS ?x s)"
  have x: "substrings_ok ?x" "m_pushedChar1 ?x = 0" "toStringSS ?x = [kEndOfFileMarker]"
    using segmentedStringOf_ok [of "WString True [kEndOfFileMarker]"] by simp_all
  have "source_ok (?f s) \<and> toStringSS (?f s) = toStringSS s @ [kEndOfFileMarker] \<and> assertsHold (?f s) = assertsHold s"
    if "source_ok s" "haveSeenEndOfFile st = Some (m_closed s)" for s
    using append_source_ok [OF that(1) x(1,2)] that(2) assms(2) x(3) by simp
  from updateLast_ok [OF assms(1), of ?f, OF this] obtain st' where
    st': "updateLast ?f st = Some st'" "input_ok st'" "lastString st' = map_option ?f (lastString st)"
    "contents st' = butlast (contents st) @ [last (contents st) @ [kEndOfFileMarker]]"
    "inputAsserts st' = inputAsserts st" by auto
  have "haveSeenEndOfFile st' = Some True"
    using st'(3) lastString_ok [OF assms(1)] by (simp add: haveSeenEndOfFile_def isClosed_def)
  with st' show ?thesis by (simp add: markEndOfFile_def)
qed

lemma insertWritten_ok:
  assumes "input_ok st" and "\<not> m_closed (m_first st)" and "source_ok x"
  shows "input_ok (insertWritten x st)" and "contents (insertWritten x st) = (hd (contents st) @ toStringSS x) # tl (contents st)"
    and "inputAsserts (insertWritten x st) = inputAsserts st"
    and "haveSeenEndOfFile (insertWritten x st) = haveSeenEndOfFile st"
proof -
  have "copySegmentedString x = x"
    by (rule copy_reload) (use assms(3) in \<open>auto simp: source_ok_def wf_source_def\<close>)
  moreover have first: "source_ok (m_first st)" using assms(1) by (simp add: input_ok_def)
  note a = append_source_ok [OF first exclude_substrings(1) [OF source_ok_substrings(1) [OF assms(3)]] _ assms(2)]
  ultimately show "input_ok (insertWritten x st)" "contents (insertWritten x st) = (hd (contents st) @ toStringSS x) # tl (contents st)"
    "inputAsserts (insertWritten x st) = inputAsserts st" "haveSeenEndOfFile (insertWritten x st) = haveSeenEndOfFile st"
    using assms source_ok_substrings(2) [OF assms(3)] exclude_substrings(2,3) [of x] a
    by (auto simp: insertWritten_def insertAtCurrentInsertionPoint_def input_ok_def contents_def inputAsserts_def
        haveSeenEndOfFile_def lastString_def isClosed_def split: string_ptr.splits)
qed

lemma openInsertionPoint_ok:
  assumes "input_ok st"
  shows "input_ok (openInsertionPoint st)" and "contents (openInsertionPoint st) = [] # contents st"
    and "inputAsserts st \<Longrightarrow> inputAsserts (openInsertionPoint st)"
    and "haveSeenEndOfFile (openInsertionPoint st) = haveSeenEndOfFile st"
    and "\<not> m_closed (m_first (openInsertionPoint st))"
    and "records (openInsertionPoint st) \<noteq> []"
proof -
  have first: "source_ok (m_first st)" using assms by (simp add: input_ok_def)
  note e = emptySegmentedString_source emptySegmentedString_ok
  note assign = assign_ok [OF first, of emptySegmentedString] assign_ok [OF e(1), of "m_first st"]
  have r: "readsInBounds emptySegmentedString" "readsInBounds (m_first st)" using source_ok_reads e(1) first by auto
  show "input_ok (openInsertionPoint st)"
    using assms r e first source_ok_ghost [OF first r(1)] source_ok_ghost [OF e(1) r(2)]
    by (auto simp: openInsertionPoint_def splitInto_def Let_def assign input_ok_def tl_append split: list.splits)
  show "contents (openInsertionPoint st) = [] # contents st"
    "inputAsserts st \<Longrightarrow> inputAsserts (openInsertionPoint st)"
    "\<not> m_closed (m_first (openInsertionPoint st))" "records (openInsertionPoint st) \<noteq> []"
    using e by (auto simp: openInsertionPoint_def splitInto_def Let_def assign contents_def inputAsserts_def)
  show "haveSeenEndOfFile (openInsertionPoint st) = haveSeenEndOfFile st"
    using assms e
    by (auto simp: openInsertionPoint_def splitInto_def Let_def assign haveSeenEndOfFile_def lastString_def
        input_ok_def nth_append isClosed_def)
qed

lemma closeInsertionPoint_ok:
  assumes "input_ok st" and "records st \<noteq> []"
  shows "input_ok (closeInsertionPoint st)"
    and "contents (closeInsertionPoint st) = (contents st ! 0 @ contents st ! 1) # drop 2 (contents st)"
    and "inputAsserts st \<Longrightarrow> inputAsserts (closeInsertionPoint st)"
    and "haveSeenEndOfFile (closeInsertionPoint st) = haveSeenEndOfFile st"
proof -
  obtain rs r where rs: "records st = rs @ [r]" using assms(2) by (cases "records st" rule: rev_cases) auto
  have first: "source_ok (m_first st)" "\<not> m_closed (m_first st)" and r: "source_ok (m_next r)"
    and ptr: "m_last st = PtrNext 0" and closed: "rs \<noteq> [] \<Longrightarrow> \<not> m_closed (m_next r)"
    using assms by (auto simp: input_ok_def rs tl_append split: list.splits)
  note a = append_source_ok [OF first(1) source_ok_substrings [OF r] first(2)]
  let ?f = "setCurrentPosition (m_line r) (m_column r) (lengthSS (m_first st))
    (if m_closed (m_next r) then closeSS (appendSS (m_next r) (m_first st)) else appendSS (m_next r) (m_first st))"
  have eq: "closeInsertionPoint st = st\<lparr>m_first := ?f, m_last := (if rs = [] then PtrFirst else PtrNext 0), records := rs\<rparr>"
    using ptr by (simp add: closeInsertionPoint_def mergeFrom_def Let_def rs isClosed_def)
  show "input_ok (closeInsertionPoint st)"
    unfolding eq using assms(1) a closed by (auto simp: input_ok_def rs tl_append split: list.splits)
  show "contents (closeInsertionPoint st) = (contents st ! 0 @ contents st ! 1) # drop 2 (contents st)"
    unfolding eq using a by (simp add: contents_def rs)
  show "inputAsserts (closeInsertionPoint st)" if "inputAsserts st"
    unfolding eq using a that by (simp add: inputAsserts_def rs)
  show "haveSeenEndOfFile (closeInsertionPoint st) = haveSeenEndOfFile st"
    unfolding eq using a ptr closed by (auto simp: haveSeenEndOfFile_def lastString_def rs isClosed_def nth_append)
qed

section \<open>Refinement\<close>

text \<open>
  The specification of the stream is a list of texts, the current one first, and a flag for the
  end of the file. Its events are the calls the parser makes; an event that the
  specification refuses is one the parser does not make.
\<close>

datatype input_event =
    AppendToEnd wtf_string
  | WriteText wtf_string
  | MarkEnd
  | OpenPoint
  | ClosePoint
  | Consume nat

type_synonym text_list = "uchar list list \<times> bool"

fun specEvent :: "input_event \<Rightarrow> text_list \<Rightarrow> text_list option" where
  "specEvent (AppendToEnd x) (ts, e) =
     (if e then None else Some (butlast ts @ [last ts @ chars x], e))"
| "specEvent (WriteText x) (ts, e) =
     (if e \<and> length ts = 1 then None else Some ((hd ts @ chars x) # tl ts, e))"
| "specEvent MarkEnd (ts, e) = (if e then None else Some (butlast ts @ [last ts @ [kEndOfFileMarker]], True))"
| "specEvent OpenPoint (ts, e) = Some ([] # ts, e)"
| "specEvent ClosePoint (ts, e) = (if length ts < 2 then None else Some ((ts ! 0 @ ts ! 1) # drop 2 ts, e))"
| "specEvent (Consume n) (ts, e) = (if length (hd ts) < n then None else Some (drop n (hd ts) # tl ts, e))"

fun runEvent :: "input_event \<Rightarrow> HTMLInputStream \<Rightarrow> HTMLInputStream option" where
  "runEvent (AppendToEnd x) st = appendToEnd (segmentedStringOf x) st"
| "runEvent (WriteText x) st = Some (insertWritten (segmentedStringOf x) st)"
| "runEvent MarkEnd st = markEndOfFile st"
| "runEvent OpenPoint st = Some (openInsertionPoint st)"
| "runEvent ClosePoint st = Some (closeInsertionPoint st)"
| "runEvent (Consume n) st = Some (st\<lparr>m_first := (advanceAndUpdateLineNumber ^^ n) (m_first st)\<rparr>)"

primrec specEvents :: "input_event list \<Rightarrow> text_list \<Rightarrow> text_list option" where
  "specEvents [] a = Some a"
| "specEvents (e # es) a = Option.bind (specEvent e a) (specEvents es)"

primrec runEvents :: "input_event list \<Rightarrow> HTMLInputStream \<Rightarrow> HTMLInputStream option" where
  "runEvents [] st = Some st"
| "runEvents (e # es) st = Option.bind (runEvent e st) (runEvents es)"

definition abstractInput :: "HTMLInputStream \<Rightarrow> text_list" where
  "abstractInput st = (contents st, haveSeenEndOfFile st = Some True)"

definition input_inv :: "HTMLInputStream \<Rightarrow> bool" where
  "input_inv st \<longleftrightarrow> input_ok st \<and> inputAsserts st"

lemma seen_total: "input_ok st \<Longrightarrow> haveSeenEndOfFile st \<noteq> Some True \<longleftrightarrow> haveSeenEndOfFile st = Some False"
  by (simp add: haveSeenEndOfFile_def lastString_ok)

lemma source_of: "source_ok (segmentedStringOf x)" "toStringSS (segmentedStringOf x) = chars x"
  using segmentedStringOf_ok [of x] by (simp_all add: source_ok_def)

lemma consume_ok:
  assumes "source_ok s" and "n \<le> length (toStringSS s)"
  shows "moves n s ((advanceAndUpdateLineNumber ^^ n) s)"
  using assms(2)
proof (induction n)
  case 0
  with assms(1) show ?case by simp
next
  case (Suc n)
  then have m: "moves n s ((advanceAndUpdateLineNumber ^^ n) s)" by simp
  with Suc.prems have "\<not> isEmpty ((advanceAndUpdateLineNumber ^^ n) s)" by (simp add: moves_isEmpty)
  with moves_trans [OF m moves_advanceLine [OF moves_ok [OF m]]] show ?case by simp
qed

lemma newInputStream_inv:
  "input_inv newInputStream" "haveSeenEndOfFile newInputStream = Some False" "abstractInput newInputStream = ([[]], False)"
proof -
  show seen: "haveSeenEndOfFile newInputStream = Some False"
    by (simp add: haveSeenEndOfFile_def lastString_def newInputStream_def isClosed_def emptySegmentedString_def)
  then show "input_inv newInputStream" "abstractInput newInputStream = ([[]], False)"
    using newInputStream_ok by (simp_all add: input_inv_def abstractInput_def)
qed

lemma runEvent_refines:
  assumes "input_inv st" and "specEvent e (abstractInput st) = Some a"
  shows "\<exists>st'. runEvent e st = Some st' \<and> input_inv st' \<and> abstractInput st' = a"
proof -
  have ok: "input_ok st" "inputAsserts st" using assms(1) by (simp_all add: input_inv_def)
  show ?thesis
  proof (cases e)
    case (AppendToEnd x)
    with assms(2) ok appendToEnd_ok [OF ok(1) _ source_of(1), of x] show ?thesis
      by (auto simp: abstractInput_def seen_total input_inv_def source_of split: if_splits)
  next
    case (WriteText x)
    have "\<not> m_closed (m_first st)" if "haveSeenEndOfFile st = Some True \<Longrightarrow> length (contents st) \<noteq> 1"
      using ok(1) that lastString_ok [OF ok(1)]
      by (cases "records st") (auto simp: input_ok_def contents_def haveSeenEndOfFile_def isClosed_def)
    with assms(2) ok insertWritten_ok [OF ok(1) _ source_of(1), of x] WriteText show ?thesis
      by (auto simp: abstractInput_def input_inv_def source_of split: if_splits)
  next
    case MarkEnd
    with assms(2) ok markEndOfFile_ok [OF ok(1)] show ?thesis
      by (auto simp: abstractInput_def seen_total input_inv_def split: if_splits)
  next
    case OpenPoint
    with assms(2) ok openInsertionPoint_ok [OF ok(1)] show ?thesis
      by (auto simp: abstractInput_def input_inv_def)
  next
    case ClosePoint
    with assms(2) have "records st \<noteq> []" by (auto simp: abstractInput_def contents_def split: if_splits)
    with assms(2) ok closeInsertionPoint_ok [OF ok(1)] ClosePoint show ?thesis
      by (auto simp: abstractInput_def input_inv_def split: if_splits)
  next
    case (Consume n)
    with assms(2) have n: "n \<le> length (toStringSS (m_first st))"
      by (auto simp: abstractInput_def contents_def split: if_splits)
    have "source_ok (m_first st)" using ok by (simp add: input_ok_def)
    from consume_ok [OF this n] assms(2) ok Consume show ?thesis
      by (auto simp: abstractInput_def input_inv_def input_ok_def inputAsserts_def contents_def moves_def
          haveSeenEndOfFile_def lastString_def isClosed_def split: string_ptr.splits if_splits)
  qed
qed

lemma runEvents_refines:
  assumes "input_inv st" and "specEvents es (abstractInput st) = Some a"
  shows "\<exists>st'. runEvents es st = Some st' \<and> input_inv st' \<and> abstractInput st' = a"
  using assms
proof (induction es arbitrary: st)
  case (Cons e es)
  then obtain b where b: "specEvent e (abstractInput st) = Some b" "specEvents es b = Some a"
    by (auto simp: bind_eq_Some_conv)
  from runEvent_refines [OF Cons.prems(1) b(1)] Cons.IH b(2) show ?case by fastforce
qed auto

text \<open>
  C19: the input stream implements the list of texts. Any sequence of appends, writes, insertion
  points opened and closed and characters consumed that the specification accepts runs
  without following a dangling \<^verbatim>\<open>m_last\<close> and without a failed \<^verbatim>\<open>ASSERT\<close>, and ends with the texts
  and the end-of-file flag of the specification.
\<close>

theorem input_stream_refines:
  assumes "specEvents es ([[]], False) = Some a"
  shows "\<exists>st. runEvents es newInputStream = Some st \<and> abstractInput st = a \<and> inputAsserts st"
  using runEvents_refines [OF newInputStream_inv(1)] assms newInputStream_inv(3) by (fastforce simp: input_inv_def)

theorem input_stream_refines_witness:
  "\<exists>st. runEvents [AppendToEnd (WString True (ascii ''cd'')), OpenPoint, WriteText (WString True (ascii ''ab'')),
       Consume 1, MarkEnd, ClosePoint] newInputStream = Some st
     \<and> abstractInput st = ([ascii ''bcd'' @ [kEndOfFileMarker]], True) \<and> inputAsserts st"
  by (rule input_stream_refines) (simp add: ascii_def)

section \<open>The position at the seam\<close>

lemma lineFlags_appendSubstring:
  assumes "wf_shape s" and "substring_ok x" and "\<not> m_closed s"
  shows "lineFlags (appendSubstring x s)
    = lineFlags s @ replicate (nat (m_length x)) (m_doNotExcludeLineNumbers x)"
  using assms(3)
proof (cases rule: appendSubstring_cases [where x = x])
  case first
  with assms(1) show ?thesis by (simp add: lineFlags_Cons wf_shape_def)
qed (auto simp: lineFlags_Cons)

lemma lineFlags_append:
  assumes "source_ok s" and "substrings_ok other" and "m_pushedChar1 other = 0" and "\<not> m_closed s"
  shows "lineFlags (appendSS other s) = lineFlags s @ lineFlags other"
proof -
  have sh: "wf_shape s" using assms(1) wf_source_shape by (simp add: source_ok_def)
  have ok: "substring_ok (m_currentString other)" "\<forall>x\<in>set (m_substrings other). substring_ok x"
    using assms(2) by (simp_all add: substrings_ok_def)
  note a = appendSubstring_ok [OF sh ok(1) assms(4)]
  have "lineFlags (fold appendSubstring xs t) = lineFlags t
      @ concat (map (\<lambda>x. replicate (nat (m_length x)) (m_doNotExcludeLineNumbers x)) xs)"
    if "wf_shape t" "\<forall>x\<in>set xs. substring_ok x" "\<not> m_closed t" for t xs
    using that
    by (induction xs arbitrary: t) (auto simp: lineFlags_appendSubstring appendSubstring_ok)
  from this [OF a(1) ok(2)] assms(3,4) a(4) show ?thesis
    by (simp add: appendSS_def Let_def loadAfterAppend_def lineFlags_appendSubstring [OF sh ok(1)] lineFlags_Cons [of other])
      (simp add: lineFlags_def)
qed

lemma lineFlags_run:
  assumes "source_ok s" and "n \<le> length (toStringSS s)"
  shows "lineFlags ((advanceAndUpdateLineNumber ^^ n) s) = drop n (lineFlags s)"
  using assms(2)
proof (induction n)
  case (Suc n)
  let ?t = "(advanceAndUpdateLineNumber ^^ n) s"
  have run: "source_ok ?t" "toStringSS ?t = drop n (toStringSS s)"
    using lsrc.forward_n [OF assms(1), of n] Suc.prems by auto
  with Suc.prems have "\<not> isEmpty ?t" by (simp add: lsrc.atEnd_iff)
  with Suc lineFlags_advance [OF run(1)] show ?case by (simp add: drop_Suc tl_drop)
qed simp

lemma lineFlags_exclude: "True \<notin> set (lineFlags (setExcludeLineNumbers s))"
  by (auto simp: lineFlags_def setExcludeLineNumbers_def setExcludeLineNumbersSub_def)

lemma lineFlags_position [simp]:
  "lineFlags (setCurrentPosition l c n s) = lineFlags s" "lineFlags (closeSS s) = lineFlags s"
  "lineFlags (s\<lparr>assertsHold := b, readsInBounds := d\<rparr>) = lineFlags s"
  by (simp_all add: lineFlags_def setCurrentPosition_def closeSS_def assertSS_def)

lemma marks_quiet:
  assumes "True \<notin> set (lineFlags s)"
  shows "True \<notin> set (marks s)"
proof
  assume "True \<in> set (marks s)"
  then obtain c f where "(c, f) \<in> set (zip (toStringSS s) (lineFlags s))" "c = c_LF" "f" by (auto simp: marks_def)
  with assms show False using set_zip_rightD by fastforce
qed

text \<open>What a script does between the two ends of an insertion point.\<close>

definition scriptEvent :: "input_event \<Rightarrow> bool" where
  "scriptEvent e \<longleftrightarrow> (case e of WriteText x \<Rightarrow> True | Consume n \<Rightarrow> True | _ \<Rightarrow> False)"

lemma script_quiet:
  assumes "input_inv st" and "records st \<noteq> []" and "True \<notin> set (lineFlags (m_first st))"
    and "\<forall>e\<in>set es. scriptEvent e" and "specEvents es (abstractInput st) = Some a"
    and "runEvents es st = Some st'"
  shows "input_inv st' \<and> records st' = records st \<and> True \<notin> set (lineFlags (m_first st'))"
  using assms
proof (induction es arbitrary: st)
  case (Cons e es)
  then obtain b where b: "specEvent e (abstractInput st) = Some b" "specEvents es b = Some a"
    by (auto simp: bind_eq_Some_conv)
  from runEvent_refines [OF Cons.prems(1) b(1)] obtain t where
    t: "runEvent e st = Some t" "input_inv t" "abstractInput t = b" by auto
  have ok: "source_ok (m_first st)" "\<not> m_closed (m_first st)"
    using Cons.prems(1,2) by (auto simp: input_inv_def input_ok_def)
  have "records t = records st \<and> True \<notin> set (lineFlags (m_first t))"
  proof (cases e)
    case (WriteText x)
    let ?x = "setExcludeLineNumbers (segmentedStringOf x)"
    have "copySegmentedString (segmentedStringOf x) = segmentedStringOf x"
      by (rule copy_reload) (use source_of(1) [of x] in \<open>auto simp: source_ok_def wf_source_def\<close>)
    moreover have "substrings_ok ?x" "m_pushedChar1 ?x = 0"
      using exclude_substrings(1,2) [of "segmentedStringOf x"] source_ok_substrings [OF source_of(1), of x] by auto
    ultimately show ?thesis
      using t(1) WriteText Cons.prems(3) lineFlags_append [OF ok(1) _ _ ok(2), of ?x] lineFlags_exclude
      by (auto simp: insertWritten_def insertAtCurrentInsertionPoint_def)
  next
    case (Consume n)
    with b(1) have "n \<le> length (toStringSS (m_first st))"
      by (auto simp: abstractInput_def contents_def split: if_splits)
    from lineFlags_run [OF ok(1) this] Consume t(1) Cons.prems(3) show ?thesis
      by (auto dest: in_set_dropD)
  qed (use Cons.prems(4) in \<open>auto simp: scriptEvent_def\<close>)
  with Cons.IH [OF t(2)] Cons.prems t b show ?case by auto
qed auto

lemma remainder_position:
  assumes "input_ok st" and "records st \<noteq> []" and "True \<notin> set (lineFlags (m_first st))"
    and "n = length (toStringSS (m_first st))" and "s = (advanceAndUpdateLineNumber ^^ n) (m_first (closeInsertionPoint st))"
  shows "toStringSS s = toStringSS (m_next (last (records st))) \<and> currentLine s = m_line (last (records st))
    \<and> currentColumn s = m_column (last (records st))"
proof -
  let ?r = "last (records st)" and ?c = "m_first (closeInsertionPoint st)"
  have first: "source_ok (m_first st)" "\<not> m_closed (m_first st)" "source_ok (m_next ?r)"
    using assms(1,2) by (auto simp: input_ok_def)
  note sub = source_ok_substrings [OF first(3)]
  note a = append_source_ok [OF first(1) sub first(2)]
  have len: "lengthSS (m_first st) = int (length (toStringSS (m_first st)))"
    using first(1) lengthSS_toString by (simp add: source_ok_def)
  have c: "source_ok ?c" "toStringSS ?c = toStringSS (m_first st) @ toStringSS (m_next ?r)"
    "currentLine ?c = m_line ?r" "currentColumn ?c = m_column ?r - int n"
    "lineFlags ?c = lineFlags (m_first st) @ lineFlags (m_next ?r)"
    using a lineFlags_append [OF first(1) sub first(2)] len assms(4)
    by (auto simp: closeInsertionPoint_def mergeFrom_def Let_def)
  have n: "n \<le> length (toStringSS ?c)" using c(2) assms(4) by simp
  have "length (lineFlags (m_first st)) = n"
    using length_lineFlags [OF first(1)] assms(4) by simp
  then have "take n (marks ?c) = marks (m_first st)" using c assms(4) by (simp add: marks_def zip_append)
  with marks_quiet [OF assms(3)] length_marks [OF first(1)]
  have "True \<notin> set (take n (marks ?c))" "length (take n (marks ?c)) = n" using assms(4) by simp_all
  with lsrc.forward_n [OF c(1) n] line_run [OF c(1) n] c assms(4,5) show ?thesis
    by (auto simp: columnAfter_def count_list_0_iff)
qed

text \<open>
  C20: a script that writes text at an insertion point, of which the parser consumes some, leaves
  the position alone: when the insertion point is closed and what is left of the
  script's text has been consumed too, the stream is at the text, the line and the column it
  was at before, whatever line feeds the script wrote.
\<close>

theorem insertion_point_restores_position:
  assumes "input_inv st" and "\<forall>e\<in>set es. scriptEvent e"
    and "specEvents es (abstractInput (openInsertionPoint st)) = Some a"
  shows "\<exists>st' s. runEvents es (openInsertionPoint st) = Some st'
    \<and> s = (advanceAndUpdateLineNumber ^^ length (toStringSS (m_first st'))) (m_first (closeInsertionPoint st'))
    \<and> toStringSS s = toStringSS (m_first st) \<and> currentLine s = currentLine (m_first st)
    \<and> currentColumn s = currentColumn (m_first st)"
proof -
  have ok: "input_ok st" "source_ok (m_first st)" using assms(1) by (simp_all add: input_inv_def input_ok_def)
  let ?o = "openInsertionPoint st"
  note o = openInsertionPoint_ok [OF ok(1)]
  have inv: "input_inv ?o" using o assms(1) by (simp add: input_inv_def)
  have "lineFlags emptySegmentedString = []"
    by (simp add: lineFlags_Cons emptySegmentedString_def emptySubstring_def)
  then have quiet: "True \<notin> set (lineFlags (m_first ?o))"
    using assign_ok [OF emptySegmentedString_source(1), of "m_first st"]
    by (auto simp: openInsertionPoint_def splitInto_def Let_def)
  have r: "toStringSS (m_next (last (records ?o))) = toStringSS (m_first st)"
    "m_line (last (records ?o)) = currentLine (m_first st)" "m_column (last (records ?o)) = currentColumn (m_first st)"
    using assign_ok [OF ok(2), of emptySegmentedString]
    by (auto simp: openInsertionPoint_def splitInto_def Let_def)
  obtain st' where st': "runEvents es ?o = Some st'" using runEvents_refines [OF inv assms(3)] by blast
  from script_quiet [OF inv o(6) quiet assms(2,3) st'] have
    q: "input_ok st'" "records st' = records ?o" "True \<notin> set (lineFlags (m_first st'))"
    by (simp_all add: input_inv_def)
  from remainder_position [OF q(1) _ q(3) refl refl] q(2) o(6) r st' show ?thesis by auto
qed

theorem insertion_point_restores_position_witness:
  "\<exists>st' s. runEvents [WriteText (WString True (ascii ''x'' @ [c_LF])), Consume 1] (openInsertionPoint newInputStream) = Some st'
    \<and> s = (advanceAndUpdateLineNumber ^^ length (toStringSS (m_first st'))) (m_first (closeInsertionPoint st'))
    \<and> toStringSS s = toStringSS (m_first newInputStream) \<and> currentLine s = currentLine (m_first newInputStream)
    \<and> currentColumn s = currentColumn (m_first newInputStream)"
proof -
  have "abstractInput (openInsertionPoint newInputStream) = ([[], []], False)"
    using openInsertionPoint_ok(2,4) [OF newInputStream_ok(1)] newInputStream_ok(2) newInputStream_inv(2)
    by (simp add: abstractInput_def)
  then show ?thesis
    by (intro insertion_point_restores_position [where a = "([[c_LF], []], False)"] newInputStream_inv(1))
      (auto simp: scriptEvent_def ascii_def)
qed

end
