(* ===== verification/Text_Codec_UTF8.thy ===== *)
theory Text_Codec_UTF8
  imports Prelude
begin

text \<open>
  \<^verbatim>\<open>TextCodecUTF8\<close> of \<^verbatim>\<open>platform/text/TextCodecUTF8.cpp\<close>, which turns the bytes of a document into
  code units, chunk by chunk.

  \<^item> The array \<^verbatim>\<open>m_partialSequence\<close> is a list of four bytes of which the first
    \<^verbatim>\<open>m_partialSequenceSize\<close> are in use; \<^verbatim>\<open>memmove\<close> and \<^verbatim>\<open>memcpy\<close> act on the whole array.
  \<^item> A source pointer is the list of bytes from it to the end of the chunk together with its
    address, since the ASCII fast path depends on the alignment of the address.
  \<^item> A destination pointer is the list of code units written so far.
\<close>

section \<open>Sequences\<close>

type_synonym byte = "8 word"

definition isASCIIByte :: "byte \<Rightarrow> bool" where
  "isASCIIByte b \<longleftrightarrow> b AND NOT 0x7F = 0"

definition nonCharacter :: int where
  "nonCharacter = -1"

definition lengths :: "nat list" where
  "lengths = replicate 128 0 @ replicate 96 2 @ replicate 16 3 @ replicate 5 4 @ replicate 11 0"

definition nonASCIISequenceLength :: "byte \<Rightarrow> nat" where
  "nonASCIISequenceLength firstByte = lengths ! unat firstByte"

definition decodeNonASCIISequence :: "byte list \<Rightarrow> nat \<Rightarrow> int" where
  "decodeNonASCIISequence sequence len =
     (let s = (\<lambda>i. sequence ! i); c = (\<lambda>i. uint (sequence ! i)) in
      if len = 2
      then if s 0 < 0xC2 then nonCharacter
           else if s 1 < 0x80 \<or> s 1 > 0xBF then nonCharacter
           else push_bit 6 (c 0) + c 1 - 0x00003080
      else if len = 3
      then if s 0 = 0xE0 \<and> (s 1 < 0xA0 \<or> s 1 > 0xBF) then nonCharacter
           else if s 0 = 0xED \<and> (s 1 < 0x80 \<or> s 1 > 0x9F) then nonCharacter
           else if s 0 \<noteq> 0xE0 \<and> s 0 \<noteq> 0xED \<and> (s 1 < 0x80 \<or> s 1 > 0xBF) then nonCharacter
           else if s 2 < 0x80 \<or> s 2 > 0xBF then nonCharacter
           else push_bit 12 (c 0) + push_bit 6 (c 1) + c 2 - 0x000E2080
      else if s 0 = 0xF0 \<and> (s 1 < 0x90 \<or> s 1 > 0xBF) then nonCharacter
           else if s 0 = 0xF4 \<and> (s 1 < 0x80 \<or> s 1 > 0x8F) then nonCharacter
           else if s 0 \<noteq> 0xF0 \<and> s 0 \<noteq> 0xF4 \<and> (s 1 < 0x80 \<or> s 1 > 0xBF) then nonCharacter
           else if s 2 < 0x80 \<or> s 2 > 0xBF then nonCharacter
           else if s 3 < 0x80 \<or> s 3 > 0xBF then nonCharacter
           else push_bit 18 (c 0) + push_bit 12 (c 1) + push_bit 6 (c 2) + c 3 - 0x03C82080)"

text \<open>\<^verbatim>\<open>appendCharacter\<close>: the code units written for a character.\<close>

definition appendCharacter :: "int \<Rightarrow> uchar list" where
  "appendCharacter character = append32 (word_of_int character)"

section \<open>The partial sequence\<close>

record TextCodecUTF8 =
  m_partialSequenceSize :: nat
  m_partialSequence :: "byte list"

definition newTextCodecUTF8 :: "byte list \<Rightarrow> TextCodecUTF8" where
  "newTextCodecUTF8 uninitialized = \<lparr>m_partialSequenceSize = 0, m_partialSequence = uninitialized\<rparr>"

definition consumePartialSequenceByte :: "TextCodecUTF8 \<Rightarrow> TextCodecUTF8" where
  "consumePartialSequenceByte codec =
     (let n = m_partialSequenceSize codec - 1; xs = m_partialSequence codec in
      codec\<lparr>m_partialSequenceSize := n, m_partialSequence := take n (drop 1 xs) @ drop n xs\<rparr>)"

text \<open>\<^verbatim>\<open>memcpy(m_partialSequence + m_partialSequenceSize, source, n)\<close> and the new size.\<close>

definition addToPartialSequence :: "byte list \<Rightarrow> TextCodecUTF8 \<Rightarrow> TextCodecUTF8" where
  "addToPartialSequence bytes codec =
     (let k = m_partialSequenceSize codec; xs = m_partialSequence codec; n = length bytes in
      codec\<lparr>m_partialSequenceSize := k + n, m_partialSequence := take k xs @ bytes @ drop (k + n) xs\<rparr>)"

text \<open>The state of a call of \<^verbatim>\<open>decode\<close>.\<close>

record decoding =
  codec :: TextCodecUTF8
  address :: nat
  source :: "byte list"
  destination :: "uchar list"
  sawError :: bool

definition partialSize :: "decoding \<Rightarrow> nat" where
  "partialSize d = m_partialSequenceSize (codec d)"

definition emit :: "uchar list \<Rightarrow> decoding \<Rightarrow> decoding" where
  "emit cs d = d\<lparr>destination := destination d @ cs\<rparr>"

definition skipSource :: "nat \<Rightarrow> decoding \<Rightarrow> decoding" where
  "skipSource n d = d\<lparr>address := address d + n, source := drop n (source d)\<rparr>"

definition handleError :: "bool \<Rightarrow> decoding \<Rightarrow> decoding" where
  "handleError stopOnError d =
     (let d = d\<lparr>sawError := True\<rparr> in
      if stopOnError then d
      else (emit [replacementCharacter] d)\<lparr>codec := consumePartialSequenceByte (codec d)\<rparr>)"

text \<open>The bytes the partial sequence lacks are taken from the source.\<close>

definition completeSequence :: "nat \<Rightarrow> decoding \<Rightarrow> decoding" where
  "completeSequence count d =
     (let n = count - partialSize d in
      skipSource n (d\<lparr>codec := addToPartialSequence (take n (source d)) (codec d)\<rparr>))"

definition keepSource :: "decoding \<Rightarrow> decoding" where
  "keepSource d = d\<lparr>codec := addToPartialSequence (source d) (codec d)\<rparr>"

definition dropSequence :: "nat \<Rightarrow> decoding \<Rightarrow> decoding" where
  "dropSequence count d =
     d\<lparr>codec := (codec d)\<lparr>m_partialSequenceSize := m_partialSequenceSize (codec d) - count\<rparr>\<rparr>"

lemma sizes [simp]:
  "partialSize (emit cs d) = partialSize d" "source (emit cs d) = source d"
  "partialSize (skipSource n d) = partialSize d" "source (skipSource n d) = drop n (source d)"
  "partialSize (dropSequence n d) = partialSize d - n" "source (dropSequence n d) = source d"
  "partialSize (handleError b d) = (if b then partialSize d else partialSize d - 1)"
  "source (handleError b d) = source d"
  by (simp_all add: partialSize_def emit_def skipSource_def dropSequence_def handleError_def Let_def
      consumePartialSequenceByte_def)

lemma sizes_complete [simp]:
  "partialSize (completeSequence n d) = partialSize d + min (length (source d)) (n - partialSize d)"
  "source (completeSequence n d) = drop (n - partialSize d) (source d)"
  by (simp_all add: completeSequence_def Let_def addToPartialSequence_def partialSize_def skipSource_def)

text \<open>
  The body of the loop of \<^verbatim>\<open>handlePartialSequence<LChar>\<close> and of \<^verbatim>\<open>handlePartialSequence<UChar>\<close>: it goes on
  to the loop condition or returns. The former's answer is whether the rest has to be
  decoded into 16-bit characters. The loops run while the partial sequence is not empty,
  and neither function is called with an empty one.
\<close>

datatype loop_step = Continue decoding | Finish bool decoding

definition consumeASCII :: "decoding \<Rightarrow> decoding" where
  "consumeASCII d =
     (emit [widen (m_partialSequence (codec d) ! 0)] d)\<lparr>codec := consumePartialSequenceByte (codec d)\<rparr>"

definition partialStep8 :: "bool \<Rightarrow> decoding \<Rightarrow> loop_step" where
  "partialStep8 flush d =
     (if isASCIIByte (m_partialSequence (codec d) ! 0) then Continue (consumeASCII d)
      else let count = nonASCIISequenceLength (m_partialSequence (codec d) ! 0) in
        if count = 0 then Finish True d
        else if count > partialSize d \<and> count - partialSize d > length (source d)
        then if \<not> flush then Finish False (keepSource d) else Finish True d
        else let d = (if count > partialSize d then completeSequence count d else d);
                 character = decodeNonASCIISequence (m_partialSequence (codec d)) count
             in if character = nonCharacter \<or> character > 0xFF then Finish True d
                else Continue (emit [word_of_int character] (dropSequence count d)))"

definition partialError :: "bool \<Rightarrow> decoding \<Rightarrow> loop_step" where
  "partialError stopOnError d =
     (let d = handleError stopOnError d in if stopOnError then Finish False d else Continue d)"

definition partialStep16 :: "bool \<Rightarrow> bool \<Rightarrow> decoding \<Rightarrow> loop_step" where
  "partialStep16 flush stopOnError d =
     (if isASCIIByte (m_partialSequence (codec d) ! 0) then Continue (consumeASCII d)
      else let count = nonASCIISequenceLength (m_partialSequence (codec d) ! 0) in
        if count = 0 then partialError stopOnError d
        else if count > partialSize d \<and> count - partialSize d > length (source d)
        then if \<not> flush then Finish False (keepSource d) else partialError stopOnError d
        else let d = (if count > partialSize d then completeSequence count d else d);
                 character = decodeNonASCIISequence (m_partialSequence (codec d)) count
             in if character = nonCharacter then partialError stopOnError d
                else Continue (emit (appendCharacter character) (dropSequence count d)))"

definition remaining :: "decoding \<Rightarrow> nat" where
  "remaining d = partialSize d + length (source d)"

lemma consumeASCII_sizes [simp]:
  "partialSize (consumeASCII d) = partialSize d - 1" "source (consumeASCII d) = source d"
  by (simp_all add: consumeASCII_def partialSize_def consumePartialSequenceByte_def Let_def)

lemma partialStep8_decreases:
  "partialStep8 flush d = Continue d' \<Longrightarrow> partialSize d \<noteq> 0 \<Longrightarrow> remaining d' < remaining d"
  by (auto simp: partialStep8_def Let_def remaining_def split: if_splits)

lemma partialStep16_decreases:
  "partialStep16 flush stopOnError d = Continue d' \<Longrightarrow> partialSize d \<noteq> 0 \<Longrightarrow> remaining d' < remaining d"
  by (auto simp: partialStep16_def partialError_def Let_def remaining_def split: if_splits)

function handlePartialSequence8 :: "bool \<Rightarrow> decoding \<Rightarrow> bool \<times> decoding" where
  "handlePartialSequence8 flush d =
     (if partialSize d = 0 then (False, d)
      else case partialStep8 flush d of
             Finish b d \<Rightarrow> (b, d)
           | Continue d \<Rightarrow> handlePartialSequence8 flush d)"
  by pat_completeness auto
termination
  by (relation "measure (\<lambda>(flush, d). remaining d)") (auto simp: partialStep8_decreases)

function handlePartialSequence16 :: "bool \<Rightarrow> bool \<Rightarrow> decoding \<Rightarrow> decoding" where
  "handlePartialSequence16 flush stopOnError d =
     (if partialSize d = 0 then d
      else case partialStep16 flush stopOnError d of
             Finish b d \<Rightarrow> d
           | Continue d \<Rightarrow> handlePartialSequence16 flush stopOnError d)"
  by pat_completeness auto
termination
  by (relation "measure (\<lambda>(flush, stopOnError, d). remaining d)") (auto simp: partialStep16_decreases)

declare handlePartialSequence8.simps [simp del] handlePartialSequence16.simps [simp del]

section \<open>The ASCII fast path\<close>

text \<open>
  A machine word has four or eight bytes; it is all ASCII if no byte has its top bit set
  (\<^verbatim>\<open>NonASCIIMask\<close>). Words are read only below \<^verbatim>\<open>alignedEnd\<close>, the end of the chunk rounded down to
  a word boundary.
\<close>

datatype machine_word = Word4 | Word8

fun wordSize :: "machine_word \<Rightarrow> nat" where
  "wordSize Word4 = 4"
| "wordSize Word8 = 8"

definition alignedEnd :: "machine_word \<Rightarrow> decoding \<Rightarrow> nat" where
  "alignedEnd w d = (let e = address d + length (source d) in e - e mod wordSize w)"

definition isAllASCII :: "byte list \<Rightarrow> bool" where
  "isAllASCII chunk \<longleftrightarrow> list_all (\<lambda>b. b AND 0x80 = 0) chunk"

definition copySource :: "nat \<Rightarrow> decoding \<Rightarrow> decoding" where
  "copySource n d = skipSource n (emit (map widen (take n (source d))) d)"

function copyWords :: "machine_word \<Rightarrow> nat \<Rightarrow> decoding \<Rightarrow> decoding" where
  "copyWords w stop d =
     (if address d < stop \<and> isAllASCII (take (wordSize w) (source d))
      then copyWords w stop (copySource (wordSize w) d) else d)"
  by pat_completeness auto
termination
proof (relation "measure (\<lambda>(w, stop, d). stop - address d)")
  fix w stop and d :: decoding
  assume "address d < stop \<and> isAllASCII (take (wordSize w) (source d))"
  then show "((w, stop, copySource (wordSize w) d), w, stop, d) \<in> measure (\<lambda>(w, stop, d). stop - address d)"
    by (cases w) (auto simp: copySource_def skipSource_def emit_def)
qed simp

declare copyWords.simps [simp del]

text \<open>The ASCII branch of the main loops, at a byte that is ASCII.\<close>

definition copyASCII :: "machine_word \<Rightarrow> nat \<Rightarrow> decoding \<Rightarrow> decoding" where
  "copyASCII w stop d =
     (if address d mod wordSize w = 0
      then let d = copyWords w stop d in
           if source d = [] then d
           else if \<not> isASCIIByte (hd (source d)) then d
           else copySource 1 d
      else copySource 1 d)"

section \<open>Decoding a chunk\<close>

lemma copyWords_source: "\<exists>n. source (copyWords w stop d) = drop n (source d)"
proof (induction w stop d rule: copyWords.induct)
  case (1 w stop d)
  show ?case
  proof (cases "address d < stop \<and> isAllASCII (take (wordSize w) (source d))")
    case True
    with 1 show ?thesis
      unfolding copyWords.simps [of w stop d] by (auto simp: copySource_def)
  qed (auto simp: copyWords.simps [of w stop d] intro: exI [of _ 0])
qed

lemma copyASCII_decreases:
  assumes "source d \<noteq> []" and "isASCIIByte (hd (source d))"
  shows "length (source (copyASCII w stop d)) < length (source d)"
proof -
  obtain n where n: "source (copyWords w stop d) = drop n (source d)" using copyWords_source by blast
  show ?thesis
    using assms n by (cases n) (auto simp: copyASCII_def Let_def copySource_def)
qed

text \<open>The tail of a chunk that ends inside a sequence is kept for the next one.\<close>

definition saveTail :: "decoding \<Rightarrow> decoding" where
  "saveTail d =
     (let n = length (source d); xs = m_partialSequence (codec d) in
      skipSource n (d\<lparr>codec := (codec d)\<lparr>m_partialSequenceSize := n, m_partialSequence := source d @ drop n xs\<rparr>\<rparr>))"

text \<open>The inner loop of the 8-bit part; its answer is whether it jumps to \<^verbatim>\<open>upConvertTo16Bit\<close>.\<close>

function decodeLoop8 :: "machine_word \<Rightarrow> nat \<Rightarrow> bool \<Rightarrow> decoding \<Rightarrow> bool \<times> decoding" where
  "decodeLoop8 w stop stopOnError d =
     (if source d = [] then (False, d)
      else if isASCIIByte (hd (source d)) then decodeLoop8 w stop stopOnError (copyASCII w stop d)
      else let count = nonASCIISequenceLength (hd (source d)) in
        if count \<noteq> 0 \<and> count > length (source d) then (False, saveTail d)
        else let character = (if count = 0 then nonCharacter else decodeNonASCIISequence (source d) count) in
             if character = nonCharacter then (\<not> stopOnError, d\<lparr>sawError := True\<rparr>)
             else if character > 0xFF then (True, d)
             else decodeLoop8 w stop stopOnError (emit [word_of_int character] (skipSource count d)))"
  by pat_completeness auto
termination
  by (relation "measure (\<lambda>(w, stop, stopOnError, d). length (source d))")
    (auto simp: copyASCII_decreases split: if_splits)

text \<open>The inner loop of the 16-bit part.\<close>

function decodeLoop16 :: "machine_word \<Rightarrow> nat \<Rightarrow> bool \<Rightarrow> decoding \<Rightarrow> decoding" where
  "decodeLoop16 w stop stopOnError d =
     (if source d = [] then d
      else if isASCIIByte (hd (source d)) then decodeLoop16 w stop stopOnError (copyASCII w stop d)
      else let count = nonASCIISequenceLength (hd (source d)) in
        if count \<noteq> 0 \<and> count > length (source d) then saveTail d
        else let character = (if count = 0 then nonCharacter else decodeNonASCIISequence (source d) count) in
             if character = nonCharacter
             then if stopOnError then d\<lparr>sawError := True\<rparr>
                  else decodeLoop16 w stop stopOnError
                         (emit [replacementCharacter] (skipSource 1 (d\<lparr>sawError := True\<rparr>)))
             else decodeLoop16 w stop stopOnError (emit (appendCharacter character) (skipSource count d)))"
  by pat_completeness auto
termination
  by (relation "measure (\<lambda>(w, stop, stopOnError, d). length (source d))")
    (auto simp: copyASCII_decreases split: if_splits)

declare decodeLoop8.simps [simp del] decodeLoop16.simps [simp del]

text \<open>
  The outer loops, with the number of iterations bounded by the first argument; they run a
  second time only to flush the tail the first iteration has saved. The characters
  \<^verbatim>\<open>handlePartialSequence<LChar>\<close> wrote are given up when it asks for 16-bit characters.
\<close>

fun decode8 :: "nat \<Rightarrow> machine_word \<Rightarrow> nat \<Rightarrow> bool \<Rightarrow> bool \<Rightarrow> decoding \<Rightarrow> (bool \<times> decoding) option" where
  "decode8 0 w stop flush stopOnError d = None"
| "decode8 (Suc fuel) w stop flush stopOnError d =
     (let (up, d') = (if partialSize d \<noteq> 0 then handlePartialSequence8 flush d else (False, d)) in
      if up then Some (True, d'\<lparr>destination := destination d\<rparr>)
      else if partialSize d' \<noteq> 0 then Some (False, d')
      else let (up, d') = decodeLoop8 w stop stopOnError d' in
           if up then Some (True, d')
           else if flush \<and> partialSize d' \<noteq> 0 then decode8 fuel w stop flush stopOnError d'
           else Some (False, d'))"

fun decode16 :: "nat \<Rightarrow> machine_word \<Rightarrow> nat \<Rightarrow> bool \<Rightarrow> bool \<Rightarrow> decoding \<Rightarrow> decoding option" where
  "decode16 0 w stop flush stopOnError d = None"
| "decode16 (Suc fuel) w stop flush stopOnError d =
     (let d = (if partialSize d \<noteq> 0 then handlePartialSequence16 flush stopOnError d else d) in
      if partialSize d \<noteq> 0 then Some d
      else let d = decodeLoop16 w stop stopOnError d in
           if flush \<and> partialSize d \<noteq> 0 then decode16 fuel w stop flush stopOnError d
           else Some d)"

definition decode ::
  "machine_word \<Rightarrow> nat \<Rightarrow> byte list \<Rightarrow> bool \<Rightarrow> bool \<Rightarrow> bool \<Rightarrow> TextCodecUTF8 \<Rightarrow>
   (wtf_string \<times> bool \<times> TextCodecUTF8) option" where
  "decode w addr bytes flush stopOnError sawError0 c =
     (let d = \<lparr>codec = c, address = addr, source = bytes, destination = [], sawError = sawError0\<rparr>;
          stop = alignedEnd w d in
      case decode8 2 w stop flush stopOnError d of
        None \<Rightarrow> None
      | Some (False, d) \<Rightarrow> Some (WString True (destination d), sawError d, codec d)
      | Some (True, d) \<Rightarrow>
          (case decode16 2 w stop flush stopOnError d of
             None \<Rightarrow> None
           | Some d \<Rightarrow> Some (WString False (destination d), sawError d, codec d)))"

section \<open>Encoding\<close>

definition U16_IS_LEAD :: "uchar \<Rightarrow> bool" where
  "U16_IS_LEAD c \<longleftrightarrow> c AND 0xFC00 = 0xD800"

definition U16_IS_TRAIL :: "uchar \<Rightarrow> bool" where
  "U16_IS_TRAIL c \<longleftrightarrow> c AND 0xFC00 = 0xDC00"

definition U16_GET_SUPPLEMENTARY :: "uchar \<Rightarrow> uchar \<Rightarrow> uchar32" where
  "U16_GET_SUPPLEMENTARY lead trail =
     push_bit 10 (ucast lead) + ucast trail - (push_bit 10 0xD800 + 0xDC00 - 0x10000)"

text \<open>\<^verbatim>\<open>U16_NEXT\<close>: the next code point and the code units after it.\<close>

fun U16_NEXT :: "uchar list \<Rightarrow> uchar32 \<times> uchar list" where
  "U16_NEXT [] = (0, [])"
| "U16_NEXT (c # cs) =
     (if U16_IS_LEAD c
      then case cs of
             d # ds \<Rightarrow> if U16_IS_TRAIL d then (U16_GET_SUPPLEMENTARY c d, ds) else (ucast c, cs)
           | [] \<Rightarrow> (ucast c, cs)
      else (ucast c, cs))"

definition U8_APPEND_UNSAFE :: "uchar32 \<Rightarrow> byte list" where
  "U8_APPEND_UNSAFE c =
     (if c \<le> 0x7F then [ucast c]
      else (if c \<le> 0x7FF then [ucast (drop_bit 6 c OR 0xC0)]
            else (if c \<le> 0xFFFF then [ucast (drop_bit 12 c OR 0xE0)]
                  else [ucast (drop_bit 18 c OR 0xF0), ucast ((drop_bit 12 c AND 0x3F) OR 0x80)])
                 @ [ucast ((drop_bit 6 c AND 0x3F) OR 0x80)])
           @ [ucast ((c AND 0x3F) OR 0x80)])"

lemma U16_NEXT_decreases: "cs \<noteq> [] \<Longrightarrow> length (snd (U16_NEXT cs)) < length cs"
  by (cases cs) (auto split: list.split)

function encode :: "uchar list \<Rightarrow> byte list" where
  "encode cs = (if cs = [] then [] else let (c, rest) = U16_NEXT cs in U8_APPEND_UNSAFE c @ encode rest)"
  by pat_completeness auto
termination
  by (relation "measure length") (auto dest: U16_NEXT_decreases simp: prod_eq_iff)

declare encode.simps [simp del]

end
