(* ===== verification/Text_Codec_Refine.thy ===== *)
theory Text_Codec_Refine
  imports Text_Codec_UTF8
begin

text \<open>
  Correctness of the UTF-8 codec. \<open>utf8Decode\<close> is the reference: a sequence decodes to its code
  units, a byte that starts no valid sequence to U+FFFD; \<open>utf8Stream\<close> is the same but stops
  where the input ends inside a sequence. The chunked decoder with its 8-bit part, its 16-bit
  part, its partial sequence and its word-wise ASCII path computes the reference; one
  pattern of invalid input, which \<open>noHazard\<close> excludes, is the exception, and \<open>encode\<close> never
  produces it.
\<close>

section \<open>Reference\<close>

definition incomplete :: "byte list \<Rightarrow> bool" where
  "incomplete bs \<longleftrightarrow> bs \<noteq> [] \<and> \<not> isASCIIByte (hd bs) \<and> length bs < nonASCIISequenceLength (hd bs)"

definition utf8Step :: "byte list \<Rightarrow> uchar list \<times> bool \<times> nat" where
  "utf8Step bs =
     (if isASCIIByte (hd bs) then ([widen (hd bs)], False, 1)
      else let n = nonASCIISequenceLength (hd bs) in
           if n = 0 \<or> length bs < n \<or> decodeNonASCIISequence bs n = nonCharacter
           then ([replacementCharacter], True, 1)
           else (appendCharacter (decodeNonASCIISequence bs n), False, n))"

lemma utf8Step_consumes: "(cs, e, n) = utf8Step bs \<Longrightarrow> 0 < n"
  by (auto simp: utf8Step_def Let_def split: if_splits)

function utf8Decode :: "byte list \<Rightarrow> uchar list \<times> bool" where
  "utf8Decode bs =
     (if bs = [] then ([], False)
      else let (cs, e, n) = utf8Step bs; (ds, f) = utf8Decode (drop n bs) in (cs @ ds, e \<or> f))"
  by pat_completeness auto
termination
  by (relation "measure length") (auto dest: utf8Step_consumes)

function utf8Stream :: "byte list \<Rightarrow> uchar list \<times> bool \<times> byte list" where
  "utf8Stream bs =
     (if bs = [] \<or> incomplete bs then ([], False, bs)
      else let (cs, e, n) = utf8Step bs; (ds, f, r) = utf8Stream (drop n bs) in (cs @ ds, e \<or> f, r))"
  by pat_completeness auto
termination
  by (relation "measure length") (auto dest: utf8Step_consumes)

declare utf8Decode.simps [simp del] utf8Stream.simps [simp del]

lemma decode_cong:
  assumes "take n xs = take n ys" and "n \<le> length xs" and "n \<le> length ys" and "n \<in> {2, 3, 4}"
  shows "decodeNonASCIISequence xs n = decodeNonASCIISequence ys n"
proof -
  have nth: "xs ! i = ys ! i" if "i < n" for i using assms that by (metis nth_take)
  have "xs ! 0 = ys ! 0" "xs ! 1 = ys ! 1" "2 < n \<Longrightarrow> xs ! 2 = ys ! 2" "3 < n \<Longrightarrow> xs ! 3 = ys ! 3"
    using assms(4) by (auto intro: nth)
  with assms(4) show ?thesis
    unfolding decodeNonASCIISequence_def Let_def by (elim insertE emptyE) simp_all
qed

lemma lengths_cases: "nonASCIISequenceLength b \<in> {0, 2, 3, 4}"
proof -
  have "unat b < 256" using unsigned_less [of b, where ?'a = nat] by simp
  then have "lengths ! unat b \<in> set lengths" by (intro nth_mem) (simp add: lengths_def)
  then show ?thesis by (auto simp: lengths_def nonASCIISequenceLength_def)
qed

lemma length_le_4: "nonASCIISequenceLength b \<le> 4"
  using lengths_cases [of b] by auto

lemma utf8Step_append:
  assumes "bs \<noteq> []" and "\<not> incomplete bs"
  shows "utf8Step (bs @ cs) = utf8Step bs"
proof (cases "isASCIIByte (hd bs) \<or> nonASCIISequenceLength (hd bs) = 0")
  case False
  let ?n = "nonASCIISequenceLength (hd bs)"
  have n: "?n \<le> length bs" "?n \<in> {2, 3, 4}" using assms False lengths_cases [of "hd bs"] by (auto simp: incomplete_def)
  then have "decodeNonASCIISequence (bs @ cs) ?n = decodeNonASCIISequence bs ?n" by (intro decode_cong) auto
  with assms n show ?thesis by (simp add: utf8Step_def Let_def)
qed (use assms in \<open>auto simp: utf8Step_def\<close>)

lemma utf8Step_fits:
  assumes "bs \<noteq> []"
  shows "snd (snd (utf8Step bs)) \<le> length bs"
  using assms by (cases bs) (auto simp: utf8Step_def Let_def)

lemma utf8Stream_rest:
  "utf8Stream bs = (out, e, r) \<Longrightarrow> (r = [] \<or> incomplete r) \<and> (\<exists>k. r = drop k bs)"
proof (induction bs arbitrary: out e rule: utf8Stream.induct)
  case (1 bs)
  show ?case
  proof (cases "bs = [] \<or> incomplete bs")
    case True
    with 1(2) show ?thesis by (auto simp: utf8Stream.simps [of bs] intro: exI [of _ 0])
  next
    case False
    obtain cs f n where s: "utf8Step bs = (cs, f, n)" by (metis prod_cases3)
    obtain ds g where "utf8Stream (drop n bs) = (ds, g, r)"
      using 1(2) False s by (auto simp: utf8Stream.simps [of bs] split: prod.splits)
    from 1(1) [OF False s [symmetric] refl refl this] show ?thesis by auto
  qed
qed

lemma utf8Stream_step:
  assumes "bs \<noteq> []" and "\<not> incomplete bs" and "utf8Step bs = (cs, e, n)"
  shows "utf8Stream bs = (case utf8Stream (drop n bs) of (ds, f, r) \<Rightarrow> (cs @ ds, e \<or> f, r))"
  using assms by (subst utf8Stream.simps) simp

lemma utf8Decode_step:
  assumes "bs \<noteq> []" and "utf8Step bs = (cs, e, n)"
  shows "utf8Decode bs = (case utf8Decode (drop n bs) of (ds, f) \<Rightarrow> (cs @ ds, e \<or> f))"
  using assms by (subst utf8Decode.simps) simp

text \<open>Input may be streamed in pieces, and the end of the input decoded on its own.\<close>

lemma utf8Stream_append:
  "utf8Stream (bs @ cs) =
     (case utf8Stream bs of (out, e, r) \<Rightarrow> case utf8Stream (r @ cs) of (out', e', r') \<Rightarrow> (out @ out', e \<or> e', r'))"
proof (induction bs rule: utf8Stream.induct)
  case (1 bs)
  show ?case
  proof (cases "bs = [] \<or> incomplete bs")
    case True
    then have "utf8Stream bs = ([], False, bs)" by (subst utf8Stream.simps) simp
    then show ?thesis by (auto split: prod.split)
  next
    case False
    obtain ds e n where s: "utf8Step bs = (ds, e, n)" by (metis prod_cases3)
    have "\<not> incomplete (bs @ cs)" using False by (auto simp: incomplete_def)
    moreover have "n \<le> length bs" using utf8Step_fits [of bs] False s by simp
    ultimately show ?thesis
      using False s 1 [OF False s [symmetric] refl refl] utf8Step_append [of bs cs]
      by (auto simp: utf8Stream_step [of bs ds e n] utf8Stream_step [of "bs @ cs" ds e n] split: prod.splits)
  qed
qed

lemma utf8Decode_stream:
  "utf8Decode bs = (case utf8Stream bs of (out, e, r) \<Rightarrow> case utf8Decode r of (out', e') \<Rightarrow> (out @ out', e \<or> e'))"
proof (induction bs rule: utf8Stream.induct)
  case (1 bs)
  show ?case
  proof (cases "bs = [] \<or> incomplete bs")
    case True
    then have "utf8Stream bs = ([], False, bs)" by (subst utf8Stream.simps) simp
    then show ?thesis by (auto split: prod.split)
  next
    case False
    obtain ds e n where s: "utf8Step bs = (ds, e, n)" by (metis prod_cases3)
    with False 1 [OF False s [symmetric] refl refl] show ?thesis
      by (auto simp: utf8Stream_step [of bs ds e n] utf8Decode_step [of bs ds e n] split: prod.splits)
  qed
qed

text \<open>What a chunk has to become: the whole of it with \<open>flush\<close>, otherwise all but an incomplete tail.\<close>

definition process :: "bool \<Rightarrow> byte list \<Rightarrow> uchar list \<times> bool \<times> byte list" where
  "process flush bs = (if flush then case utf8Decode bs of (out, e) \<Rightarrow> (out, e, []) else utf8Stream bs)"

lemma process_Nil [simp]: "process flush [] = ([], False, [])"
  by (simp add: process_def utf8Decode.simps utf8Stream.simps)

lemma process_incomplete: "incomplete bs \<Longrightarrow> process False bs = ([], False, bs)"
  by (simp add: process_def utf8Stream.simps)

lemma process_step:
  assumes "bs \<noteq> []" and "incomplete bs \<Longrightarrow> flush" and "utf8Step bs = (cs, e, n)"
  shows "process flush bs = (case process flush (drop n bs) of (ds, f, r) \<Rightarrow> (cs @ ds, e \<or> f, r))"
proof (cases flush)
  case False
  with assms(2) have "\<not> incomplete bs" by blast
  with False assms show ?thesis by (simp add: process_def utf8Stream_step)
qed (use assms in \<open>auto simp: process_def utf8Decode_step split: prod.splits\<close>)

section \<open>The invariant of a call\<close>

definition pend :: "decoding \<Rightarrow> byte list" where
  "pend d = take (partialSize d) (m_partialSequence (codec d))"

definition codec_wf :: "decoding \<Rightarrow> bool" where
  "codec_wf d \<longleftrightarrow> length (m_partialSequence (codec d)) = 4 \<and> partialSize d \<le> 4"

text \<open>What a call delivers in the end: the code units, whether there was an error, the tail.\<close>

definition delivers :: "bool \<Rightarrow> decoding \<Rightarrow> uchar list \<times> bool \<times> byte list" where
  "delivers flush d =
     (case process flush (pend d @ source d) of (out, e, r) \<Rightarrow> (destination d @ out, sawError d \<or> e, r))"

lemma pend_simps [simp]:
  "pend (emit cs d) = pend d" "pend (skipSource n d) = pend d" "pend (d\<lparr>sawError := b\<rparr>) = pend d"
  "codec_wf (emit cs d) = codec_wf d" "codec_wf (skipSource n d) = codec_wf d" "codec_wf (d\<lparr>sawError := b\<rparr>) = codec_wf d"
  "destination (emit cs d) = destination d @ cs" "destination (skipSource n d) = destination d"
  "sawError (emit cs d) = sawError d" "sawError (skipSource n d) = sawError d"
  "codec (emit cs d) = codec d" "codec (skipSource n d) = codec d" "partialSize (d\<lparr>sawError := b\<rparr>) = partialSize d"
  by (simp_all add: pend_def codec_wf_def partialSize_def emit_def skipSource_def)

lemma pend_length: "codec_wf d \<Longrightarrow> length (pend d) = partialSize d"
  by (simp add: codec_wf_def pend_def)

lemma pend_Nil: "partialSize d = 0 \<Longrightarrow> pend d = []"
  by (simp add: pend_def)

lemma pend_hd: "codec_wf d \<Longrightarrow> partialSize d \<noteq> 0 \<Longrightarrow> m_partialSequence (codec d) ! 0 = hd (pend d) \<and> pend d \<noteq> []"
  by (cases "m_partialSequence (codec d)") (auto simp: codec_wf_def pend_def take_Cons')

lemma consume_pend:
  assumes "codec_wf d" and "partialSize d \<noteq> 0"
  shows "pend (d\<lparr>codec := consumePartialSequenceByte (codec d)\<rparr>) = tl (pend d)"
    and "codec_wf (d\<lparr>codec := consumePartialSequenceByte (codec d)\<rparr>)"
    and "partialSize (d\<lparr>codec := consumePartialSequenceByte (codec d)\<rparr>) = partialSize d - 1"
  using assms
  by (auto simp: codec_wf_def pend_def partialSize_def consumePartialSequenceByte_def Let_def tl_take drop_Suc)

lemma add_pend:
  assumes "codec_wf d" and "partialSize d + length bs \<le> 4"
  shows "pend (d\<lparr>codec := addToPartialSequence bs (codec d)\<rparr>) = pend d @ bs"
    and "codec_wf (d\<lparr>codec := addToPartialSequence bs (codec d)\<rparr>)"
  using assms by (auto simp: codec_wf_def pend_def partialSize_def addToPartialSequence_def Let_def)

lemma complete_pend:
  assumes "codec_wf d" and "partialSize d < n" and "n \<le> 4" and "n - partialSize d \<le> length (source d)"
  shows "pend (completeSequence n d) = pend d @ take (n - partialSize d) (source d)"
    and "codec_wf (completeSequence n d)" and "partialSize (completeSequence n d) = n"
    and "pend (completeSequence n d) @ source (completeSequence n d) = pend d @ source d"
    and "destination (completeSequence n d) = destination d" and "sawError (completeSequence n d) = sawError d"
proof -
  let ?bs = "take (n - partialSize d) (source d)"
  have "partialSize d + length ?bs \<le> 4" using assms by simp
  note a = add_pend [OF assms(1) this]
  show p: "pend (completeSequence n d) = pend d @ ?bs" "codec_wf (completeSequence n d)"
    using a by (simp_all add: completeSequence_def Let_def)
  show "partialSize (completeSequence n d) = n" using assms by simp
  from p(1) show "pend (completeSequence n d) @ source (completeSequence n d) = pend d @ source d" by simp
  show "destination (completeSequence n d) = destination d" "sawError (completeSequence n d) = sawError d"
    by (simp_all add: completeSequence_def Let_def)
qed

section \<open>The partial sequence\<close>

text \<open>
  When a valid sequence is followed by more bytes in the partial sequence, the code shortens
  the partial sequence at the wrong end. That needs a lead byte of a four-byte sequence
  followed by a valid two-byte sequence and another byte.
\<close>

fun noHazard :: "byte list \<Rightarrow> bool" where
  "noHazard (x # y # z # v # bs) \<longleftrightarrow>
     \<not> (nonASCIISequenceLength x = 4 \<and> nonASCIISequenceLength y = 2
        \<and> decodeNonASCIISequence [y, z] 2 \<noteq> nonCharacter) \<and> noHazard (y # z # v # bs)"
| "noHazard bs \<longleftrightarrow> True"

lemma noHazard_short: "length bs < 4 \<Longrightarrow> noHazard bs"
  by (induction bs rule: noHazard.induct) auto

lemma noHazard_tl: "noHazard bs \<Longrightarrow> noHazard (tl bs)"
  by (induction bs rule: noHazard.induct) auto

lemma noHazard_drop: "noHazard bs \<Longrightarrow> noHazard (drop n bs)"
  by (induction n arbitrary: bs) (auto simp: drop_Suc noHazard_tl)

lemma noHazard_append: "noHazard (bs @ cs) \<Longrightarrow> noHazard bs"
  by (induction bs rule: noHazard.induct) auto

definition ready :: "byte list \<Rightarrow> byte list \<Rightarrow> bool" where
  "ready p bs \<longleftrightarrow>
     (p = [] \<or> isASCIIByte (hd p) \<or> length p \<le> nonASCIISequenceLength (hd p) \<or> nonASCIISequenceLength (hd p) = 0
      \<or> decodeNonASCIISequence p (nonASCIISequenceLength (hd p)) = nonCharacter) \<and>
     (length p \<le> 3 \<or> \<not> isASCIIByte (hd p) \<and> nonASCIISequenceLength (hd p) = length p) \<and>
     noHazard (p @ bs)"

lemma ready_short: "length p \<le> 2 \<Longrightarrow> noHazard (p @ bs) \<Longrightarrow> ready p bs"
  using lengths_cases [of "hd p"] by (auto simp: ready_def)

lemma ready_tl:
  assumes "ready p bs" and "p \<noteq> []" and "length p \<le> 4"
  shows "ready (tl p) bs"
proof (cases "length p = 4")
  case False
  with assms show ?thesis using noHazard_tl [of "p @ bs"] by (intro ready_short) (auto simp: ready_def)
next
  case True
  then obtain x y z w where p: "p = [x, y, z, w]" by (auto simp: length_Suc_conv numeral_eq_Suc)
  with assms have x: "nonASCIISequenceLength x = 4" "noHazard (x # y # z # w # bs)" by (auto simp: ready_def)
  have "decodeNonASCIISequence [y, z, w] 2 = decodeNonASCIISequence [y, z] 2" by (rule decode_cong) auto
  with x p lengths_cases [of y] show ?thesis by (auto simp: ready_def)
qed

lemma decode_array:
  assumes "codec_wf d" and "n \<le> partialSize d" and "n \<in> {2, 3, 4}"
  shows "decodeNonASCIISequence (m_partialSequence (codec d)) n = decodeNonASCIISequence (pend d @ bs) n"
  using assms by (intro decode_cong) (auto simp: codec_wf_def pend_def min_def)

lemma handleError_False:
  "handleError False d = (emit [replacementCharacter] (d\<lparr>sawError := True\<rparr>))\<lparr>codec := consumePartialSequenceByte (codec d)\<rparr>"
  by (simp add: handleError_def Let_def)

text \<open>An iteration that consumes the first byte, for ASCII or with an error.\<close>

lemma consume_total:
  assumes "codec_wf d" and "partialSize d \<noteq> 0" and "ready (pend d) (source d)"
    and "utf8Step (pend d @ source d) = (cs, e, 1)" and "incomplete (pend d @ source d) \<Longrightarrow> flush"
    and "d' = (emit cs (d\<lparr>sawError := sawError d \<or> e\<rparr>))\<lparr>codec := consumePartialSequenceByte (codec d)\<rparr>"
  shows "codec_wf d' \<and> ready (pend d') (source d') \<and> delivers flush d' = delivers flush d"
proof -
  have ne: "pend d \<noteq> []" using pend_hd [OF assms(1,2)] by simp
  note c = consume_pend [OF assms(1,2)]
  have p: "pend d' = tl (pend d)" "codec_wf d'" "source d' = source d" "destination d' = destination d @ cs"
    "sawError d' = (sawError d \<or> e)"
    using c assms(6) by (simp_all add: pend_def partialSize_def codec_wf_def emit_def)
  moreover have "ready (tl (pend d)) (source d)"
    using ready_tl [OF assms(3) ne] pend_length [OF assms(1)] assms(1) by (simp add: codec_wf_def)
  moreover have "drop 1 (pend d @ source d) = tl (pend d) @ source d" using ne by (cases "pend d") auto
  ultimately show ?thesis
    using process_step [of "pend d @ source d" flush, OF _ assms(5,4)] ne
    by (auto simp: delivers_def split: prod.splits)
qed

lemma partialError_total:
  assumes "codec_wf d" and "partialSize d \<noteq> 0" and "ready (pend d) (source d)"
    and "utf8Step (pend d @ source d) = ([replacementCharacter], True, 1)"
    and "incomplete (pend d @ source d) \<Longrightarrow> flush"
  shows "\<exists>d'. partialError False d = Continue d' \<and> codec_wf d' \<and> ready (pend d') (source d')
    \<and> delivers flush d' = delivers flush d"
  using consume_total [OF assms refl] by (simp add: partialError_def Let_def handleError_False)

lemma partialStep16_ok:
  assumes wf: "codec_wf d" and ne: "partialSize d \<noteq> 0" and ready: "ready (pend d) (source d)"
  shows "(\<exists>d'. partialStep16 flush False d = Continue d' \<and> codec_wf d' \<and> ready (pend d') (source d')
           \<and> delivers flush d' = delivers flush d)
    \<or> partialStep16 flush False d = Finish False (keepSource d) \<and> \<not> flush \<and> incomplete (pend d @ source d)"
proof -
  let ?b = "hd (pend d)" and ?n = "nonASCIISequenceLength (hd (pend d))" and ?bs = "pend d @ source d"
  have b: "m_partialSequence (codec d) ! 0 = ?b" "pend d \<noteq> []" using pend_hd [OF wf ne] by auto
  have hd: "hd ?bs = ?b" using b(2) by simp
  have len: "length (pend d) = partialSize d" by (rule pend_length) (rule wf)
  consider (ascii) "isASCIIByte ?b" | (zero) "\<not> isASCIIByte ?b" "?n = 0"
    | (short) "\<not> isASCIIByte ?b" "?n > partialSize d" "?n - partialSize d > length (source d)"
    | (whole) "\<not> isASCIIByte ?b" "?n \<noteq> 0" "\<not> (?n > partialSize d \<and> ?n - partialSize d > length (source d))"
    by auto
  then show ?thesis
  proof cases
    case ascii
    with hd have "utf8Step ?bs = ([widen ?b], False, 1)" "\<not> incomplete ?bs"
      by (simp_all add: utf8Step_def incomplete_def)
    from consume_total [OF wf ne ready this(1) _ refl] this(2) ascii b(1) show ?thesis
      by (simp add: partialStep16_def consumeASCII_def)
  next
    case zero
    with hd have "utf8Step ?bs = ([replacementCharacter], True, 1)" "\<not> incomplete ?bs"
      by (simp_all add: utf8Step_def incomplete_def)
    from partialError_total [OF wf ne ready this(1)] this(2) zero b(1) show ?thesis
      by (auto simp: partialStep16_def)
  next
    case short
    with hd len b(2) have "utf8Step ?bs = ([replacementCharacter], True, 1)" "incomplete ?bs"
      by (auto simp: utf8Step_def incomplete_def Let_def)
    with partialError_total [OF wf ne ready this(1)] short b(1) show ?thesis
      by (auto simp: partialStep16_def)
  next
    case whole
    let ?e = "if ?n > partialSize d then completeSequence ?n d else d"
    have n: "?n \<in> {2, 3, 4}" "?n \<le> 4" using lengths_cases [of ?b] whole(2) by auto
    have e: "codec_wf ?e" "?n \<le> partialSize ?e" "pend ?e @ source ?e = ?bs" "destination ?e = destination d"
      "sawError ?e = sawError d" "hd (pend ?e) = ?b" "partialSize ?e = max ?n (partialSize d)"
      using wf whole(3) n(2) complete_pend [OF wf _ n(2)] b(2) by (auto simp: not_less)
    have r: "ready (pend ?e) (source ?e)"
    proof (cases "?n > partialSize d")
      case True
      have "length (pend ?e) = ?n" using e(1,7) pend_length [of ?e] True by simp
      with e(3,6) ready whole(1) show ?thesis by (auto simp: ready_def simp del: if_split)
    qed (use ready in simp)
    let ?c = "decodeNonASCIISequence (m_partialSequence (codec ?e)) ?n"
    have dec: "?c = decodeNonASCIISequence ?bs ?n" using decode_array [OF e(1,2) n(1), of "source ?e"] e(3) by simp
    have fit: "?n \<le> length ?bs" using whole(3) len by auto
    have step: "partialStep16 flush False d = (if ?c = nonCharacter then partialError False ?e
        else Continue (emit (appendCharacter ?c) (dropSequence ?n ?e)))"
      using whole b(1) unfolding partialStep16_def Let_def by auto
    have ni: "\<not> incomplete ?bs" using fit hd by (simp add: incomplete_def)
    have tot: "delivers flush ?e = delivers flush d" using e(3-5) by (simp add: delivers_def)
    show ?thesis
    proof (cases "?c = nonCharacter")
      case True
      with hd whole dec have "utf8Step ?bs = ([replacementCharacter], True, 1)" by (simp add: utf8Step_def Let_def)
      moreover have "partialSize ?e \<noteq> 0" using e(7) ne by simp
      ultimately have "\<exists>d'. partialError False ?e = Continue d' \<and> codec_wf d' \<and> ready (pend d') (source d')
          \<and> delivers flush d' = delivers flush ?e"
        using ni e(3) by (intro partialError_total [OF e(1) _ r]) simp_all
      with step True tot show ?thesis by auto
    next
      case False
      have "partialSize ?e = ?n"
      proof -
        have "partialSize d \<le> ?n"
        proof (rule ccontr)
          assume "\<not> partialSize d \<le> ?n"
          with ready whole(1,2) b(2) len have "decodeNonASCIISequence (pend d) ?n = nonCharacter" by (auto simp: ready_def)
          moreover have "?c = decodeNonASCIISequence (pend d) ?n"
            using decode_array [OF e(1,2) n(1), of "[]"] \<open>\<not> partialSize d \<le> ?n\<close> by simp
          ultimately show False using False by simp
        qed
        then show ?thesis using e(7) by simp
      qed
      let ?d = "emit (appendCharacter ?c) (dropSequence ?n ?e)"
      have "pend ?e = take ?n ?bs" "source ?e = drop ?n ?bs"
        using e(3) pend_length [OF e(1)] \<open>partialSize ?e = ?n\<close> by (metis append_eq_conv_conj)+
      have d: "pend ?d = []" "codec_wf ?d" "source ?d = drop ?n ?bs" "destination ?d = destination d @ appendCharacter ?c"
        "sawError ?d = sawError d"
        using e(1,4,5) \<open>partialSize ?e = ?n\<close> \<open>source ?e = drop ?n ?bs\<close>
        by (simp_all add: pend_def partialSize_def dropSequence_def codec_wf_def)
      have "utf8Step ?bs = (appendCharacter ?c, False, ?n)"
        using False hd whole dec fit by (simp add: utf8Step_def Let_def)
      from process_step [OF _ _ this, of flush] b(2) ni d have "delivers flush ?d = delivers flush d"
        by (auto simp: delivers_def split: prod.splits)
      moreover have "ready (pend ?d) (source ?d)"
        using d(1,3) ready noHazard_drop [of ?bs ?n] by (auto simp: ready_def)
      ultimately show ?thesis using step False d(2) by auto
    qed
  qed
qed

text \<open>The partial sequence is used up, or the chunk is too short to complete it and was added to it.\<close>

definition finished :: "bool \<Rightarrow> decoding \<Rightarrow> decoding \<Rightarrow> bool" where
  "finished flush d d' \<longleftrightarrow>
     codec_wf d' \<and> partialSize d' < 4 \<and> (pend d' = [] \<or> \<not> flush \<and> incomplete (pend d')) \<and>
     delivers flush d = (destination d', sawError d', pend d')"

lemma keepSource_finished:
  assumes "codec_wf d" and "incomplete (pend d @ source d)" and "partialSize d \<noteq> 0"
  shows "finished False d (keepSource d) \<and> partialSize (keepSource d) \<noteq> 0"
proof -
  have len: "length (pend d) + length (source d) < nonASCIISequenceLength (hd (pend d @ source d))"
    using assms(2) by (simp add: incomplete_def)
  moreover have "nonASCIISequenceLength (hd (pend d @ source d)) \<le> 4" by (rule length_le_4)
  ultimately have "partialSize d + length (source d) < 4" using pend_length [OF assms(1)] by simp
  with add_pend [OF assms(1), of "source d"]
  have k: "pend (keepSource d) = pend d @ source d" "codec_wf (keepSource d)" "partialSize (keepSource d) < 4"
    using pend_length [OF assms(1)] pend_length [of "keepSource d"] by (simp_all add: keepSource_def)
  moreover have "destination (keepSource d) = destination d" "sawError (keepSource d) = sawError d"
    by (simp_all add: keepSource_def)
  moreover have "partialSize (keepSource d) \<noteq> 0" using k pend_Nil [of "keepSource d"] assms(2) by (auto simp: incomplete_def)
  ultimately show ?thesis using assms(2) process_incomplete by (simp add: finished_def delivers_def)
qed

lemma handlePartialSequence16_ok:
  assumes "codec_wf d" and "ready (pend d) (source d)"
  shows "let d' = handlePartialSequence16 flush False d in
    partialSize d' = 0 \<and> codec_wf d' \<and> noHazard (source d') \<and> delivers flush d' = delivers flush d
    \<or> partialSize d' \<noteq> 0 \<and> \<not> flush \<and> finished flush d d'"
  using assms
proof (induction "remaining d" arbitrary: d rule: less_induct)
  case less
  show ?case
  proof (cases "partialSize d = 0")
    case True
    then show ?thesis
      using less.prems pend_Nil [OF True] by (simp add: handlePartialSequence16.simps [of flush False d] ready_def)
  next
    case False
    from partialStep16_ok [OF less.prems(1) False less.prems(2), of flush] show ?thesis
    proof (elim disjE exE conjE)
      fix d' assume s: "partialStep16 flush False d = Continue d'" "codec_wf d'" "ready (pend d') (source d')"
        "delivers flush d' = delivers flush d"
      from less.hyps [OF partialStep16_decreases [OF s(1) False] s(2,3)] s show ?thesis
        unfolding handlePartialSequence16.simps [of flush False d] using False by (simp add: finished_def)
    next
      assume "partialStep16 flush False d = Finish False (keepSource d)" "\<not> flush" "incomplete (pend d @ source d)"
      then show ?thesis
        unfolding handlePartialSequence16.simps [of flush False d]
        using False keepSource_finished [OF less.prems(1) _ False] by simp
    qed
  qed
qed

lemma handlePartialSequence16_source: "source d = [] \<Longrightarrow> source (handlePartialSequence16 flush False d) = []"
proof (induction "remaining d" arbitrary: d rule: less_induct)
  case less
  show ?case
  proof (cases "partialStep16 flush False d")
    case (Continue d')
    then have "source d' = []"
      using less.prems by (auto simp: partialStep16_def partialError_def Let_def split: if_splits)
    with less.hyps [of d'] partialStep16_decreases [OF Continue] Continue less.prems show ?thesis
      by (simp add: handlePartialSequence16.simps [of flush False d])
  next
    case (Finish b d')
    then have "source d' = []"
      using less.prems by (auto simp: partialStep16_def partialError_def keepSource_def Let_def split: if_splits)
    with Finish less.prems show ?thesis by (simp add: handlePartialSequence16.simps [of flush False d])
  qed
qed

lemma noHazard_appendD: "noHazard (bs @ cs) \<Longrightarrow> noHazard cs"
  using noHazard_drop [of "bs @ cs" "length bs"] by simp

section \<open>The ASCII fast path\<close>

lemma isAllASCII_iff: "isAllASCII bs \<longleftrightarrow> list_all isASCIIByte bs"
proof -
  have mask: "(NOT 0x7F :: byte) = 0x80" by simp
  show ?thesis unfolding isAllASCII_def isASCIIByte_def [abs_def] mask ..
qed

lemma process_ascii:
  assumes "list_all isASCIIByte as"
  shows "process flush (as @ bs) = (case process flush bs of (out, e, r) \<Rightarrow> (map widen as @ out, e, r))"
  using assms
proof (induction as)
  case (Cons a as)
  then have "utf8Step (a # as @ bs) = ([widen a], False, 1)" "\<not> incomplete (a # as @ bs)"
    by (simp_all add: utf8Step_def incomplete_def)
  with Cons process_step [of "a # as @ bs" flush "[widen a]" False 1] show ?case by (auto split: prod.splits)
qed (simp split: prod.splits)

definition main_ok :: "decoding \<Rightarrow> bool" where
  "main_ok d \<longleftrightarrow> codec_wf d \<and> partialSize d = 0"

lemma main_frame [simp]:
  "main_ok (emit cs d) = main_ok d" "main_ok (skipSource n d) = main_ok d" "main_ok (d\<lparr>sawError := b\<rparr>) = main_ok d"
  by (simp_all add: main_ok_def)

lemma main_pend: "main_ok d \<Longrightarrow> pend d = []"
  by (simp add: main_ok_def pend_def)

lemma copySource_ok:
  assumes "main_ok d" and "list_all isASCIIByte (take n (source d))"
  shows "main_ok (copySource n d) \<and> delivers flush (copySource n d) = delivers flush d"
  using assms process_ascii [OF assms(2), of flush "drop n (source d)"]
  by (auto simp: copySource_def delivers_def main_pend split: prod.splits)

lemma copyWords_ok:
  assumes "main_ok d"
  shows "main_ok (copyWords w stop d) \<and> delivers flush (copyWords w stop d) = delivers flush d"
  using assms
proof (induction w stop d rule: copyWords.induct)
  case (1 w stop d)
  show ?case
  proof (cases "address d < stop \<and> isAllASCII (take (wordSize w) (source d))")
    case True
    with copySource_ok [OF 1(2), of "wordSize w" flush] 1(1) show ?thesis
      unfolding copyWords.simps [of w stop d] by (simp add: isAllASCII_iff)
  qed (use 1(2) in \<open>auto simp: copyWords.simps [of w stop d]\<close>)
qed

lemma copyASCII_ok:
  assumes "main_ok d" and "source d \<noteq> []" and "isASCIIByte (hd (source d))"
  shows "main_ok (copyASCII w stop d) \<and> delivers flush (copyASCII w stop d) = delivers flush d"
proof -
  have one: "list_all isASCIIByte (take 1 (source x))" if "source x \<noteq> []" "isASCIIByte (hd (source x))" for x
    using that by (cases "source x") auto
  from copyWords_ok [OF assms(1), of w stop flush] copySource_ok [OF assms(1) one, of flush]
    copySource_ok [OF _ one, of "copyWords w stop d" flush] assms
  show ?thesis by (auto simp: copyASCII_def Let_def)
qed

text \<open>Every word the fast path reads lies inside the chunk.\<close>

lemma aligned_word_inside:
  assumes "address d mod wordSize w = 0" and "address d < alignedEnd w d"
  shows "wordSize w \<le> length (source d)"
proof -
  let ?k = "wordSize w" and ?e = "address d + length (source d)"
  have k: "0 < ?k" by (cases w) auto
  obtain q where q: "address d = ?k * q" using assms(1) by (auto simp: mod_eq_0_iff_dvd dvd_def)
  have "?e - ?e mod ?k = ?k * (?e div ?k)" by (simp add: minus_mod_eq_mult_div)
  with assms(2) q k have "q < ?e div ?k" by (simp add: alignedEnd_def Let_def)
  then have "?k * (q + 1) \<le> ?k * (?e div ?k)" by (intro mult_le_mono2) simp
  also have "\<dots> \<le> ?e" by simp
  finally show ?thesis using q by simp
qed

section \<open>The characters of sequences\<close>

lemma sequenceLength_uint:
  "nonASCIISequenceLength b =
     (if uint b < 0x80 then 0 else if uint b < 0xE0 then 2 else if uint b < 0xF0 then 3
      else if uint b < 0xF5 then 4 else 0)"
proof -
  have u: "unat b < 256" "uint b = int (unat b)" using unsigned_less [of b, where ?'a = nat] by simp_all
  consider "unat b < 128" | "128 \<le> unat b" "unat b < 224" | "224 \<le> unat b" "unat b < 240"
    | "240 \<le> unat b" "unat b < 245" | "245 \<le> unat b" by linarith
  then show ?thesis
    using u by cases (auto simp: nonASCIISequenceLength_def lengths_def nth_append simp del: of_nat_unat)
qed

lemma decode_range:
  assumes "decodeNonASCIISequence bs n = c" and "c \<noteq> nonCharacter" and "n = nonASCIISequenceLength (hd bs)"
    and "n \<noteq> 0" and "bs \<noteq> []"
  shows "(n = 2 \<longrightarrow> 0x80 \<le> c \<and> c \<le> 0x7FF) \<and> (n = 3 \<longrightarrow> 0x800 \<le> c \<and> c \<le> 0xFFFF \<and> \<not> (0xD800 \<le> c \<and> c \<le> 0xDFFF))
    \<and> (n = 4 \<longrightarrow> 0x10000 \<le> c \<and> c \<le> 0x10FFFF)"
proof -
  have hd: "hd bs = bs ! 0" using assms(5) by (simp add: hd_conv_nth)
  consider "n = 2" | "n = 3" | "n = 4" using assms(3,4) lengths_cases [of "hd bs"] by auto
  then show ?thesis
  proof cases
    case 1
    with assms hd show ?thesis
      by (auto simp: decodeNonASCIISequence_def Let_def sequenceLength_uint push_bit_eq_mult word_less_def
          word_uint_eq_iff split: if_splits)
  next
    case 2
    let ?b = "\<lambda>i. uint (bs ! i)"
    have lead: "0xE0 \<le> ?b 0" "?b 0 \<le> 0xEF"
      using assms(3) hd 2 by (auto simp: sequenceLength_uint split: if_splits)
    have eq: "bs ! 0 = 0xE0 \<longleftrightarrow> ?b 0 = 0xE0" "bs ! 0 = 0xED \<longleftrightarrow> ?b 0 = 0xED" by (simp_all add: word_uint_eq_iff)
    have c: "c = ?b 0 * 0x1000 + ?b 1 * 0x40 + ?b 2 - 0xE2080"
      using assms(1,2) 2 by (simp add: decodeNonASCIISequence_def Let_def push_bit_eq_mult split: if_splits)
    have "?b 0 = 0xE0 \<longrightarrow> 0xA0 \<le> ?b 1" "?b 0 = 0xED \<longrightarrow> ?b 1 \<le> 0x9F" "0x80 \<le> ?b 1" "?b 1 \<le> 0xBF"
      "0x80 \<le> ?b 2" "?b 2 \<le> 0xBF"
      using assms(1,2) 2 unfolding decodeNonASCIISequence_def Let_def word_less_def eq by (auto split: if_splits)
    with lead c 2 show ?thesis
      by (cases "?b 0 = 0xE0"; cases "?b 0 = 0xED"; cases "?b 0 < 0xED") auto
  next
    case 3
    with assms hd show ?thesis
      by (auto simp: decodeNonASCIISequence_def Let_def sequenceLength_uint push_bit_eq_mult word_less_def
          word_uint_eq_iff split: if_splits)
  qed
qed

lemma decode_nonneg:
  "decodeNonASCIISequence bs n \<noteq> nonCharacter \<Longrightarrow> n = nonASCIISequenceLength (hd bs) \<Longrightarrow> n \<noteq> 0 \<Longrightarrow> bs \<noteq> [] \<Longrightarrow>
   0 \<le> decodeNonASCIISequence bs n"
  using decode_range [of bs n, OF refl] lengths_cases [of "hd bs"] by auto

lemma appendCharacter_BMP:
  assumes "0 \<le> c" and "c \<le> 0xFFFF"
  shows "appendCharacter c = [word_of_int c]"
proof -
  have u: "uint (word_of_int c :: uchar32) = c" using assms by (simp add: uint_word_of_int)
  then have "(word_of_int c :: uchar32) \<le> 0xFFFF" using assms by (simp add: word_le_def)
  moreover have "(ucast (word_of_int c :: uchar32) :: uchar) = word_of_int c" using u by (metis word_of_int_uint ucast_eq)
  ultimately show ?thesis by (simp add: appendCharacter_def append32_def)
qed

section \<open>The main loops\<close>

lemma saveTail_ok:
  assumes "main_ok d" and "incomplete (source d)"
  shows "codec_wf (saveTail d)" "pend (saveTail d) = source d" "source (saveTail d) = []"
    "partialSize (saveTail d) < 4" "partialSize (saveTail d) \<noteq> 0"
    "delivers flush (saveTail d) = delivers flush d" "destination (saveTail d) = destination d"
proof -
  have len: "length (source d) < 4" "source d \<noteq> []"
    using assms(2) length_le_4 [of "hd (source d)"] by (auto simp: incomplete_def)
  with assms(1) show s: "codec_wf (saveTail d)" "pend (saveTail d) = source d" "source (saveTail d) = []"
    "partialSize (saveTail d) < 4" "partialSize (saveTail d) \<noteq> 0" "destination (saveTail d) = destination d"
    by (auto simp: main_ok_def codec_wf_def pend_def partialSize_def saveTail_def Let_def skipSource_def)
  then show "delivers flush (saveTail d) = delivers flush d"
    using assms(1) by (simp add: delivers_def main_pend) (simp add: saveTail_def Let_def)
qed

text \<open>The chunk is used up except for an incomplete tail.\<close>

definition drained :: "decoding \<Rightarrow> bool" where
  "drained d \<longleftrightarrow> codec_wf d \<and> partialSize d < 4 \<and> source d = [] \<and> (pend d = [] \<or> incomplete (pend d))"

lemma delivers_step:
  assumes "main_ok d" and "source d \<noteq> []" and "\<not> incomplete (source d)" and "utf8Step (source d) = (cs, e, n)"
  shows "delivers flush (emit cs (skipSource n (d\<lparr>sawError := sawError d \<or> e\<rparr>))) = delivers flush d"
  using process_step [OF assms(2) _ assms(4), of flush] assms(3) main_pend [OF assms(1)]
  by (auto simp: delivers_def split: prod.splits)

lemma decodeLoop16_ok:
  assumes "main_ok d"
  shows "drained (decodeLoop16 w stop False d) \<and> delivers flush (decodeLoop16 w stop False d) = delivers flush d"
  using assms
proof (induction "length (source d)" arbitrary: d rule: less_induct)
  case less
  let ?n = "nonASCIISequenceLength (hd (source d))" and ?bs = "source d"
  let ?c = "if ?n = 0 then nonCharacter else decodeNonASCIISequence ?bs ?n"
  note unfold = decodeLoop16.simps [of w stop False d]
  have pend: "pend d = []" using less.prems by (rule main_pend)
  consider (empty) "?bs = []" | (ascii) "?bs \<noteq> []" "isASCIIByte (hd ?bs)" | (tail) "incomplete ?bs"
    | (error) "?bs \<noteq> []" "\<not> isASCIIByte (hd ?bs)" "\<not> incomplete ?bs" "?c = nonCharacter"
    | (char) "?bs \<noteq> []" "\<not> isASCIIByte (hd ?bs)" "\<not> incomplete ?bs" "?c \<noteq> nonCharacter"
    by blast
  then show ?case
  proof cases
    case empty
    with less.prems pend show ?thesis unfolding unfold by (simp add: drained_def main_ok_def)
  next
    case ascii
    from copyASCII_ok [OF less.prems ascii] less.hyps [OF copyASCII_decreases [OF ascii]]
    show ?thesis unfolding unfold using ascii by simp
  next
    case tail
    with saveTail_ok [OF less.prems tail] show ?thesis
      unfolding unfold by (auto simp: drained_def incomplete_def)
  next
    case error
    let ?d = "emit [replacementCharacter] (skipSource 1 (d\<lparr>sawError := True\<rparr>))"
    have "utf8Step ?bs = ([replacementCharacter], True, 1)"
      using error by (auto simp: utf8Step_def incomplete_def Let_def split: if_splits)
    from delivers_step [OF less.prems error(1,3) this, of flush]
    have "delivers flush ?d = delivers flush d" by simp
    moreover have "decodeLoop16 w stop False d = decodeLoop16 w stop False ?d"
      unfolding unfold using error by (auto simp: incomplete_def Let_def)
    ultimately show ?thesis using less.hyps [of ?d] less.prems error(1) by simp
  next
    case char
    let ?d = "emit (appendCharacter ?c) (skipSource ?n d)"
    have n: "0 < ?n" using char(4) by (auto split: if_splits)
    have "utf8Step ?bs = (appendCharacter ?c, False, ?n)"
      using char by (auto simp: utf8Step_def incomplete_def Let_def split: if_splits)
    from delivers_step [OF less.prems char(1,3) this, of flush]
    have "delivers flush ?d = delivers flush d" by simp
    moreover have "decodeLoop16 w stop False d = decodeLoop16 w stop False ?d"
      unfolding unfold using char n by (auto simp: incomplete_def Let_def)
    ultimately show ?thesis using less.hyps [of ?d] less.prems char(1) n by simp
  qed
qed

lemma decodeLoop8_ok:
  assumes "main_ok d"
  shows "case decodeLoop8 w stop False d of (up, d') \<Rightarrow>
    delivers flush d' = delivers flush d \<and> (if up then main_ok d' else drained d')"
  using assms
proof (induction "length (source d)" arbitrary: d rule: less_induct)
  case less
  let ?n = "nonASCIISequenceLength (hd (source d))" and ?bs = "source d"
  let ?c = "if ?n = 0 then nonCharacter else decodeNonASCIISequence ?bs ?n"
  note unfold = decodeLoop8.simps [of w stop False d]
  consider (empty) "?bs = []" | (ascii) "?bs \<noteq> []" "isASCIIByte (hd ?bs)" | (tail) "incomplete ?bs"
    | (error) "?bs \<noteq> []" "\<not> isASCIIByte (hd ?bs)" "\<not> incomplete ?bs" "?c = nonCharacter"
    | (wide) "?bs \<noteq> []" "\<not> isASCIIByte (hd ?bs)" "\<not> incomplete ?bs" "?c \<noteq> nonCharacter" "?c > 0xFF"
    | (char) "?bs \<noteq> []" "\<not> isASCIIByte (hd ?bs)" "\<not> incomplete ?bs" "?c \<noteq> nonCharacter" "\<not> ?c > 0xFF"
    by blast
  then show ?case
  proof cases
    case empty
    with less.prems main_pend [OF less.prems] show ?thesis unfolding unfold by (simp add: drained_def main_ok_def)
  next
    case ascii
    from copyASCII_ok [OF less.prems ascii] less.hyps [OF copyASCII_decreases [OF ascii]]
    show ?thesis unfolding unfold using ascii by simp
  next
    case tail
    with saveTail_ok [OF less.prems tail] show ?thesis
      unfolding unfold by (auto simp: drained_def incomplete_def)
  next
    case error
    have "utf8Step ?bs = ([replacementCharacter], True, 1)"
      using error by (auto simp: utf8Step_def incomplete_def Let_def split: if_splits)
    from process_step [OF error(1) _ this, of flush] error(3) main_pend [OF less.prems]
    have "delivers flush (d\<lparr>sawError := True\<rparr>) = delivers flush d" by (auto simp: delivers_def split: prod.splits)
    moreover have "decodeLoop8 w stop False d = (True, d\<lparr>sawError := True\<rparr>)"
      unfolding unfold using error by (auto simp: incomplete_def Let_def)
    ultimately show ?thesis using less.prems by simp
  next
    case wide
    then have "decodeLoop8 w stop False d = (True, d)"
      unfolding unfold by (auto simp: incomplete_def Let_def split: if_splits)
    then show ?thesis using less.prems by simp
  next
    case char
    let ?d = "emit [word_of_int ?c] (skipSource ?n d)"
    have n: "?n \<in> {2, 3, 4}" using char(4) lengths_cases [of "hd ?bs"] by (auto split: if_splits)
    have "appendCharacter ?c = [word_of_int ?c]"
    proof (rule appendCharacter_BMP)
      from decode_nonneg [of ?bs ?n] char(1,4) n show "0 \<le> ?c" by auto
      from char(5) show "?c \<le> 0xFFFF" by linarith
    qed
    then have "utf8Step ?bs = ([word_of_int ?c], False, ?n)"
      using char by (auto simp: utf8Step_def incomplete_def Let_def split: if_splits)
    from delivers_step [OF less.prems char(1,3) this, of flush]
    have "delivers flush ?d = delivers flush d" by simp
    moreover have "decodeLoop8 w stop False d = decodeLoop8 w stop False ?d"
      unfolding unfold using char n by (auto simp: incomplete_def Let_def)
    ultimately show ?thesis using less.hyps [of ?d] less.prems char(1) n by auto
  qed
qed

section \<open>A call\<close>

declare decode8.simps [simp del] decode16.simps [simp del]

lemma drained_ready: "drained d \<Longrightarrow> ready (pend d) (source d)"
  using pend_length [of d]
  by (auto simp: drained_def ready_def incomplete_def intro: noHazard_short)

lemma drained_finished: "drained d \<Longrightarrow> pend d = [] \<or> \<not> flush \<Longrightarrow> finished flush d d"
  using process_incomplete by (auto simp: finished_def drained_def delivers_def)

lemma finished_delivers: "finished flush e d' \<Longrightarrow> delivers flush e = delivers flush d \<Longrightarrow> finished flush d d'"
  by (simp add: finished_def)

lemma drained_size: "drained d \<Longrightarrow> partialSize d = 0 \<longleftrightarrow> pend d = []"
  using pend_length [of d] by (auto simp: drained_def pend_Nil)

text \<open>The 16-bit part, entered with a partial sequence or at any place of the chunk.\<close>

lemma decode16_ok:
  assumes "codec_wf d" and "partialSize d \<noteq> 0 \<Longrightarrow> ready (pend d) (source d)" and "fuel \<ge> 2"
  shows "\<exists>d'. decode16 fuel w stop flush False d = Some d' \<and> finished flush d d'"
proof -
  obtain n where n: "fuel = Suc (Suc n)" using assms(3) by (cases fuel; cases "fuel - 1") auto
  let ?h = "if partialSize d \<noteq> 0 then handlePartialSequence16 flush False d else d"
  have h: "partialSize ?h = 0 \<and> codec_wf ?h \<and> delivers flush ?h = delivers flush d
      \<or> partialSize ?h \<noteq> 0 \<and> finished flush d ?h"
    using handlePartialSequence16_ok [OF assms(1), of flush] assms(1,2) by (auto simp: Let_def)
  show ?thesis
  proof (cases "partialSize ?h = 0")
    case False
    with h n show ?thesis by (auto simp: Let_def decode16.simps(2))
  next
    case True
    with h have m: "main_ok ?h" "delivers flush ?h = delivers flush d" by (auto simp: main_ok_def)
    let ?l = "decodeLoop16 w stop False ?h"
    note l = decodeLoop16_ok [OF m(1), of w stop flush]
    have first: "decode16 fuel w stop flush False d =
        (if flush \<and> partialSize ?l \<noteq> 0 then decode16 (Suc n) w stop flush False ?l else Some ?l)"
      using True n by (simp add: Let_def decode16.simps(2))
    show ?thesis
    proof (cases "flush \<and> partialSize ?l \<noteq> 0")
      case False
      have "finished flush ?l ?l" using l False drained_size [of ?l] by (intro drained_finished) auto
      then have "finished flush d ?l" by (rule finished_delivers) (use l m in simp)
      with first False show ?thesis by auto
    next
      case again: True
      let ?g = "handlePartialSequence16 flush False ?l"
      have g: "partialSize ?g = 0" "codec_wf ?g" "delivers flush ?g = delivers flush ?l"
        using handlePartialSequence16_ok [of ?l flush] l again drained_ready [of ?l] by (auto simp: Let_def drained_def)
      have "source ?g = []" using handlePartialSequence16_source [of ?l flush] l by (simp add: drained_def)
      then have "decodeLoop16 w stop False ?g = ?g" by (subst decodeLoop16.simps) simp
      with g again first have "decode16 fuel w stop flush False d = Some ?g" by (simp add: Let_def decode16.simps(2))
      moreover have "drained ?g" "pend ?g = []" using g \<open>source ?g = []\<close> pend_Nil [of ?g] by (simp_all add: drained_def)
      then have "finished flush ?g ?g" by (intro drained_finished) auto
      then have "finished flush d ?g" by (rule finished_delivers) (use g(3) l m in simp)
      ultimately show ?thesis by auto
    qed
  qed
qed

text \<open>The 8-bit part. The partial sequence is incomplete whenever a call finds one.\<close>

lemma handlePartialSequence8_ok:
  assumes wf: "codec_wf d" and inc: "incomplete (pend d)" and "noHazard (pend d @ source d)"
  shows "case handlePartialSequence8 flush d of (up, d') \<Rightarrow>
    codec_wf d' \<and>
    (if up then ready (pend d') (source d') \<and> delivers flush d' = delivers flush d \<and> destination d' = destination d
     else partialSize d' = 0 \<and> delivers flush d' = delivers flush d
       \<or> partialSize d' \<noteq> 0 \<and> \<not> flush \<and> finished flush d d')"
proof -
  let ?b = "hd (pend d)" and ?n = "nonASCIISequenceLength (hd (pend d))" and ?bs = "pend d @ source d"
  have len: "length (pend d) = partialSize d" by (rule pend_length) (rule wf)
  have ne: "pend d \<noteq> []" "partialSize d \<noteq> 0" "\<not> isASCIIByte ?b" "partialSize d < ?n" "?n \<noteq> 0"
    using inc len pend_Nil [of d] by (auto simp: incomplete_def)
  have b: "m_partialSequence (codec d) ! 0 = ?b" using pend_hd [OF wf ne(2)] by auto
  have n: "?n \<in> {2, 3, 4}" "?n \<le> 4" using lengths_cases [of ?b] ne(5) by auto
  note unfold = handlePartialSequence8.simps [of flush d]
  show ?thesis
  proof (cases "?n - partialSize d > length (source d)")
    case short: True
    with ne len have i: "incomplete ?bs" by (simp add: incomplete_def)
    show ?thesis
    proof (cases flush)
      case True
      have "ready (pend d) (source d)" using assms(3) ne len n(2) by (auto simp: ready_def)
      then show ?thesis unfolding unfold using True ne b short wf by (simp add: partialStep8_def)
    next
      case False
      from keepSource_finished [OF wf i ne(2)] False show ?thesis
        unfolding unfold using ne b short by (simp add: partialStep8_def finished_def)
    qed
  next
    case False
    let ?e = "completeSequence ?n d"
    let ?c = "decodeNonASCIISequence (m_partialSequence (codec ?e)) ?n"
    note e = complete_pend [OF wf ne(4) n(2) leI [OF False]]
    have e': "pend ?e \<noteq> []" "hd (pend ?e) = ?b" "length (pend ?e) = ?n" using e(1,3) ne(1) pend_length [OF e(2)] by auto
    have tot: "delivers flush ?e = delivers flush d" using e(4-6) by (simp add: delivers_def)
    have r: "ready (pend ?e) (source ?e)" using e' ne(3) assms(3) e(4) by (auto simp: ready_def)
    have step: "partialStep8 flush d = (if ?c = nonCharacter \<or> ?c > 0xFF then Finish True ?e
        else Continue (emit [word_of_int ?c] (dropSequence ?n ?e)))"
      using False ne b unfolding partialStep8_def Let_def by auto
    show ?thesis
    proof (cases "?c = nonCharacter \<or> ?c > 0xFF")
      case True
      then show ?thesis unfolding unfold using step ne e r tot by simp
    next
      case small: False
      let ?d = "emit [word_of_int ?c] (dropSequence ?n ?e)"
      have dec: "?c = decodeNonASCIISequence ?bs ?n"
        using decode_array [OF e(2) _ n(1), of "source ?e"] e(3,4) by simp
      have "0 \<le> decodeNonASCIISequence ?bs ?n" by (rule decode_nonneg) (use small dec ne(1,5) in auto)
      then have "0 \<le> ?c" unfolding dec .
      then have "appendCharacter ?c = [word_of_int ?c]" using small by (intro appendCharacter_BMP) auto
      moreover have "?n \<le> length ?bs" using False len by simp
      ultimately have u: "utf8Step ?bs = ([word_of_int ?c], False, ?n)" "\<not> incomplete ?bs"
        using small ne dec by (simp_all add: utf8Step_def incomplete_def Let_def)
      have d: "partialSize ?d = 0" "codec_wf ?d" "source ?d = drop ?n ?bs"
        "destination ?d = destination d @ [word_of_int ?c]" "sawError ?d = sawError d"
      proof -
        show "partialSize ?d = 0" using e(3) by simp
        show "source ?d = drop ?n ?bs" using ne(4) len by simp
        show "codec_wf ?d" using e(2) by (auto simp: codec_wf_def partialSize_def dropSequence_def)
        show "destination ?d = destination d @ [word_of_int ?c]" "sawError ?d = sawError d"
          using e(5,6) by (simp_all add: dropSequence_def)
      qed
      have "delivers flush ?d = delivers flush d"
        using process_step [OF _ _ u(1), of flush] u(2) ne(1) d pend_Nil [OF d(1)]
        by (auto simp: delivers_def split: prod.splits)
      moreover have "handlePartialSequence8 flush d = (False, ?d)"
        unfolding unfold using step small ne d(1) by (simp add: handlePartialSequence8.simps [of flush ?d])
      ultimately show ?thesis using d by simp
    qed
  qed
qed

definition upconvertible :: "bool \<Rightarrow> decoding \<Rightarrow> decoding \<Rightarrow> bool" where
  "upconvertible flush d d' \<longleftrightarrow>
     codec_wf d' \<and> (partialSize d' \<noteq> 0 \<longrightarrow> ready (pend d') (source d')) \<and> delivers flush d' = delivers flush d"

text \<open>The three ways a round of the 8-bit loop starts.\<close>

lemma decode8_up:
  assumes "partialSize d \<noteq> 0" and "handlePartialSequence8 flush d = (True, h)" and "destination h = destination d"
  shows "decode8 (Suc n) w stop flush stopOnError d = Some (True, h)"
  using assms by (simp add: decode8.simps(2))

lemma decode8_kept:
  assumes "partialSize d \<noteq> 0" and "handlePartialSequence8 flush d = (False, h)" and "partialSize h \<noteq> 0"
  shows "decode8 (Suc n) w stop flush stopOnError d = Some (False, h)"
  using assms by (simp add: decode8.simps(2))

lemma decode8_round:
  assumes "(if partialSize d \<noteq> 0 then handlePartialSequence8 flush d else (False, d)) = (False, h)"
    and "partialSize h = 0"
  shows "decode8 (Suc n) w stop flush stopOnError d =
    (let (up, d') = decodeLoop8 w stop stopOnError h in
     if up then Some (True, d')
     else if flush \<and> partialSize d' \<noteq> 0 then decode8 n w stop flush stopOnError d'
     else Some (False, d'))"
  unfolding decode8.simps(2) assms(1) using assms(2) by (simp only: Let_def prod.case if_False simp_thms if_True)

lemma handle8_flush:
  assumes "codec_wf d" and "incomplete (pend d)" and "source d = []"
  shows "handlePartialSequence8 True d = (True, d)"
proof -
  have len: "length (pend d) = partialSize d" by (rule pend_length) (rule assms(1))
  have ne: "partialSize d \<noteq> 0" using assms(2) pend_Nil [of d] by (auto simp: incomplete_def)
  with pend_hd [OF assms(1) ne] assms(2,3) len show ?thesis
    by (simp add: handlePartialSequence8.simps partialStep8_def incomplete_def)
qed

lemma decode8_loop:
  assumes "main_ok d"
  shows "\<exists>up d'. (let (up, d') = decodeLoop8 w stop False d in
           if up then Some (True, d')
           else if flush \<and> partialSize d' \<noteq> 0 then decode8 (Suc n) w stop flush False d'
           else Some (False, d')) = Some (up, d')
    \<and> (if up then upconvertible flush d d' else finished flush d d')"
proof -
  obtain up l where l: "decodeLoop8 w stop False d = (up, l)" by (meson surj_pair)
  note ok = decodeLoop8_ok [OF assms, where w = w and stop = stop and flush = flush, unfolded l, simplified]
  show ?thesis
  proof (cases up)
    case True
    with ok l show ?thesis by (auto simp: upconvertible_def main_ok_def)
  next
    case up: False
    with ok have dr: "drained l" "delivers flush l = delivers flush d" by auto
    show ?thesis
    proof (cases "flush \<and> partialSize l \<noteq> 0")
      case False
      then have "finished flush l l" using dr drained_size [of l] by (intro drained_finished) auto
      then have "finished flush d l" by (rule finished_delivers) (use dr in simp)
      moreover have "(let (up, d') = decodeLoop8 w stop False d in
           if up then Some (True, d')
           else if flush \<and> partialSize d' \<noteq> 0 then decode8 (Suc n) w stop flush False d'
           else Some (False, d')) = Some (False, l)"
        using up False by (simp add: l if_not_P)
      ultimately show ?thesis by (intro exI [of _ False] exI [of _ l]) simp
    next
      case True
      then have "incomplete (pend l)" "source l = []" "codec_wf l"
        using dr(1) drained_size [of l] by (auto simp: drained_def)
      then have "handlePartialSequence8 flush l = (True, l)" using handle8_flush True by simp
      then have "decode8 (Suc n) w stop flush False l = Some (True, l)" using True by (intro decode8_up) simp_all
      moreover have "upconvertible flush d l"
        using dr drained_ready [OF dr(1)] by (simp add: upconvertible_def drained_def)
      ultimately show ?thesis using l up True by auto
    qed
  qed
qed

lemma decode8_ok:
  assumes "codec_wf d" and "pend d = [] \<or> incomplete (pend d) \<and> noHazard (pend d @ source d)"
  shows "\<exists>up d'. decode8 (Suc (Suc n)) w stop flush False d = Some (up, d')
    \<and> (if up then upconvertible flush d d' else finished flush d d')"
proof (cases "partialSize d = 0")
  case True
  then have m: "main_ok d" using assms(1) by (simp add: main_ok_def)
  have start: "(if partialSize d \<noteq> 0 then handlePartialSequence8 flush d else (False, d)) = (False, d)"
    using True by simp
  show ?thesis unfolding decode8_round [OF start True] by (rule decode8_loop [OF m])
next
  case False
  then have "incomplete (pend d)" "noHazard (pend d @ source d)" using assms pend_length [of d] by auto
  note h8 = handlePartialSequence8_ok [OF assms(1) this, of flush]
  obtain up h where h: "handlePartialSequence8 flush d = (up, h)" by (meson surj_pair)
  note ok = h8 [unfolded h prod.case]
  consider (up) up | (kept) "\<not> up" "partialSize h \<noteq> 0" | (used) "\<not> up" "partialSize h = 0" by blast
  then show ?thesis
  proof cases
    case up
    then have "decode8 (Suc (Suc n)) w stop flush False d = Some (True, h)"
      using ok h False by (intro decode8_up) simp_all
    moreover have "upconvertible flush d h" using ok up by (simp add: upconvertible_def)
    ultimately show ?thesis by auto
  next
    case kept
    then have "decode8 (Suc (Suc n)) w stop flush False d = Some (False, h)"
      using ok h False by (intro decode8_kept) simp_all
    moreover have "finished flush d h" using ok kept by (cases flush) auto
    ultimately show ?thesis by auto
  next
    case used
    with ok have m: "main_ok h" "delivers flush h = delivers flush d" by (auto simp: main_ok_def)
    have start: "(if partialSize d \<noteq> 0 then handlePartialSequence8 flush d else (False, d)) = (False, h)"
      using False h used by simp
    obtain up' d' where "decode8 (Suc (Suc n)) w stop flush False d = Some (up', d')"
      and "if up' then upconvertible flush h d' else finished flush h d'"
      using decode8_loop [OF m(1), of w stop flush n] unfolding decode8_round [OF start used(2)] by blast
    with m(2) show ?thesis by (auto simp: upconvertible_def finished_def split: if_splits)
  qed
qed

text \<open>Between calls the codec holds an incomplete sequence or nothing.\<close>

definition pending :: "TextCodecUTF8 \<Rightarrow> byte list" where
  "pending c = take (m_partialSequenceSize c) (m_partialSequence c)"

definition codec_ok :: "TextCodecUTF8 \<Rightarrow> bool" where
  "codec_ok c \<longleftrightarrow> length (m_partialSequence c) = 4 \<and> m_partialSequenceSize c < 4
     \<and> (pending c = [] \<or> incomplete (pending c))"

lemma decode_call:
  assumes "codec_ok c" and "pending c = [] \<or> noHazard (pending c @ bytes)"
    and "process flush (pending c @ bytes) = (out, e, r)"
  shows "\<exists>str c'. decode w addr bytes flush False saw c = Some (str, saw \<or> e, c') \<and> chars str = out
    \<and> pending c' = r \<and> codec_ok c' \<and> (flush \<longrightarrow> pending c' = [])"
proof -
  let ?d = "\<lparr>codec = c, address = addr, source = bytes, destination = [], sawError = saw\<rparr>"
  let ?stop = "alignedEnd w ?d"
  have p: "pend x = pending (codec x)" for x by (simp add: pend_def pending_def partialSize_def)
  have wf: "codec_wf ?d" using assms(1) by (simp add: codec_wf_def codec_ok_def partialSize_def)
  have del: "delivers flush ?d = (out, saw \<or> e, r)" using assms(3) by (simp add: delivers_def p)
  have final: "chars (WString b (destination d')) = out \<and> sawError d' = (saw \<or> e) \<and> pending (codec d') = r
      \<and> codec_ok (codec d') \<and> (flush \<longrightarrow> pending (codec d') = [])" if "finished flush ?d d'" for d' b
    using that del by (auto simp: finished_def p codec_ok_def codec_wf_def partialSize_def)
  obtain up d' where d': "decode8 2 w ?stop flush False ?d = Some (up, d')"
    "if up then upconvertible flush ?d d' else finished flush ?d d'"
    using decode8_ok [OF wf, of 0 w ?stop flush] assms(1,2) by (auto simp: p codec_ok_def numeral_2_eq_2)
  show ?thesis
  proof (cases up)
    case False
    with d' final [of d' True] show ?thesis by (auto simp: decode_def Let_def)
  next
    case True
    with d'(2) have u: "codec_wf d'" "partialSize d' \<noteq> 0 \<longrightarrow> ready (pend d') (source d')"
      "delivers flush d' = delivers flush ?d" by (auto simp: upconvertible_def)
    obtain d'' where "decode16 2 w ?stop flush False d' = Some d''" "finished flush d' d''"
      using decode16_ok [OF u(1), of 2 w ?stop flush] u(2) by auto
    moreover from this(2) u(3) have "finished flush ?d d''" by (rule finished_delivers)
    ultimately show ?thesis using d'(1) True final [of d'' False] by (auto simp: decode_def Let_def)
  qed
qed

end
