(* ===== verification/Utf8_Forms.thy ===== *)
theory Utf8_Forms
  imports Text_Codec_Refine
begin

text \<open>
  The encoded forms of the Unicode scalar values, in arithmetic: what \<^verbatim>\<open>U8_APPEND_UNSAFE\<close> writes,
  what \<^verbatim>\<open>decodeNonASCIISequence\<close> accepts, and what \<^verbatim>\<open>U16_NEXT\<close> and \<^verbatim>\<open>appendCharacter\<close> make of surrogate
  pairs.
\<close>

section \<open>Encoded scalar values\<close>

definition scalarValue :: "uchar32 \<Rightarrow> bool" where
  "scalarValue u \<longleftrightarrow> u \<le> 0x10FFFF \<and> \<not> isSurrogate u"

text \<open>The bytes of a code point, in arithmetic.\<close>

definition utf8Bytes :: "int \<Rightarrow> int list" where
  "utf8Bytes u =
     (if u < 0x80 then [u]
      else if u < 0x800 then [0xC0 + u div 64, 0x80 + u mod 64]
      else if u < 0x10000 then [0xE0 + u div 4096, 0x80 + u div 64 mod 64, 0x80 + u mod 64]
      else [0xF0 + u div 262144, 0x80 + u div 4096 mod 64, 0x80 + u div 64 mod 64, 0x80 + u mod 64])"

lemma or_high: "0 \<le> a \<Longrightarrow> a < 2 ^ n \<Longrightarrow> a OR push_bit n b = a + push_bit n (b :: int)"
proof (rule disjunctive_add [symmetric])
  fix k
  assume "0 \<le> a" "a < 2 ^ n"
  then have "take_bit n a = a" by (simp add: take_bit_int_eq_self)
  then have "bit a k \<Longrightarrow> k < n" using bit_take_bit_iff [of n a k] by simp
  then show "\<not> bit a k \<or> \<not> bit (push_bit n b) k" by (auto simp: bit_push_bit_iff)
qed

lemma or_marks:
  "0 \<le> a \<Longrightarrow> a < 64 \<Longrightarrow> a OR 128 = a + (128 :: int)" "0 \<le> a \<Longrightarrow> a < 64 \<Longrightarrow> a OR 192 = a + (192 :: int)"
  "0 \<le> a \<Longrightarrow> a < 16 \<Longrightarrow> a OR 224 = a + (224 :: int)" "0 \<le> a \<Longrightarrow> a < 8 \<Longrightarrow> a OR 240 = a + (240 :: int)"
  "0 \<le> a \<Longrightarrow> a < 1024 \<Longrightarrow> a OR 56320 = a + (56320 :: int)"
  using or_high [of a 6 2] or_high [of a 6 3] or_high [of a 4 14] or_high [of a 3 30] or_high [of a 10 55]
  by (simp_all add: push_bit_eq_mult)

lemma and_masks: "a AND 63 = a mod 64" "a AND 1023 = a mod (1024 :: int)"
  using take_bit_eq_mask [of 6 a] take_bit_eq_mask [of 10 a] by (simp_all add: take_bit_eq_mod mask_eq_exp_minus_1)

lemma uint_drop_bit: "uint (drop_bit n (u :: uchar32)) = uint u div 2 ^ n"
proof -
  have "take_bit 32 (uint u) = uint u" using unsigned_less [of u, where ?'a = int] by (simp add: take_bit_int_eq_self)
  then show ?thesis by (subst unsigned_drop_bit_eq) (simp flip: drop_bit_eq_div)
qed

lemma uint_narrow_byte: "uint (ucast (u :: uchar32) :: byte) = uint u mod 256"
  by (simp add: unsigned_ucast_eq take_bit_eq_mod)

lemmas uint_bytes = uint_narrow_byte uint_or uint_and uint_drop_bit and_masks

lemma U8_bytes:
  assumes "u \<le> 0x10FFFF"
  shows "map uint (U8_APPEND_UNSAFE u) = utf8Bytes (uint u)"
proof -
  have le: "0 \<le> uint u" "uint u \<le> 0x10FFFF" using assms by (simp_all add: word_le_def)
  have a: "u \<le> 0x7F \<longleftrightarrow> uint u < 0x80" "u \<le> 0x7FF \<longleftrightarrow> uint u < 0x800" "u \<le> 0xFFFF \<longleftrightarrow> uint u < 0x10000"
    by (auto simp: word_le_def)
  show ?thesis
    using le unfolding U8_APPEND_UNSAFE_def utf8Bytes_def a
    by (auto simp: uint_bytes or_marks)
qed

lemma uint_byte: "0 \<le> uint (b :: byte)" "uint b < 256"
  using unsigned_less [of b, where ?'a = int] by simp_all

lemma decode_2:
  "decodeNonASCIISequence (x # y # bs) 2 =
     (if uint x < 0xC2 \<or> uint y < 0x80 \<or> 0xBF < uint y then nonCharacter
      else (uint x - 0xC0) * 64 + (uint y - 0x80))"
  by (simp add: decodeNonASCIISequence_def Let_def word_less_def push_bit_eq_mult)

lemma decode_3:
  "decodeNonASCIISequence (x # y # z # bs) 3 =
     (if uint y < (if uint x = 0xE0 then 0xA0 else 0x80) \<or> (if uint x = 0xED then 0x9F else 0xBF) < uint y
         \<or> uint z < 0x80 \<or> 0xBF < uint z then nonCharacter
      else (uint x - 0xE0) * 4096 + (uint y - 0x80) * 64 + (uint z - 0x80))"
  by (auto simp: decodeNonASCIISequence_def Let_def word_less_def push_bit_eq_mult word_uint_eq_iff)

lemma decode_4:
  "decodeNonASCIISequence (x # y # z # v # bs) 4 =
     (if uint y < (if uint x = 0xF0 then 0x90 else 0x80) \<or> (if uint x = 0xF4 then 0x8F else 0xBF) < uint y
         \<or> uint z < 0x80 \<or> 0xBF < uint z \<or> uint v < 0x80 \<or> 0xBF < uint v then nonCharacter
      else (uint x - 0xF0) * 262144 + (uint y - 0x80) * 4096 + (uint z - 0x80) * 64 + (uint v - 0x80))"
  by (auto simp: decodeNonASCIISequence_def Let_def word_less_def push_bit_eq_mult word_uint_eq_iff)

lemma scalarValue_uint:
  "scalarValue u \<longleftrightarrow> uint u \<le> 0x10FFFF \<and> \<not> (0xD800 \<le> uint u \<and> uint u \<le> 0xDFFF)"
proof -
  define k where "k = unat u"
  have "uint u = int k" by (simp add: k_def)
  then show ?thesis unfolding scalarValue_def isSurrogate_iff word_le_def k_def [symmetric] by auto
qed

text \<open>The three lengths of an encoded code point outside ASCII.\<close>

lemma U8_cases:
  assumes "uint u \<le> 0x10FFFF" and "0x7F < uint u"
  obtains
    (two) x y where "U8_APPEND_UNSAFE u = [x, y]" "uint u < 0x800" "uint x = 0xC0 + uint u div 64"
      "uint y = 0x80 + uint u mod 64"
  | (three) x y z where "U8_APPEND_UNSAFE u = [x, y, z]" "0x800 \<le> uint u" "uint u < 0x10000"
      "uint x = 0xE0 + uint u div 4096" "uint y = 0x80 + uint u div 64 mod 64" "uint z = 0x80 + uint u mod 64"
  | (four) x y z v where "U8_APPEND_UNSAFE u = [x, y, z, v]" "0x10000 \<le> uint u"
      "uint x = 0xF0 + uint u div 262144" "uint y = 0x80 + uint u div 4096 mod 64"
      "uint z = 0x80 + uint u div 64 mod 64" "uint v = 0x80 + uint u mod 64"
proof -
  have m: "map uint (U8_APPEND_UNSAFE u) = utf8Bytes (uint u)"
    using assms(1) by (intro U8_bytes) (simp add: word_le_def)
  consider "uint u < 0x800" | "0x800 \<le> uint u" "uint u < 0x10000" | "0x10000 \<le> uint u" by linarith
  then show thesis
  proof cases
    case 1
    with m assms(2) have "map uint (U8_APPEND_UNSAFE u) = [0xC0 + uint u div 64, 0x80 + uint u mod 64]"
      by (simp add: utf8Bytes_def)
    with 1 two show thesis unfolding map_eq_Cons_conv by blast
  next
    case 2
    with m have "map uint (U8_APPEND_UNSAFE u) =
        [0xE0 + uint u div 4096, 0x80 + uint u div 64 mod 64, 0x80 + uint u mod 64]"
      by (simp add: utf8Bytes_def)
    with 2 three show thesis unfolding map_eq_Cons_conv by blast
  next
    case 3
    with m have "map uint (U8_APPEND_UNSAFE u) =
        [0xF0 + uint u div 262144, 0x80 + uint u div 4096 mod 64, 0x80 + uint u div 64 mod 64, 0x80 + uint u mod 64]"
      by (simp add: utf8Bytes_def)
    with 3 four show thesis unfolding map_eq_Cons_conv by blast
  qed
qed

lemma digits_64:
  fixes u :: int
  assumes "0 \<le> u"
  shows "u = u div 64 * 64 + u mod 64" "0 \<le> u mod 64" "u mod 64 < 64" "0 \<le> u div 64"
    and "u div 64 = u div 4096 * 64 + u div 64 mod 64" "0 \<le> u div 64 mod 64" "u div 64 mod 64 < 64" "0 \<le> u div 4096"
    and "u div 4096 = u div 262144 * 64 + u div 4096 mod 64" "0 \<le> u div 4096 mod 64" "u div 4096 mod 64 < 64"
    "0 \<le> u div 262144"
proof -
  have "u div 4096 = u div 64 div 64" "u div 262144 = u div 4096 div 64"
    using zdiv_zmult2_eq [of 64 u 64] zdiv_zmult2_eq [of 64 u 4096] by simp_all
  then show "u div 64 = u div 4096 * 64 + u div 64 mod 64" "u div 4096 = u div 262144 * 64 + u div 4096 mod 64"
    by (simp_all add: mult.commute)
  show "0 \<le> u div 64" "0 \<le> u div 4096" "0 \<le> u div 262144" using assms by (simp_all only: pos_imp_zdiv_nonneg_iff)
qed simp_all

lemma sequence_of_3:
  assumes "uint x = 0xE0 + a" "uint y = 0x80 + b" "uint z = 0x80 + c" "u = a * 4096 + b * 64 + c"
    and "0 \<le> b" "b < 64" "0 \<le> c" "c < 64" "0x800 \<le> u" "u < 0x10000" "\<not> (0xD800 \<le> u \<and> u \<le> 0xDFFF)"
  shows "nonASCIISequenceLength x = 3 \<and> decodeNonASCIISequence (x # y # z # bs) 3 = u"
proof -
  have "0 \<le> a" using assms(4-10) by linarith
  moreover have "a < 16" using assms(4-10) by linarith
  moreover have "a = 0 \<longrightarrow> 32 \<le> b" "a = 13 \<longrightarrow> b < 32" using assms(4-11) by auto
  ultimately show ?thesis using assms(5-8) unfolding sequenceLength_uint decode_3 assms(1-4) by auto
qed

lemma sequence_of_4:
  assumes "uint x = 0xF0 + a" "uint y = 0x80 + b" "uint z = 0x80 + c" "uint v = 0x80 + d"
    and "u = a * 262144 + b * 4096 + c * 64 + d"
    and "0 \<le> b" "b < 64" "0 \<le> c" "c < 64" "0 \<le> d" "d < 64" "0x10000 \<le> u" "u \<le> 0x10FFFF"
  shows "nonASCIISequenceLength x = 4 \<and> decodeNonASCIISequence (x # y # z # v # bs) 4 = u"
proof -
  have "0 \<le> a" using assms(5-13) by linarith
  moreover have "a < 5" using assms(5-13) by linarith
  moreover have "a = 0 \<longrightarrow> 16 \<le> b" "a = 4 \<longrightarrow> b < 16" using assms(5-13) by auto
  ultimately show ?thesis using assms(6-11) unfolding sequenceLength_uint decode_4 assms(1-5) by auto
qed

lemma encoded_sequence:
  assumes "scalarValue u" and "0x7F < uint u"
  shows "nonASCIISequenceLength (hd (U8_APPEND_UNSAFE u)) = length (U8_APPEND_UNSAFE u) \<and>
    decodeNonASCIISequence (U8_APPEND_UNSAFE u @ bs) (length (U8_APPEND_UNSAFE u)) = uint u"
proof -
  have u: "uint u \<le> 0x10FFFF" "\<not> (0xD800 \<le> uint u \<and> uint u \<le> 0xDFFF)"
    using assms(1) by (simp_all add: scalarValue_uint)
  have "0 \<le> uint u" by simp
  note d = digits_64 [OF this]
  show ?thesis
  proof (cases rule: U8_cases [OF u(1) assms(2), case_names two three four])
    case (two x y)
    then have "nonASCIISequenceLength x = 2" "decodeNonASCIISequence (x # y # bs) 2 = uint u"
      unfolding sequenceLength_uint decode_2 using assms(2) d(1-4) by auto
    with two show ?thesis by (simp add: numeral_2_eq_2)
  next
    case (three x y z)
    have "uint u = uint u div 4096 * 4096 + uint u div 64 mod 64 * 64 + uint u mod 64" using d(1,5) by linarith
    from sequence_of_3 [OF three(4-6) this d(6,7,2,3) three(2,3) u(2), of bs] three(1) show ?thesis by (simp add: numeral_3_eq_3)
  next
    case (four x y z v)
    have "uint u = uint u div 262144 * 262144 + uint u div 4096 mod 64 * 4096 + uint u div 64 mod 64 * 64 + uint u mod 64"
      using d(1,5,9) by linarith
    from sequence_of_4 [OF four(3-6) this d(10,11,6,7,2,3) four(2) u(1), of bs] four(1) show ?thesis by (simp add: eval_nat_numeral)
  qed
qed

lemma bytes_of_2:
  "0 \<le> b \<Longrightarrow> b < 64 \<Longrightarrow> 2 \<le> a \<Longrightarrow> a < 32 \<Longrightarrow> utf8Bytes (a * 64 + b) = [0xC0 + a, 0x80 + b]"
  by (simp add: utf8Bytes_def)

lemma bytes_of_3:
  assumes "0 \<le> b" "b < 64" "0 \<le> c" "c < 64" "0x800 \<le> a * 4096 + b * 64 + c" "a < 16"
  shows "utf8Bytes (a * 4096 + b * 64 + c) = [0xE0 + a, 0x80 + b, 0x80 + c]"
proof -
  let ?u = "a * 4096 + b * 64 + c"
  have "?u = c + 64 * (a * 64 + b)" by simp
  then have "?u div 64 = a * 64 + b" "?u mod 64 = c" using assms(3,4) by (simp_all only: mod_mult_self2 div_mult_self2) simp_all
  moreover have "?u div 4096 = a" using assms(1-4) by simp
  ultimately show ?thesis using assms by (simp add: utf8Bytes_def)
qed

lemma bytes_of_4:
  assumes "0 \<le> b" "b < 64" "0 \<le> c" "c < 64" "0 \<le> d" "d < 64" "0x10000 \<le> a * 262144 + b * 4096 + c * 64 + d"
  shows "utf8Bytes (a * 262144 + b * 4096 + c * 64 + d) = [0xF0 + a, 0x80 + b, 0x80 + c, 0x80 + d]"
proof -
  let ?u = "a * 262144 + b * 4096 + c * 64 + d"
  have "?u = d + 64 * (c + 64 * (a * 64 + b))" by simp
  then have "?u div 64 = c + 64 * (a * 64 + b)" "?u mod 64 = d"
    using assms(5,6) by (simp_all only: mod_mult_self2 div_mult_self2) simp_all
  moreover have "(c + 64 * (a * 64 + b)) mod 64 = c" "(b + 64 * a) mod 64 = b"
    using assms(1-4) by (simp_all only: mod_mult_self2) simp_all
  moreover have "?u div 4096 = b + 64 * a" "?u div 262144 = a" using assms(1-6) by simp_all
  ultimately show ?thesis using assms by (simp add: utf8Bytes_def)
qed

lemma uint_of_int_32: "0 \<le> c \<Longrightarrow> c < 2 ^ 32 \<Longrightarrow> uint (word_of_int c :: uchar32) = c"
  by (simp add: take_bit_int_eq_self uint_word_of_int_eq)

lemma U8_of_bytes:
  assumes "map uint bs = utf8Bytes c" and "0 \<le> c" and "c \<le> 0x10FFFF"
  shows "U8_APPEND_UNSAFE (word_of_int c) = bs \<and> uint (word_of_int c :: uchar32) = c"
proof -
  have u: "uint (word_of_int c :: uchar32) = c" using assms(2,3) by (intro uint_of_int_32) simp_all
  then have "map uint (U8_APPEND_UNSAFE (word_of_int c)) = map uint bs"
    using assms by (subst U8_bytes) (simp_all add: word_le_def)
  then show ?thesis using u by (simp add: inj_on_def word_uint_eq_iff inj_map_eq_map)
qed

lemma decoded_is_encoded:
  assumes "n = nonASCIISequenceLength (hd bs)" "n \<noteq> 0" "n \<le> length bs" "decodeNonASCIISequence bs n \<noteq> nonCharacter"
  shows "map uint (take n bs) = utf8Bytes (decodeNonASCIISequence bs n) \<and> 0x7F < decodeNonASCIISequence bs n
    \<and> decodeNonASCIISequence bs n \<le> 0x10FFFF
    \<and> \<not> (0xD800 \<le> decodeNonASCIISequence bs n \<and> decodeNonASCIISequence bs n \<le> 0xDFFF)"
proof -
  consider (two) "n = 2" | (three) "n = 3" | (four) "n = 4" using assms(1,2) lengths_cases [of "hd bs"] by auto
  then show ?thesis
  proof cases
    case two
    then obtain x y r where bs: "bs = x # y # r" using assms(3) by (auto simp: numeral_2_eq_2 Suc_le_length_iff)
    define a b where "a = uint x - 0xC0" and "b = uint y - 0x80"
    have ab: "decodeNonASCIISequence bs n = a * 64 + b" "0 \<le> b" "b < 64" "2 \<le> a" "a < 32"
      using assms(1,2,4) two unfolding bs two decode_2 sequenceLength_uint by (auto simp: a_def b_def split: if_splits)
    then show ?thesis using bytes_of_2 [OF ab(2-5)] two by (simp add: bs a_def b_def numeral_2_eq_2)
  next
    case three
    then obtain x y z r where bs: "bs = x # y # z # r" using assms(3) by (auto simp: numeral_3_eq_3 Suc_le_length_iff)
    define a b c where "a = uint x - 0xE0" and "b = uint y - 0x80" and "c = uint z - 0x80"
    have v: "decodeNonASCIISequence bs n = a * 4096 + b * 64 + c" "0 \<le> b" "b < 64" "0 \<le> c" "c < 64" "0 \<le> a" "a < 16"
      "a = 0 \<longrightarrow> 32 \<le> b" "a = 13 \<longrightarrow> b < 32"
      using assms(1,2,4) three unfolding bs three decode_3 sequenceLength_uint
      by (auto simp: a_def b_def c_def split: if_splits)
    have u: "0x800 \<le> a * 4096 + b * 64 + c" using v(2-8) by (cases "a = 0") auto
    moreover have "\<not> (0xD800 \<le> a * 4096 + b * 64 + c \<and> a * 4096 + b * 64 + c \<le> 0xDFFF)"
    proof -
      consider "a \<le> 12" | "a = 13" | "14 \<le> a" by linarith
      then show ?thesis using v(2-5,9) by cases auto
    qed
    ultimately show ?thesis
      using bytes_of_3 [OF v(2-5) u v(7)] v(1-7) three by (simp add: bs a_def b_def c_def numeral_3_eq_3)
  next
    case four
    then obtain x y z w r where bs: "bs = x # y # z # w # r"
      using assms(3) by (auto simp: eval_nat_numeral Suc_le_length_iff)
    define a b c d where "a = uint x - 0xF0" and "b = uint y - 0x80" and "c = uint z - 0x80" and "d = uint w - 0x80"
    have v: "decodeNonASCIISequence bs n = a * 262144 + b * 4096 + c * 64 + d" "0 \<le> b" "b < 64" "0 \<le> c" "c < 64"
      "0 \<le> d" "d < 64" "0 \<le> a" "a < 5" "a = 0 \<longrightarrow> 16 \<le> b" "a = 4 \<longrightarrow> b < 16"
      using assms(1,2,4) four unfolding bs four decode_4 sequenceLength_uint
      by (auto simp: a_def b_def c_def d_def split: if_splits)
    have u: "0x10000 \<le> a * 262144 + b * 4096 + c * 64 + d" using v(2-10) by (cases "a = 0") auto
    moreover have "a * 262144 + b * 4096 + c * 64 + d \<le> 0x10FFFF" using v(2-11) by (cases "a = 4") auto
    ultimately show ?thesis
      using bytes_of_4 [OF v(2-7) u] v(1) four by (simp add: bs a_def b_def c_def d_def eval_nat_numeral)
  qed
qed

text \<open>
  C18: the decoder accepts exactly the shortest encodings of the Unicode scalar values outside
  ASCII, and yields the value encoded: no overlong form, no surrogate and nothing beyond
  U+10FFFF passes. What \<^verbatim>\<open>U8_APPEND_UNSAFE\<close> writes for a scalar value is accepted.
\<close>

theorem accepted_sequences:
  "nonASCIISequenceLength (hd bs) \<noteq> 0 \<and> nonASCIISequenceLength (hd bs) \<le> length bs
     \<and> decodeNonASCIISequence bs (nonASCIISequenceLength (hd bs)) = c \<and> c \<noteq> nonCharacter
   \<longleftrightarrow> (\<exists>u r. scalarValue u \<and> 0x7F < uint u \<and> c = uint u \<and> bs = U8_APPEND_UNSAFE u @ r)"
proof (intro iffI)
  let ?n = "nonASCIISequenceLength (hd bs)"
  assume l: "?n \<noteq> 0 \<and> ?n \<le> length bs \<and> decodeNonASCIISequence bs ?n = c \<and> c \<noteq> nonCharacter"
  then have d: "map uint (take ?n bs) = utf8Bytes c" "0x7F < c" "c \<le> 0x10FFFF" "\<not> (0xD800 \<le> c \<and> c \<le> 0xDFFF)"
    using decoded_is_encoded [of ?n bs] by auto
  from U8_of_bytes [OF d(1)] d have "U8_APPEND_UNSAFE (word_of_int c) = take ?n bs" "uint (word_of_int c :: uchar32) = c"
    by auto
  with d(2-4) show "\<exists>u r. scalarValue u \<and> 0x7F < uint u \<and> c = uint u \<and> bs = U8_APPEND_UNSAFE u @ r"
    by (intro exI [of _ "word_of_int c"] exI [of _ "drop ?n bs"]) (auto simp: scalarValue_uint)
next
  assume "\<exists>u r. scalarValue u \<and> 0x7F < uint u \<and> c = uint u \<and> bs = U8_APPEND_UNSAFE u @ r"
  then obtain u r where u: "scalarValue u" "0x7F < uint u" "c = uint u" "bs = U8_APPEND_UNSAFE u @ r" by blast
  have "U8_APPEND_UNSAFE u \<noteq> []" by (simp add: U8_APPEND_UNSAFE_def)
  with encoded_sequence [OF u(1,2), of r] u show "nonASCIISequenceLength (hd bs) \<noteq> 0
    \<and> nonASCIISequenceLength (hd bs) \<le> length bs
    \<and> decodeNonASCIISequence bs (nonASCIISequenceLength (hd bs)) = c \<and> c \<noteq> nonCharacter"
    by (auto simp: nonCharacter_def)
qed

section \<open>Code units\<close>

lemma isASCIIByte_uint: "isASCIIByte b \<longleftrightarrow> uint b < 0x80"
proof -
  have "isASCIIByte b \<longleftrightarrow> b AND NOT (mask 7) = 0" by (simp add: isASCIIByte_def mask_eq_exp_minus_1)
  also have "\<dots> \<longleftrightarrow> b AND mask 7 = b" by (auto simp: bit_eq_iff bit_simps)
  also have "\<dots> \<longleftrightarrow> uint b < 0x80" by (simp add: mask_eq_iff)
  finally show ?thesis .
qed

lemma utf8Step_encoded:
  assumes "scalarValue u"
  shows "utf8Step (U8_APPEND_UNSAFE u @ bs) = (append32 u, False, length (U8_APPEND_UNSAFE u))"
proof (cases "uint u < 0x80")
  case True
  then have u: "uint (ucast u :: byte) = uint u" by (simp add: uint_narrow_byte)
  have "uint (ucast u :: uchar) = uint u mod 65536" by (simp add: unsigned_ucast_eq take_bit_eq_mod)
  with True u have "uint (ucast (ucast u :: byte) :: uchar) = uint (ucast u :: uchar)"
    by (subst uint_up_ucast) (simp_all add: is_up)
  then have "widen (ucast u) = ucast u" by (simp add: widen_def word_uint_eq_iff)
  with u True show ?thesis
    by (simp add: U8_APPEND_UNSAFE_def utf8Step_def append32_def word_le_def isASCIIByte_uint)
next
  case False
  let ?s = "U8_APPEND_UNSAFE u"
  have e: "nonASCIISequenceLength (hd ?s) = length ?s" "decodeNonASCIISequence (?s @ bs) (length ?s) = uint u"
    using encoded_sequence [OF assms, of bs] False by auto
  have ne: "?s \<noteq> []" by (simp add: U8_APPEND_UNSAFE_def)
  have "\<not> isASCIIByte (hd ?s)" using e(1) ne by (auto simp: isASCIIByte_uint sequenceLength_uint)
  moreover have "uint u \<noteq> nonCharacter" using uint_ge_0 [of u] unfolding nonCharacter_def by linarith
  ultimately show ?thesis using e ne by (simp add: utf8Step_def Let_def appendCharacter_def)
qed

text \<open>Well-formed UTF-16: every lead surrogate is followed by a trail surrogate, no trail is alone.\<close>

fun wellFormed :: "uchar list \<Rightarrow> bool" where
  "wellFormed [] \<longleftrightarrow> True"
| "wellFormed [c] \<longleftrightarrow> \<not> U16_IS_LEAD c \<and> \<not> U16_IS_TRAIL c"
| "wellFormed (c # d # cs) \<longleftrightarrow>
     (if U16_IS_LEAD c then U16_IS_TRAIL d \<and> wellFormed cs
      else \<not> U16_IS_TRAIL c \<and> wellFormed (d # cs))"

lemma surrogate_block:
  "(c :: uchar) AND 0xFC00 = of_nat (1024 * k) \<longleftrightarrow> unat c div 1024 = k" if "k < 64"
proof -
  have "(0xFC00 :: uchar) = NOT (mask 10)" by code_simp
  then have "c AND 0xFC00 = of_nat (1024 * (unat c div 1024))" using and_not_mask_nat [of c 10] by simp
  moreover have "unat c < 65536" using unsigned_less [of c, where ?'a = nat] by simp
  then have "1024 * (unat c div 1024) < 65536" by linarith
  ultimately show ?thesis
    using that by (simp only: word_of_nat_eq_iff) (simp add: take_bit_eq_mod)
qed

lemma surrogates_uint:
  "U16_IS_LEAD c \<longleftrightarrow> 0xD800 \<le> uint c \<and> uint c < 0xDC00"
  "U16_IS_TRAIL c \<longleftrightarrow> 0xDC00 \<le> uint c \<and> uint c < 0xE000"
proof -
  define k where "k = unat c"
  have "uint c = int k" by (simp add: k_def)
  moreover have "U16_IS_LEAD c \<longleftrightarrow> k div 1024 = 54"
    using surrogate_block [of 54 c] unfolding U16_IS_LEAD_def k_def by simp
  moreover have "U16_IS_TRAIL c \<longleftrightarrow> k div 1024 = 55"
    using surrogate_block [of 55 c] unfolding U16_IS_TRAIL_def k_def by simp
  ultimately show "U16_IS_LEAD c \<longleftrightarrow> 0xD800 \<le> uint c \<and> uint c < 0xDC00"
    "U16_IS_TRAIL c \<longleftrightarrow> 0xDC00 \<le> uint c \<and> uint c < 0xE000" by auto
qed

lemma uint_unit32: "uint (ucast (c :: uchar) :: uchar32) = uint c"
  by (rule uint_up_ucast) (simp add: is_up)

lemma unit_of_unit32: "uint (ucast (u :: uchar32) :: uchar) = uint u mod 65536"
  by (simp add: unsigned_ucast_eq take_bit_eq_mod)

lemma scalar_of_unit:
  assumes "\<not> U16_IS_LEAD c" and "\<not> U16_IS_TRAIL c"
  shows "scalarValue (ucast c) \<and> append32 (ucast c) = [c]"
proof -
  have c: "uint c < 65536" using unsigned_less [of c, where ?'a = int] by simp
  have "uint (ucast (ucast c :: uchar32) :: uchar) = uint c" using c by (simp only: unit_of_unit32 uint_unit32) simp
  then have "(ucast (ucast c :: uchar32) :: uchar) = c" by (simp only: word_uint_eq_iff)
  moreover have "(ucast c :: uchar32) \<le> 0xFFFF" using c by (simp add: word_le_def uint_unit32)
  moreover have "scalarValue (ucast c)" using assms c unfolding scalarValue_uint surrogates_uint uint_unit32 by auto
  ultimately show ?thesis by (simp add: append32_def)
qed

lemma supplementary_uint:
  assumes "U16_IS_LEAD c" and "U16_IS_TRAIL d"
  shows "uint (U16_GET_SUPPLEMENTARY c d) = (uint c - 0xD800) * 1024 + (uint d - 0xDC00) + 0x10000"
proof -
  have cd: "0xD800 \<le> uint c" "uint c < 0xDC00" "0xDC00 \<le> uint d" "uint d < 0xE000"
    using assms by (auto simp: surrogates_uint)
  have eq: "U16_GET_SUPPLEMENTARY c d = word_of_int (uint c * 1024 + uint d - 56613888)"
    by (simp add: U16_GET_SUPPLEMENTARY_def push_bit_eq_mult uint_unit32 [symmetric])
  have "uint (U16_GET_SUPPLEMENTARY c d) = uint c * 1024 + uint d - 56613888"
    unfolding eq by (rule uint_of_int_32) (use cd in auto)
  then show ?thesis by simp
qed

lemma scalar_of_pair:
  assumes "U16_IS_LEAD c" and "U16_IS_TRAIL d"
  shows "scalarValue (U16_GET_SUPPLEMENTARY c d) \<and> append32 (U16_GET_SUPPLEMENTARY c d) = [c, d]"
proof -
  let ?u = "U16_GET_SUPPLEMENTARY c d"
  define a b where "a = uint c - 0xD800" and "b = uint d - 0xDC00"
  have ab: "0 \<le> a" "a < 1024" "0 \<le> b" "b < 1024" using assms by (auto simp: surrogates_uint a_def b_def)
  have u: "uint ?u = b + 1024 * (a + 64)" using supplementary_uint [OF assms] by (simp add: a_def b_def)
  have "uint ?u div 1024 = a + 64" "uint ?u mod 1024 = b"
    unfolding u using ab by (simp_all only: div_mult_self2 mod_mult_self2) simp_all
  then have "uint (U16_LEAD ?u) = uint c" "uint (U16_TRAIL ?u) = uint d"
    using ab unfolding U16_LEAD_def U16_TRAIL_def unit_of_unit32
    by (simp_all add: uint_word_ariths uint_drop_bit uint_or uint_and and_masks or_marks a_def b_def)
  then have "U16_LEAD ?u = c" "U16_TRAIL ?u = d" by (simp_all only: word_uint_eq_iff)
  moreover have "\<not> ?u \<le> 0xFFFF" using ab u by (simp add: word_le_def)
  moreover have "scalarValue ?u" using ab u by (simp add: scalarValue_uint)
  ultimately show ?thesis by (simp add: append32_def)
qed

end
