(* ===== verification/Text_Codec_Properties.thy ===== *)
theory Text_Codec_Properties
  imports Utf8_Forms
begin

text \<open>
  What the UTF-8 codec promises: a chunk, or any sequence of chunks without the one pattern it
  mishandles, decodes to the reference; whatever it encoded decodes to the same text; it
  stays inside its buffers and returns on every input.
\<close>

section \<open>Round trip\<close>

lemma U16_NEXT_wellFormed:
  assumes "wellFormed cs" and "cs \<noteq> []"
  obtains u rest where "U16_NEXT cs = (u, rest)" "scalarValue u" "cs = append32 u @ rest" "wellFormed rest"
proof (cases cs rule: wellFormed.cases)
  case (2 c)
  with assms scalar_of_unit [of c] that show thesis by simp
next
  case (3 c d ds)
  show thesis
  proof (cases "U16_IS_LEAD c")
    case True
    with assms 3 scalar_of_pair [of c d] that show thesis by simp
  next
    case False
    with assms 3 scalar_of_unit [of c] that show thesis by simp
  qed
qed (use assms in simp)

lemma encode_step: "U16_NEXT cs = (u, rest) \<Longrightarrow> cs \<noteq> [] \<Longrightarrow> encode cs = U8_APPEND_UNSAFE u @ encode rest"
  by (simp add: encode.simps [of cs])

lemma encode_induct [consumes 1, case_names Nil Next]:
  assumes "wellFormed cs" and "P []"
    and "\<And>u rest. scalarValue u \<Longrightarrow> wellFormed rest \<Longrightarrow> P rest
           \<Longrightarrow> encode (append32 u @ rest) = U8_APPEND_UNSAFE u @ encode rest \<Longrightarrow> P (append32 u @ rest)"
  shows "P cs"
  using assms(1)
proof (induction "length cs" arbitrary: cs rule: less_induct)
  case less
  show ?case
  proof (cases "cs = []")
    case False
    obtain u rest where n: "U16_NEXT cs = (u, rest)" "scalarValue u" "cs = append32 u @ rest" "wellFormed rest"
      using U16_NEXT_wellFormed [OF less(2) False] by blast
    have "length rest < length cs" using U16_NEXT_decreases [OF False] n(1) by simp
    from assms(3) [OF n(2,4) less(1) [OF this n(4)]] encode_step [OF n(1) False] n(3) show ?thesis by simp
  qed (use assms(2) in simp)
qed

lemma decode_encode_reference: "wellFormed cs \<Longrightarrow> utf8Decode (encode cs) = (cs, False)"
proof (induction cs rule: encode_induct)
  case Nil
  show ?case by (simp add: encode.simps utf8Decode.simps)
next
  case (Next u rest)
  have "U8_APPEND_UNSAFE u \<noteq> []" by (simp add: U8_APPEND_UNSAFE_def)
  with Next utf8Step_encoded [OF Next(1), of "encode rest"] show ?case
    by (simp add: utf8Decode_step [of "U8_APPEND_UNSAFE u @ encode rest"])
qed

lemma noHazard_Cons: "nonASCIISequenceLength x \<noteq> 4 \<Longrightarrow> noHazard (x # bs) = noHazard bs"
  by (cases bs rule: noHazard.cases) auto

lemma continuation_length: "uint b = 0x80 + k \<Longrightarrow> 0 \<le> k \<Longrightarrow> k < 64 \<Longrightarrow> nonASCIISequenceLength b = 2"
  by (simp add: sequenceLength_uint)

lemma noHazard_encoded:
  assumes "scalarValue u" and "noHazard bs"
  shows "noHazard (U8_APPEND_UNSAFE u @ bs)"
proof (cases "0x7F < uint u")
  case False
  then have "nonASCIISequenceLength (ucast u) \<noteq> 4" "u \<le> 0x7F"
    by (simp_all add: sequenceLength_uint uint_narrow_byte word_le_def)
  with assms(2) show ?thesis by (simp add: U8_APPEND_UNSAFE_def noHazard_Cons)
next
  case True
  have u: "uint u \<le> 0x10FFFF" using assms(1) by (simp add: scalarValue_uint)
  have d: "0 \<le> uint u div 64 mod 64" "uint u div 64 mod 64 < 64" "0 \<le> uint u mod 64" "uint u mod 64 < 64"
    "0 \<le> uint u div 4096 mod 64" "uint u div 4096 mod 64 < 64" by simp_all
  show ?thesis
  proof (cases rule: U8_cases [OF u True, case_names two three four])
    case (two x y)
    with assms(2) encoded_sequence [OF assms(1) True] continuation_length [OF two(4) d(3,4)] show ?thesis
      by (simp add: noHazard_Cons)
  next
    case (three x y z)
    with assms(2) encoded_sequence [OF assms(1) True] continuation_length [OF three(5) d(1,2)]
      continuation_length [OF three(6) d(3,4)] show ?thesis
      by (simp add: noHazard_Cons)
  next
    case (four x y z v)
    have "uint y < 0xC0" unfolding four(4) using d by linarith
    then have "decodeNonASCIISequence [y, z] 2 = nonCharacter" by (simp add: decode_2)
    moreover have "nonASCIISequenceLength y = 2" "nonASCIISequenceLength z = 2" "nonASCIISequenceLength v = 2"
      using four(4-6) d by (auto intro: continuation_length)
    ultimately show ?thesis using assms(2) by (cases bs) (simp_all add: four(1) noHazard_Cons)
  qed
qed

lemma noHazard_encode: "wellFormed cs \<Longrightarrow> noHazard (encode cs)"
  by (induction cs rule: encode_induct) (simp_all add: encode.simps noHazard_encoded)

section \<open>Decoding a document\<close>

text \<open>
  How a document is decoded: chunk after chunk as they arrive, each at its own address, and
  at the end an empty chunk with \<^verbatim>\<open>flush\<close> set.
\<close>

fun decodeStream ::
  "machine_word \<Rightarrow> nat \<Rightarrow> (nat \<times> byte list) list \<Rightarrow> bool \<Rightarrow> TextCodecUTF8 \<Rightarrow> (uchar list \<times> bool \<times> TextCodecUTF8) option"
  where
  "decodeStream w a [] saw c =
     (case decode w a [] True False saw c of None \<Rightarrow> None | Some (str, e, c') \<Rightarrow> Some (chars str, e, c'))"
| "decodeStream w a ((addr, bytes) # chunks) saw c =
     (case decode w addr bytes False False saw c of
        None \<Rightarrow> None
      | Some (str, e, c') \<Rightarrow>
          (case decodeStream w a chunks e c' of
             None \<Rightarrow> None
           | Some (cs, e', c'') \<Rightarrow> Some (chars str @ cs, e', c'')))"

lemma newCodec_ok: "length uninitialized = 4 \<Longrightarrow> codec_ok (newTextCodecUTF8 uninitialized)"
  "pending (newTextCodecUTF8 uninitialized) = []"
  by (simp_all add: codec_ok_def pending_def newTextCodecUTF8_def)

lemma utf8Decode_after_stream:
  assumes "utf8Stream bs = (out, e, r)" and "utf8Decode (r @ cs) = (out', e')"
  shows "utf8Decode (bs @ cs) = (out @ out', e \<or> e')"
  using assms unfolding utf8Decode_stream [of "bs @ cs"] utf8Decode_stream [of "r @ cs"] utf8Stream_append [of bs cs]
  by (auto split: prod.splits)

lemma noHazard_rest:
  assumes "noHazard (bs @ cs)" and "utf8Stream bs = (out, e, r)"
  shows "noHazard (r @ cs)"
proof -
  obtain k where "r = drop k bs" using utf8Stream_rest [OF assms(2)] by blast
  then have "r @ cs = drop (min k (length bs)) (bs @ cs)" by (simp add: min_def)
  then show ?thesis by (simp only: noHazard_drop [OF assms(1)])
qed

lemma decodeStream_correct:
  assumes "codec_ok c" and "noHazard (pending c @ concat (map snd chunks))"
    and "utf8Decode (pending c @ concat (map snd chunks)) = (out, e)"
  shows "\<exists>c'. decodeStream w a chunks saw c = Some (out, saw \<or> e, c') \<and> codec_ok c' \<and> pending c' = []"
  using assms
proof (induction chunks arbitrary: saw c out e)
  case Nil
  then have "process True (pending c @ []) = (out, e, [])" by (simp add: process_def)
  from decode_call [OF Nil(1) _ this, of w a saw] Nil(2) show ?case by (auto simp: noHazard_appendD)
next
  case (Cons chunk chunks)
  obtain addr bytes where chunk: "chunk = (addr, bytes)" by (cases chunk)
  let ?rest = "concat (map snd chunks)"
  obtain o1 e1 r where s: "utf8Stream (pending c @ bytes) = (o1, e1, r)" by (metis prod_cases3)
  obtain o2 e2 where d: "utf8Decode (r @ ?rest) = (o2, e2)" by (metis surj_pair)
  have hazard: "noHazard ((pending c @ bytes) @ ?rest)" using Cons.prems(2) by (simp add: chunk)
  have "process False (pending c @ bytes) = (o1, e1, r)" using s by (simp add: process_def)
  from decode_call [OF Cons.prems(1) _ this, of w addr saw] noHazard_append [OF hazard] obtain str c1
    where c1: "decode w addr bytes False False saw c = Some (str, saw \<or> e1, c1)" "chars str = o1"
      "pending c1 = r" "codec_ok c1" by auto
  obtain c2 where "decodeStream w a chunks (saw \<or> e1) c1 = Some (o2, (saw \<or> e1) \<or> e2, c2)" "codec_ok c2" "pending c2 = []"
    using Cons.IH [of c1 o2 e2 "saw \<or> e1"] c1(3,4) noHazard_rest [OF hazard s] d by blast
  moreover have "out = o1 @ o2" "e = (e1 \<or> e2)"
    using utf8Decode_after_stream [OF s d] Cons.prems(3) by (simp_all add: chunk)
  ultimately show ?case using c1 by (simp add: chunk disj_assoc)
qed

text \<open>
  C15: a document decoded in one call with \<^verbatim>\<open>flush\<close> becomes the reference decoding of its bytes,
  whatever the bytes, the machine word and the alignment of the buffer: each valid sequence
  its code units, each byte that starts none U+FFFD, and the error flag set exactly if
  there was such a byte. The codec is left without a partial sequence.
\<close>

theorem decode_whole_document:
  assumes "length uninitialized = 4"
  shows "\<exists>str c. decode w addr bytes True False saw (newTextCodecUTF8 uninitialized)
           = Some (str, saw \<or> snd (utf8Decode bytes), c)
         \<and> chars str = fst (utf8Decode bytes) \<and> pending c = [] \<and> codec_ok c"
proof -
  have "process True (pending (newTextCodecUTF8 uninitialized) @ bytes)
      = (fst (utf8Decode bytes), snd (utf8Decode bytes), [])"
    by (simp add: process_def newCodec_ok(2) split: prod.splits)
  from decode_call [OF newCodec_ok(1) [OF assms] _ this, of w addr saw] show ?thesis
    by (auto simp: newCodec_ok(2))
qed

theorem decode_whole_document_witness:
  "\<exists>str c. decode Word8 3 [0x41, 0xC3, 0xA9, 0xFF] True False False (newTextCodecUTF8 [0, 0, 0, 0])
           = Some (str, False \<or> snd (utf8Decode [0x41, 0xC3, 0xA9, 0xFF]), c)
         \<and> chars str = fst (utf8Decode [0x41, 0xC3, 0xA9, 0xFF]) \<and> pending c = [] \<and> codec_ok c"
  by (rule decode_whole_document) simp

text \<open>
  C16: cutting a document into chunks makes no difference: if the bytes have no lead of a
  four-byte sequence right before a valid two-byte sequence and another byte, then the
  chunks, at whatever addresses, decode to the reference decoding of the whole.
\<close>

theorem decode_chunks:
  assumes "length uninitialized = 4" and "noHazard (concat (map snd chunks))"
  shows "\<exists>c. decodeStream w a chunks False (newTextCodecUTF8 uninitialized)
    = Some (fst (utf8Decode (concat (map snd chunks))), snd (utf8Decode (concat (map snd chunks))), c)"
  using decodeStream_correct [OF newCodec_ok(1) [OF assms(1)], of chunks, unfolded newCodec_ok(2) append_Nil,
      OF assms(2) prod.collapse [symmetric], of w a False] by auto

theorem decode_chunks_witness:
  "\<exists>c. decodeStream Word4 0 [(0, [0xE2, 0x82]), (5, []), (8, [0xAC, 0xF0]), (16, [0x9F])] False
      (newTextCodecUTF8 [0, 0, 0, 0])
    = Some (fst (utf8Decode [0xE2, 0x82, 0xAC, 0xF0, 0x9F]), snd (utf8Decode [0xE2, 0x82, 0xAC, 0xF0, 0x9F]), c)"
proof -
  have "noHazard (concat (map snd [(0 :: nat, [0xE2, 0x82]), (5, []), (8, [0xAC, 0xF0]), (16, [0x9F :: byte])]))"
    by code_simp
  from decode_chunks [OF _ this, of "[0, 0, 0, 0]" Word4 0] show ?thesis by simp
qed

text \<open>
  C17: decoding inverts encoding: well-formed UTF-16 text, encoded and cut into chunks in any way,
  decodes to the same text without an error.
\<close>

theorem decode_encode:
  assumes "wellFormed cs" and "concat (map snd chunks) = encode cs" and "length uninitialized = 4"
  shows "\<exists>c. decodeStream w a chunks False (newTextCodecUTF8 uninitialized) = Some (cs, False, c)"
  using decodeStream_correct [OF newCodec_ok(1) [OF assms(3)], of chunks cs False w a False]
    noHazard_encode [OF assms(1)] decode_encode_reference [OF assms(1)] assms(2)
  by (auto simp: newCodec_ok(2))

theorem decode_encode_witness:
  "\<exists>c. decodeStream Word8 0 [(0, [0x68, 0xC3]), (9, [0xA9, 0xF0, 0x9F]), (4, [0x98, 0x80])] False
     (newTextCodecUTF8 [0, 0, 0, 0]) = Some ([0x68, 0xE9, 0xD83D, 0xDE00], False, c)"
proof (rule decode_encode)
  show "wellFormed [0x68, 0xE9, 0xD83D, 0xDE00]" by code_simp
  show "concat (map snd [(0 :: nat, [0x68, 0xC3]), (9, [0xA9, 0xF0, 0x9F]), (4, [0x98, 0x80])])
      = encode [0x68, 0xE9, 0xD83D, 0xDE00]" by code_simp
qed simp


end
