(* ===== verification/Text_Codec_Bounds.thy ===== *)
theory Text_Codec_Bounds
  imports Text_Codec_Refine
begin

text \<open>
  Memory safety of the UTF-8 codec, for every input, valid or not, with and without
  \<^verbatim>\<open>stopOnError\<close>: the output fits the buffers \<^verbatim>\<open>decode\<close> allocates, the partial sequence fits its
  array of four bytes, an 8-bit result holds 8-bit characters only, and every call returns.
\<close>

section \<open>Room in the buffers\<close>

text \<open>
  What is written, what is held back and what is still to come: no operation makes it
  more, so a buffer that had room for it in the beginning has room to the end. The source
  pointer stays between the start and the end \<open>e\<close> of the chunk.
\<close>

definition within :: "nat \<Rightarrow> nat \<Rightarrow> decoding \<Rightarrow> bool" where
  "within e N d \<longleftrightarrow> codec_wf d \<and> address d + length (source d) = e
     \<and> length (destination d) + partialSize d + length (source d) \<le> N"

lemma within_step:
  "within e N d \<Longrightarrow> length cs \<le> n \<Longrightarrow> n \<le> length (source d) \<Longrightarrow> within e N (emit cs (skipSource n d))"
  "within e N (d\<lparr>sawError := b\<rparr>) = within e N d"
  by (auto simp: within_def) (auto simp: emit_def skipSource_def)

lemma within_consume:
  assumes "within e N d" and "partialSize d \<noteq> 0"
  shows "within e N ((emit [c] (d\<lparr>sawError := b\<rparr>))\<lparr>codec := consumePartialSequenceByte (codec d)\<rparr>)"
  using assms consume_pend [of d] by (auto simp: within_def codec_wf_def partialSize_def emit_def)

lemma within_complete:
  assumes "within e N d" and "n \<le> 4" and "partialSize d < n" and "n - partialSize d \<le> length (source d)"
  shows "within e N (completeSequence n d)" "partialSize (completeSequence n d) = n"
  using assms complete_pend [of d n]
  by (auto simp: within_def) (auto simp: completeSequence_def skipSource_def Let_def)

lemma within_drop:
  assumes "within e N d" and "n \<le> partialSize d" and "length cs \<le> n"
  shows "within e N (emit cs (dropSequence n d))"
  using assms by (auto simp: within_def codec_wf_def dropSequence_def partialSize_def emit_def)

text \<open>A call that has stopped: what is written is inside the buffer, the partial sequence inside its array.\<close>

definition settled :: "nat \<Rightarrow> nat \<Rightarrow> decoding \<Rightarrow> bool" where
  "settled e N d \<longleftrightarrow> codec_wf d \<and> address d + length (source d) = e \<and> length (destination d) \<le> N"

lemma within_settled: "within e N d \<Longrightarrow> settled e N d"
  by (simp add: within_def settled_def)

lemma within_keep:
  assumes "within e N d" and "partialSize d + length (source d) < 4"
  shows "settled e N (keepSource d)"
    "partialSize (keepSource d) = partialSize d + length (source d)"
  using assms add_pend [of d "source d"]
  by (auto simp: within_def settled_def keepSource_def addToPartialSequence_def partialSize_def Let_def)

lemma appendCharacter_length: "length (appendCharacter c) \<le> 2"
  by (simp add: appendCharacter_def append32_def)

lemma partialStep16_within:
  assumes "within e N d" and "partialSize d \<noteq> 0"
  shows "case partialStep16 flush stopOnError d of
    Continue d' \<Rightarrow> within e N d' \<and> (source d = [] \<longrightarrow> source d' = [])
  | Finish b d' \<Rightarrow> settled e N d' \<and> partialSize d' \<noteq> 0
      \<and> (\<not> stopOnError \<longrightarrow> \<not> flush \<and> partialSize d' < 4 \<and> incomplete (pend d'))"
proof -
  let ?b = "m_partialSequence (codec d) ! 0"
  let ?n = "nonASCIISequenceLength ?b"
  let ?d = "if ?n > partialSize d then completeSequence ?n d else d"
  let ?c = "decodeNonASCIISequence (m_partialSequence (codec ?d)) ?n"
  have wf: "codec_wf d" using assms(1) by (simp add: within_def)
  have hd: "?b = hd (pend d)" "pend d \<noteq> []" using pend_hd [OF wf assms(2)] by auto
  have error: "case partialError stopOnError x of Continue d' \<Rightarrow> within e N d' \<and> (source x = [] \<longrightarrow> source d' = [])
      | Finish b d' \<Rightarrow> settled e N d' \<and> partialSize d' \<noteq> 0 \<and> stopOnError"
    if "within e N x" "partialSize x \<noteq> 0" for x
    using within_consume [OF that, of replacementCharacter True] that within_settled [OF that(1)]
    by (auto simp: partialError_def handleError_def Let_def settled_def emit_def)
  consider (ascii) "isASCIIByte ?b" | (zero) "\<not> isASCIIByte ?b" "?n = 0"
    | (short) "\<not> isASCIIByte ?b" "?n > partialSize d" "?n - partialSize d > length (source d)"
    | (whole) "\<not> isASCIIByte ?b" "?n \<noteq> 0" "\<not> (?n > partialSize d \<and> ?n - partialSize d > length (source d))"
    by blast
  then show ?thesis
  proof cases
    case ascii
    with within_consume [OF assms, of "widen ?b" "sawError d"] show ?thesis
      by (simp add: partialStep16_def consumeASCII_def emit_def)
  next
    case zero
    with error [OF assms] show ?thesis by (auto simp: partialStep16_def Let_def split: loop_step.splits)
  next
    case short
    have four: "partialSize d + length (source d) < 4" using short(2,3) length_le_4 [of ?b] by linarith
    note k = within_keep [OF assms(1) four]
    have "pend (keepSource d) = pend d @ source d"
      using add_pend [OF wf, of "source d"] four by (simp add: keepSource_def)
    then have "incomplete (pend (keepSource d))"
      using short hd pend_length [OF wf] by (simp add: incomplete_def)
    with short k four assms(2) error [OF assms] show ?thesis
      by (auto simp: partialStep16_def Let_def settled_def split: loop_step.splits)
  next
    case whole
    have n: "2 \<le> ?n" "?n \<le> 4" using whole(2) lengths_cases [of ?b] by auto
    have w: "within e N ?d" "?n \<le> partialSize ?d" "partialSize ?d \<noteq> 0" "source d = [] \<longrightarrow> source ?d = []"
      using assms whole within_complete [OF assms(1) n(2)] by auto
    have "within e N (emit (appendCharacter ?c) (dropSequence ?n ?d))"
      using within_drop [OF w(1,2)] appendCharacter_length [of ?c] n(1) by simp
    moreover have "partialStep16 flush stopOnError d =
        (if ?c = nonCharacter then partialError stopOnError ?d
         else Continue (emit (appendCharacter ?c) (dropSequence ?n ?d)))"
      using whole by (auto simp: partialStep16_def Let_def)
    ultimately show ?thesis
      using error [OF w(1,3)] w(4) by (auto split: loop_step.splits)
  qed
qed

text \<open>The state in which a chunk may end: nothing is held back, or, without \<open>flush\<close>, an incomplete sequence.\<close>

definition restful :: "bool \<Rightarrow> decoding \<Rightarrow> bool" where
  "restful flush d \<longleftrightarrow> partialSize d = 0 \<or> \<not> flush \<and> partialSize d < 4 \<and> incomplete (pend d)"

lemma handlePartialSequence16_within:
  assumes "within e N d"
  shows "let d' = handlePartialSequence16 flush stopOnError d in
    partialSize d' = 0 \<and> within e N d' \<and> (source d = [] \<longrightarrow> source d' = [])
    \<or> partialSize d' \<noteq> 0 \<and> settled e N d' \<and> (\<not> stopOnError \<longrightarrow> restful flush d')"
  using assms
proof (induction "remaining d" arbitrary: d rule: less_induct)
  case less
  note unfold = handlePartialSequence16.simps [of flush stopOnError d]
  show ?case
  proof (cases "partialSize d = 0")
    case False
    note step = partialStep16_within [OF less.prems False, where flush = flush and stopOnError = stopOnError]
    show ?thesis
    proof (cases "partialStep16 flush stopOnError d")
      case (Continue d')
      with less.hyps [OF partialStep16_decreases [OF Continue False]] step False show ?thesis
        unfolding unfold by (auto simp: Let_def)
    next
      case (Finish b d')
      with step False show ?thesis unfolding unfold by (auto simp: restful_def)
    qed
  qed (use less.prems in \<open>simp add: unfold\<close>)
qed

lemma copySource_within:
  "within e N d \<Longrightarrow> main_ok d \<Longrightarrow> n \<le> length (source d) \<Longrightarrow> within e N (copySource n d) \<and> main_ok (copySource n d)"
  unfolding copySource_def main_ok_def within_def by (simp add: skipSource_def emit_def codec_wf_def partialSize_def)

text \<open>
  The fast path reads words at aligned addresses below the end of the chunk rounded down to a
  word boundary, hence inside the chunk.
\<close>

lemma copyWords_within:
  assumes "within e N d" and "main_ok d" and "address d mod wordSize w = 0" and "stop = e - e mod wordSize w"
  shows "within e N (copyWords w stop d) \<and> main_ok (copyWords w stop d)"
  using assms
proof (induction w stop d rule: copyWords.induct)
  case (1 w stop d)
  show ?case
  proof (cases "address d < stop \<and> isAllASCII (take (wordSize w) (source d))")
    case True
    have "stop = alignedEnd w d" using 1(2,5) by (simp add: within_def alignedEnd_def Let_def)
    then have "wordSize w \<le> length (source d)" using aligned_word_inside [OF 1(4)] True by simp
    from copySource_within [OF 1(2,3) this] 1(1) [OF True] 1(4,5) True show ?thesis
      unfolding copyWords.simps [of w stop d] by (simp add: copySource_def skipSource_def emit_def)
  qed (use 1(2,3) in \<open>auto simp: copyWords.simps [of w stop d]\<close>)
qed

lemma copyASCII_within:
  assumes "within e N d" and "main_ok d" and "source d \<noteq> []" and "stop = e - e mod wordSize w"
  shows "within e N (copyASCII w stop d) \<and> main_ok (copyASCII w stop d)"
proof (cases "address d mod wordSize w = 0")
  case True
  let ?d = "copyWords w stop d"
  note c = copyWords_within [OF assms(1,2) True assms(4)]
  then have "source ?d \<noteq> [] \<Longrightarrow> within e N (copySource 1 ?d) \<and> main_ok (copySource 1 ?d)"
    by (intro copySource_within) (auto simp: Suc_le_eq)
  with True c show ?thesis by (simp add: copyASCII_def Let_def)
next
  case False
  with copySource_within [OF assms(1,2), of 1] assms(3) show ?thesis by (simp add: copyASCII_def Suc_le_eq)
qed

lemma saveTail_within:
  assumes "within e N d" and "main_ok d" and "incomplete (source d)"
  shows "within e N (saveTail d) \<and> drained (saveTail d)"
proof -
  note t = saveTail_ok [OF assms(2,3)]
  have "address (saveTail d) + length (source (saveTail d)) = address d + length (source d)"
    by (simp add: saveTail_def skipSource_def Let_def)
  with t(1-5,7) pend_length [OF t(1)] assms(1,3) show ?thesis by (simp add: within_def drained_def)
qed

lemma decodeLoop16_within:
  assumes "within e N d" and "main_ok d" and "stop = e - e mod wordSize w"
  shows "let d' = decodeLoop16 w stop stopOnError d in within e N d' \<and> (partialSize d' = 0 \<or> drained d')"
  using assms(1,2)
proof (induction "length (source d)" arbitrary: d rule: less_induct)
  case less
  let ?n = "nonASCIISequenceLength (hd (source d))" and ?bs = "source d"
  let ?c = "if ?n = 0 then nonCharacter else decodeNonASCIISequence ?bs ?n"
  let ?e = "emit [replacementCharacter] (skipSource 1 (d\<lparr>sawError := True\<rparr>))"
  let ?d = "emit (appendCharacter ?c) (skipSource ?n d)"
  note unfold = decodeLoop16.simps [of w stop stopOnError d]
  consider (empty) "?bs = []" | (ascii) "?bs \<noteq> []" "isASCIIByte (hd ?bs)" | (tail) "incomplete ?bs"
    | (error) "?bs \<noteq> []" "\<not> isASCIIByte (hd ?bs)" "\<not> incomplete ?bs" "?c = nonCharacter"
    | (char) "?bs \<noteq> []" "\<not> isASCIIByte (hd ?bs)" "\<not> incomplete ?bs" "?c \<noteq> nonCharacter"
    by blast
  then show ?case
  proof cases
    case empty
    with less.prems show ?thesis unfolding unfold by (simp add: main_ok_def)
  next
    case ascii
    from copyASCII_within [OF less.prems(1,2) ascii(1) assms(3)] less.hyps [OF copyASCII_decreases [OF ascii]]
    show ?thesis unfolding unfold using ascii by simp
  next
    case tail
    with saveTail_within [OF less.prems tail] show ?thesis
      unfolding unfold by (auto simp: incomplete_def)
  next
    case error
    have "within e N ?e" "main_ok ?e" "length (source ?e) < length ?bs"
      using less.prems error(1) by (auto simp: within_step Suc_le_eq)
    moreover have "decodeLoop16 w stop stopOnError d =
        (if stopOnError then d\<lparr>sawError := True\<rparr> else decodeLoop16 w stop stopOnError ?e)"
      unfolding unfold using error by (auto simp: incomplete_def Let_def)
    ultimately show ?thesis
      using less.hyps [of ?e] less.prems by (auto simp: within_step main_ok_def)
  next
    case char
    have n: "2 \<le> ?n" "?n \<le> length ?bs"
      using char lengths_cases [of "hd ?bs"] by (auto simp: incomplete_def split: if_splits)
    then have "within e N ?d" using appendCharacter_length [of ?c] less.prems by (intro within_step) auto
    moreover have "decodeLoop16 w stop stopOnError d = decodeLoop16 w stop stopOnError ?d"
      unfolding unfold using char n by (auto simp: incomplete_def Let_def)
    ultimately show ?thesis using less.hyps [of ?d] less.prems n char(1) by simp
  qed
qed

lemma decode16_kept:
  assumes "(if partialSize d \<noteq> 0 then handlePartialSequence16 flush stopOnError d else d) = h" and "partialSize h \<noteq> 0"
  shows "decode16 (Suc n) w stop flush stopOnError d = Some h"
  unfolding decode16.simps(2) assms(1) Let_def using assms(2) by (simp only: simp_thms if_True)

lemma decode16_round:
  assumes "(if partialSize d \<noteq> 0 then handlePartialSequence16 flush stopOnError d else d) = h" and "partialSize h = 0"
    and "decodeLoop16 w stop stopOnError h = l"
  shows "decode16 (Suc n) w stop flush stopOnError d =
    (if flush \<and> partialSize l \<noteq> 0 then decode16 n w stop flush stopOnError l else Some l)"
  unfolding decode16.simps(2) assms(1) Let_def using assms(2,3) by (simp only: simp_thms if_False)

lemma drained_restful: "drained d \<Longrightarrow> \<not> flush \<Longrightarrow> restful flush d"
  using drained_size [of d] by (auto simp: drained_def restful_def)

lemma decode16_within:
  assumes "within e N d" and "stop = e - e mod wordSize w"
  shows "\<exists>d'. decode16 (Suc (Suc n)) w stop flush stopOnError d = Some d' \<and> settled e N d'
    \<and> (\<not> stopOnError \<longrightarrow> restful flush d')"
proof -
  define h where "h = (if partialSize d \<noteq> 0 then handlePartialSequence16 flush stopOnError d else d)"
  define l where "l = decodeLoop16 w stop stopOnError h"
  define g where "g = handlePartialSequence16 flush stopOnError l"
  have h: "partialSize h = 0 \<and> within e N h \<or> partialSize h \<noteq> 0 \<and> settled e N h \<and> (\<not> stopOnError \<longrightarrow> restful flush h)"
    using handlePartialSequence16_within [OF assms(1), of flush stopOnError] assms(1) by (auto simp: h_def Let_def)
  show ?thesis
  proof (cases "partialSize h = 0")
    case False
    then have "decode16 (Suc (Suc n)) w stop flush stopOnError d = Some h"
      by (intro decode16_kept) (simp_all add: h_def)
    with h False show ?thesis by simp
  next
    case True
    then have "within e N h" "main_ok h" using h by (auto simp: main_ok_def within_def)
    then have l: "within e N l" "partialSize l = 0 \<or> drained l"
      using decodeLoop16_within [OF _ _ assms(2), of N h stopOnError] by (simp_all add: l_def Let_def)
    have first: "decode16 (Suc (Suc n)) w stop flush stopOnError d =
        (if flush \<and> partialSize l \<noteq> 0 then decode16 (Suc n) w stop flush stopOnError l else Some l)"
      by (intro decode16_round [OF _ True]) (simp_all add: h_def l_def)
    show ?thesis
    proof (cases "flush \<and> partialSize l \<noteq> 0")
      case False
      then have "restful flush l" using l(2) drained_restful [of l flush] by (cases "partialSize l = 0") (auto simp: restful_def)
      moreover have "decode16 (Suc (Suc n)) w stop flush stopOnError d = Some l" using first False by auto
      ultimately show ?thesis using within_settled [OF l(1)] by simp
    next
      case again: True
      with l have "source l = []" by (auto simp: drained_def)
      then have g: "partialSize g = 0 \<and> within e N g \<and> source g = []
          \<or> partialSize g \<noteq> 0 \<and> settled e N g \<and> (\<not> stopOnError \<longrightarrow> restful flush g)"
        using handlePartialSequence16_within [OF l(1), of flush stopOnError] by (auto simp: g_def Let_def)
      have start: "(if partialSize l \<noteq> 0 then handlePartialSequence16 flush stopOnError l else l) = g"
        using again by (simp add: g_def)
      have "decode16 (Suc n) w stop flush stopOnError l = Some g"
      proof (cases "partialSize g = 0")
        case True
        with g have "decodeLoop16 w stop stopOnError g = g" by (simp add: decodeLoop16.simps [of w stop stopOnError g])
        from decode16_round [OF start True this] True show ?thesis by simp
      qed (rule decode16_kept [OF start])
      moreover have "settled e N g" "\<not> stopOnError \<longrightarrow> restful flush g" using g within_settled by (auto simp: restful_def)
      ultimately show ?thesis using first again by simp
    qed
  qed
qed

section \<open>The 8-bit part\<close>

definition latin1 :: "decoding \<Rightarrow> bool" where
  "latin1 d \<longleftrightarrow> list_all (\<lambda>c. c \<le> 0xFF) (destination d)"

lemma latin1_simps [simp]:
  "latin1 (emit cs d) \<longleftrightarrow> latin1 d \<and> list_all (\<lambda>c. c \<le> 0xFF) cs" "latin1 (skipSource n d) = latin1 d"
  "latin1 (d\<lparr>sawError := b\<rparr>) = latin1 d" "latin1 (completeSequence n d) = latin1 d"
  "latin1 (keepSource d) = latin1 d" "latin1 (dropSequence n d) = latin1 d" "latin1 (saveTail d) = latin1 d"
  by (simp_all add: latin1_def completeSequence_def keepSource_def dropSequence_def saveTail_def Let_def skipSource_def emit_def)

lemma widen_latin1: "widen b \<le> 0xFF"
proof -
  have "uint (widen b) = uint b" unfolding widen_def by (rule uint_up_ucast) (simp add: is_up)
  moreover have "uint b < 256" using unsigned_less [of b, where ?'a = int] by simp
  ultimately show ?thesis by (simp add: word_le_def)
qed

lemma small_latin1: "0 \<le> c \<Longrightarrow> c \<le> 0xFF \<Longrightarrow> (word_of_int c :: uchar) \<le> 0xFF"
  by (simp add: word_le_def uint_word_of_int)

lemma copySource_latin1 [simp]: "latin1 (copySource n d) = latin1 d"
  by (simp add: copySource_def list_all_iff widen_latin1)

lemma copyWords_latin1 [simp]: "latin1 (copyWords w stop d) = latin1 d"
  by (induction w stop d rule: copyWords.induct) (subst copyWords.simps, simp)

lemma copyASCII_latin1 [simp]: "latin1 (copyASCII w stop d) = latin1 d"
  by (simp add: copyASCII_def Let_def)

lemma decodeLoop8_within:
  assumes "within e N d" and "main_ok d" and "latin1 d" and "stop = e - e mod wordSize w"
  shows "case decodeLoop8 w stop stopOnError d of (up, d') \<Rightarrow>
    within e N d' \<and> latin1 d' \<and> (if up then main_ok d' else partialSize d' = 0 \<or> drained d')"
  using assms(1-3)
proof (induction "length (source d)" arbitrary: d rule: less_induct)
  case less
  let ?n = "nonASCIISequenceLength (hd (source d))" and ?bs = "source d"
  let ?c = "if ?n = 0 then nonCharacter else decodeNonASCIISequence ?bs ?n"
  let ?d = "emit [word_of_int ?c] (skipSource ?n d)"
  note unfold = decodeLoop8.simps [of w stop stopOnError d]
  consider (empty) "?bs = []" | (ascii) "?bs \<noteq> []" "isASCIIByte (hd ?bs)" | (tail) "incomplete ?bs"
    | (error) "?bs \<noteq> []" "\<not> isASCIIByte (hd ?bs)" "\<not> incomplete ?bs" "?c = nonCharacter"
    | (wide) "?bs \<noteq> []" "\<not> isASCIIByte (hd ?bs)" "\<not> incomplete ?bs" "?c \<noteq> nonCharacter" "?c > 0xFF"
    | (char) "?bs \<noteq> []" "\<not> isASCIIByte (hd ?bs)" "\<not> incomplete ?bs" "?c \<noteq> nonCharacter" "\<not> ?c > 0xFF"
    by blast
  then show ?case
  proof cases
    case empty
    with less.prems show ?thesis unfolding unfold by (simp add: main_ok_def)
  next
    case ascii
    from copyASCII_within [OF less.prems(1,2) ascii(1) assms(4)] less.hyps [OF copyASCII_decreases [OF ascii]] less.prems(3)
    show ?thesis unfolding unfold using ascii by simp
  next
    case tail
    with saveTail_within [OF less.prems(1,2) tail] less.prems(3) show ?thesis
      unfolding unfold by (auto simp: incomplete_def)
  next
    case error
    then have "decodeLoop8 w stop stopOnError d = (\<not> stopOnError, d\<lparr>sawError := True\<rparr>)"
      unfolding unfold by (auto simp: incomplete_def Let_def)
    then show ?thesis using less.prems by (auto simp: within_step main_ok_def)
  next
    case wide
    then have "decodeLoop8 w stop stopOnError d = (True, d)"
      unfolding unfold by (auto simp: incomplete_def Let_def split: if_splits)
    then show ?thesis using less.prems by simp
  next
    case char
    have n: "?n \<noteq> 0" "?n \<le> length ?bs"
      using char by (auto simp: incomplete_def split: if_splits)
    have "0 \<le> ?c" using decode_nonneg [of ?bs ?n] char(1,4) n by auto
    then have "latin1 ?d" using small_latin1 [of ?c] char(5) less.prems(3) by simp
    moreover have "within e N ?d" using less.prems n by (intro within_step) auto
    moreover have "decodeLoop8 w stop stopOnError d = decodeLoop8 w stop stopOnError ?d"
      unfolding unfold using char n by (auto simp: incomplete_def Let_def)
    ultimately show ?thesis using less.hyps [of ?d] less.prems n char(1) by simp
  qed
qed

text \<open>
  A partial sequence kept from an earlier chunk is incomplete, so the loop that completes it runs
  once: it asks for 16-bit characters before it has written any, it keeps the chunk, or it
  writes one character for at least one byte of the chunk.
\<close>

lemma handlePartialSequence8_within:
  assumes "codec_wf d" and "incomplete (pend d)" and "latin1 d" and "address d + length (source d) = e"
  shows "case handlePartialSequence8 flush d of (up, d') \<Rightarrow>
    if up then within e (length (destination d) + partialSize d' + length (source d)) d' \<and> destination d' = destination d
    else latin1 d' \<and> (partialSize d' = 0 \<and> within e (length (destination d) + length (source d)) d'
      \<or> partialSize d' \<noteq> 0 \<and> settled e (length (destination d)) d' \<and> restful flush d')"
proof -
  let ?b = "m_partialSequence (codec d) ! 0"
  let ?n = "nonASCIISequenceLength ?b"
  let ?d = "completeSequence ?n d"
  let ?c = "decodeNonASCIISequence (m_partialSequence (codec ?d)) ?n"
  have len: "length (pend d) = partialSize d" by (rule pend_length) (rule assms(1))
  have ne: "partialSize d \<noteq> 0" using assms(2) pend_Nil [of d] by (auto simp: incomplete_def)
  have hd: "?b = hd (pend d)" "pend d \<noteq> []" using pend_hd [OF assms(1) ne] by simp_all
  with assms(2) len have b: "\<not> isASCIIByte ?b" "partialSize d < ?n" "?n \<noteq> 0" "?n \<le> 4"
    using length_le_4 by (auto simp: incomplete_def)
  note unfold = handlePartialSequence8.simps [of flush d] partialStep8_def
  show ?thesis
  proof (cases "?n - partialSize d > length (source d)")
    case True
    have four: "partialSize d + length (source d) < 4" using True b by linarith
    have w: "within e (length (destination d) + partialSize d + length (source d)) d" using assms(1,4) by (simp add: within_def)
    note k = within_keep [OF w four]
    have "pend (keepSource d) = pend d @ source d"
      using add_pend [OF assms(1), of "source d"] four by (simp add: keepSource_def)
    then have "incomplete (pend (keepSource d))" using True b hd len ne by (auto simp: incomplete_def)
    moreover have "settled e (length (destination d)) (keepSource d)"
      using k(1) by (simp add: settled_def) (simp add: keepSource_def)
    moreover have "handlePartialSequence8 flush d = (if \<not> flush then (False, keepSource d) else (True, d))"
      using True b ne by (simp add: unfold Let_def)
    ultimately show ?thesis using k(2) w four ne assms(3) by (auto simp: restful_def)
  next
    case False
    note c = complete_pend [OF assms(1) b(2,4)]
    have size: "partialSize ?d = ?n" "codec_wf ?d" "destination ?d = destination d"
      "source ?d = drop (?n - partialSize d) (source d)" using c False by auto
    have "within e (length (destination d) + partialSize d + length (source d)) d" using assms(1,4) by (simp add: within_def)
    from within_complete(1) [OF this b(4,2)] False have e: "address ?d + length (source ?d) = e" by (simp add: within_def)
    have step: "handlePartialSequence8 flush d =
        (if ?c = nonCharacter \<or> ?c > 0xFF then (True, ?d)
         else (False, emit [word_of_int ?c] (dropSequence ?n ?d)))"
      using False b ne size(1)
      by (simp add: unfold Let_def handlePartialSequence8.simps [of flush "emit _ _"])
    show ?thesis
    proof (cases "?c = nonCharacter \<or> ?c > 0xFF")
      case True
      then show ?thesis unfolding step using size b e by (simp add: within_def)
    next
      case ok: False
      have "m_partialSequence (codec ?d) \<noteq> []" using size(2) by (auto simp: codec_wf_def)
      moreover have "hd (m_partialSequence (codec ?d)) = ?b"
        using pend_hd [OF size(2)] c(1) False hd ne pend_Nil [of d] len size(1) b(3)
          hd_conv_nth [OF \<open>m_partialSequence (codec ?d) \<noteq> []\<close>] by (auto simp: hd_append)
      ultimately have "0 \<le> ?c" using decode_nonneg [of "m_partialSequence (codec ?d)" ?n] ok b(3) by simp
      then have "list_all (\<lambda>c. c \<le> 0xFF) [word_of_int ?c :: uchar]" using small_latin1 [of ?c] ok by simp
      moreover have "within e (length (destination d) + length (source d)) (emit [word_of_int ?c] (dropSequence ?n ?d))"
        using size b False e by (simp add: within_def codec_wf_def dropSequence_def partialSize_def emit_def)
      ultimately show ?thesis unfolding step using ok assms(3) size(1) by simp
    qed
  qed
qed

lemma decode8_within:
  assumes "codec_wf d" and "pend d = [] \<or> incomplete (pend d)" and "destination d = []"
    and "address d + length (source d) = e" and "stop = e - e mod wordSize w"
  shows "\<exists>up d'. decode8 (Suc (Suc n)) w stop flush stopOnError d = Some (up, d') \<and> latin1 d'
    \<and> settled e (partialSize d + length (source d)) d'
    \<and> (if up then within e (partialSize d' + length (source d)) d' else restful flush d')"
proof -
  let ?N = "length (source d)"
  have empty: "latin1 d" using assms(3) by (simp add: latin1_def)
  define s where "s = (if partialSize d \<noteq> 0 then handlePartialSequence8 flush d else (False, d))"
  obtain up h where h: "s = (up, h)" by (cases s)
  have inc: "incomplete (pend d)" if "partialSize d \<noteq> 0" using assms(2) pend_length [OF assms(1)] that by auto
  consider (up) up "partialSize d \<noteq> 0" "handlePartialSequence8 flush d = (True, h)" "destination h = []"
      "within e (partialSize h + ?N) h"
    | (kept) "\<not> up" "partialSize d \<noteq> 0" "partialSize h \<noteq> 0" "handlePartialSequence8 flush d = (False, h)"
      "settled e 0 h" "restful flush h" "latin1 h"
    | (used) "\<not> up" "partialSize h = 0" "within e ?N h" "latin1 h"
  proof (cases "partialSize d = 0")
    case True
    with h assms(1,3,4) empty used show thesis by (simp add: s_def within_def)
  next
    case False
    note ok = handlePartialSequence8_within [OF assms(1) inc [OF False] empty assms(4), of flush]
    have hh: "handlePartialSequence8 flush d = (up, h)" using h False by (simp add: s_def)
    show thesis using ok [unfolded hh prod.case assms(3)] hh False up kept used by (cases up) auto
  qed
  then show ?thesis
  proof cases
    case up
    then have "decode8 (Suc (Suc n)) w stop flush stopOnError d = Some (True, h)"
      by (intro decode8_up) (simp_all add: assms(3))
    moreover have "settled e (partialSize d + ?N) h" using up by (simp add: within_def settled_def)
    moreover have "latin1 h" using up by (simp add: latin1_def)
    ultimately show ?thesis using up by auto
  next
    case kept
    then have "decode8 (Suc (Suc n)) w stop flush stopOnError d = Some (False, h)" by (intro decode8_kept) simp_all
    with kept show ?thesis by (auto simp: settled_def)
  next
    case used
    obtain b l where l: "decodeLoop8 w stop stopOnError h = (b, l)" by (meson surj_pair)
    have "main_ok h" using used(2,3) by (simp add: main_ok_def within_def)
    from decodeLoop8_within [OF used(3) this used(4) assms(5), of stopOnError] have
      m: "within e ?N l" "latin1 l" "if b then main_ok l else partialSize l = 0 \<or> drained l" by (simp_all add: l)
    have fit: "settled e (partialSize d + ?N) l" "within e (partialSize l + ?N) l" using m(1) by (auto simp: within_def settled_def)
    have start: "(if partialSize d \<noteq> 0 then handlePartialSequence8 flush d else (False, d)) = (False, h)"
      using h used(1) by (simp add: s_def)
    note round = decode8_round [OF start used(2), of "Suc n" w stop stopOnError, unfolded l Let_def prod.case]
    show ?thesis
    proof (cases "\<not> b \<and> flush \<and> partialSize l \<noteq> 0")
      case False
      then have "decode8 (Suc (Suc n)) w stop flush stopOnError d = Some (b, l)" unfolding round by auto
      moreover have "\<not> b \<Longrightarrow> restful flush l"
        using m(3) False drained_restful [of l flush] by (cases "partialSize l = 0") (auto simp: restful_def)
      ultimately show ?thesis using fit m(2) by auto
    next
      case True
      then have "incomplete (pend l)" "source l = []" "codec_wf l"
        using m(3) drained_size [of l] by (auto simp: drained_def)
      then have "decode8 (Suc n) w stop flush stopOnError l = Some (True, l)"
        using True handle8_flush [of l] by (intro decode8_up) simp_all
      then have "decode8 (Suc (Suc n)) w stop flush stopOnError d = Some (True, l)" unfolding round using True by simp
      then show ?thesis using fit m(2) by auto
    qed
  qed
qed

section \<open>A call\<close>

definition startDecoding :: "TextCodecUTF8 \<Rightarrow> nat \<Rightarrow> byte list \<Rightarrow> bool \<Rightarrow> decoding" where
  "startDecoding c addr bytes saw = \<lparr>codec = c, address = addr, source = bytes, destination = [], sawError = saw\<rparr>"

lemma call_within:
  assumes "codec_ok c"
  shows "\<exists>up d'. decode8 2 w (alignedEnd w (startDecoding c addr bytes saw)) flush stopOnError (startDecoding c addr bytes saw)
      = Some (up, d') \<and> latin1 d' \<and> settled (addr + length bytes) (m_partialSequenceSize c + length bytes) d'
    \<and> (if up
       then \<exists>d''. decode16 2 w (alignedEnd w (startDecoding c addr bytes saw)) flush stopOnError d' = Some d''
         \<and> settled (addr + length bytes) (partialSize d' + length bytes) d'' \<and> (\<not> stopOnError \<longrightarrow> restful flush d'')
       else restful flush d')"
proof -
  let ?d = "startDecoding c addr bytes saw"
  have stop: "alignedEnd w ?d = (addr + length bytes) - (addr + length bytes) mod wordSize w"
    by (simp add: alignedEnd_def startDecoding_def Let_def)
  have d: "codec_wf ?d" "pend ?d = [] \<or> incomplete (pend ?d)" "destination ?d = []" "source ?d = bytes"
    "address ?d + length (source ?d) = addr + length bytes" "partialSize ?d = m_partialSequenceSize c"
    using assms by (auto simp: startDecoding_def codec_wf_def codec_ok_def partialSize_def pend_def pending_def)
  obtain up d' where d': "decode8 2 w (alignedEnd w ?d) flush stopOnError ?d = Some (up, d')" "latin1 d'"
    "settled (addr + length bytes) (m_partialSequenceSize c + length bytes) d'"
    "if up then within (addr + length bytes) (partialSize d' + length bytes) d' else restful flush d'"
    using decode8_within [OF d(1-3,5) stop, of 0 flush stopOnError] unfolding d(4,6) numeral_2_eq_2 by blast
  show ?thesis
  proof (cases up)
    case True
    with d'(4) decode16_within [OF _ stop, of "partialSize d' + length bytes" d' 0 flush stopOnError] d' show ?thesis
      by (auto simp: numeral_2_eq_2)
  qed (use d' in auto)
qed

text \<open>
  C13: \<^verbatim>\<open>decode\<close> stays inside its memory. For any bytes, with or without \<^verbatim>\<open>flush\<close> and \<^verbatim>\<open>stopOnError\<close>, the 8-bit
  part returns and has written at most the \<^verbatim>\<open>m_partialSequenceSize + length\<close> characters of its
  buffer; if it asks for 16-bit characters, the second part returns and has written at most
  the characters of the buffer allocated then. The source pointer never passes the end of the
  chunk and the array \<^verbatim>\<open>m_partialSequence\<close> is never written past its four bytes.
\<close>

theorem decode_in_bounds:
  assumes "codec_ok c" and "d = startDecoding c addr bytes saw"
  shows "\<exists>up d'. decode8 2 w (alignedEnd w d) flush stopOnError d = Some (up, d')
    \<and> length (destination d') \<le> m_partialSequenceSize c + length bytes
    \<and> length (m_partialSequence (codec d')) = 4 \<and> address d' + length (source d') = addr + length bytes
    \<and> (up \<longrightarrow> (\<exists>d''. decode16 2 w (alignedEnd w d) flush stopOnError d' = Some d''
         \<and> length (destination d'') \<le> m_partialSequenceSize (codec d') + length bytes
         \<and> length (m_partialSequence (codec d'')) = 4 \<and> address d'' + length (source d'') = addr + length bytes))"
  using call_within [OF assms(1), of w addr bytes saw flush stopOnError] unfolding assms(2)
  by (fastforce simp: settled_def codec_wf_def partialSize_def)

theorem decode_in_bounds_witness:
  "\<exists>up d'. decode8 2 Word8 (alignedEnd Word8 (startDecoding \<lparr>m_partialSequenceSize = 1, m_partialSequence = [0xF0, 0, 0, 0]\<rparr>
        6 [0xC2, 0xA9, 0x41] False)) True True
        (startDecoding \<lparr>m_partialSequenceSize = 1, m_partialSequence = [0xF0, 0, 0, 0]\<rparr> 6 [0xC2, 0xA9, 0x41] False)
        = Some (up, d')
    \<and> length (destination d') \<le> 4"
proof -
  have "codec_ok \<lparr>m_partialSequenceSize = 1, m_partialSequence = [0xF0, 0, 0, 0]\<rparr>" by code_simp
  from decode_in_bounds [OF this refl, of Word8 6 "[0xC2, 0xA9, 0x41]" False True True] show ?thesis by auto
qed

text \<open>
  C14: the results of \<^verbatim>\<open>decode\<close> are well typed. Every call without \<^verbatim>\<open>stopOnError\<close> on a codec in a proper
  state returns a string whose characters fit its width, and leaves the codec in a
  proper state: fewer than four bytes held back, which are the start of an incomplete
  sequence, and none at all with \<^verbatim>\<open>flush\<close>.
\<close>

theorem decode_well_typed:
  assumes "codec_ok c"
  shows "\<exists>str e c'. decode w addr bytes flush False saw c = Some (str, e, c') \<and> string_ok str \<and> codec_ok c'
    \<and> \<not> (flush \<and> pending c' \<noteq> [])"
proof -
  let ?d = "startDecoding c addr bytes saw"
  have ok: "codec_ok (codec x) \<and> \<not> (flush \<and> pending (codec x) \<noteq> [])" if "settled n N x" "restful flush x" for x n N
    using that pend_Nil [of x]
    by (auto simp: codec_ok_def restful_def settled_def codec_wf_def pending_def pend_def partialSize_def)
  obtain up d' where d': "decode8 2 w (alignedEnd w ?d) flush False ?d = Some (up, d')" "latin1 d'"
    "settled (addr + length bytes) (m_partialSequenceSize c + length bytes) d'"
    "if up then \<exists>d''. decode16 2 w (alignedEnd w ?d) flush False d' = Some d''
       \<and> settled (addr + length bytes) (partialSize d' + length bytes) d'' \<and> restful flush d''
     else restful flush d'"
    using call_within [OF assms, of w addr bytes saw flush False] by (simp only: not_False_eq_True simp_thms) blast
  note call = decode_def [of w addr bytes flush False saw c, folded startDecoding_def, unfolded Let_def d'(1) option.case prod.case]
  show ?thesis
  proof (cases up)
    case True
    with d'(4) obtain d'' where d'': "decode16 2 w (alignedEnd w ?d) flush False d' = Some d''"
      "settled (addr + length bytes) (partialSize d' + length bytes) d''" "restful flush d''" by auto
    with ok [OF d''(2,3)] True show ?thesis unfolding call by (auto simp: string_ok_def)
  next
    case False
    with d'(2,4) ok [OF d'(3)] show ?thesis unfolding call by (auto simp: string_ok_def latin1_def list_all_iff)
  qed
qed

theorem decode_well_typed_witness:
  "\<exists>str e c'. decode Word4 1 [0xC2, 0xA9, 0x41] False False False \<lparr>m_partialSequenceSize = 1, m_partialSequence = [0xF0, 0, 0, 0]\<rparr>
      = Some (str, e, c') \<and> string_ok str \<and> codec_ok c' \<and> \<not> (False \<and> pending c' \<noteq> [])"
  by (rule decode_well_typed) code_simp

end
