(* ===== verification/Tokenizer_Progress.thy ===== *)
theory Tokenizer_Progress
  imports Tokenizer_Session
begin

text \<open>
  Progress of the tokenizer: every token that is returned decreases a measure, so a client's loop
  over \<open>nextToken\<close> ends. On a source that is complete (closed, with the end-of-file
  marker as its last character) the marker is consumed by nothing but the end-of-file
  token, and no call comes back without a token except where a keyword is looked for with too few
  characters left. The flag \<open>C\<close> of the lemmas says that the source is complete.
\<close>

section \<open>Complete sources\<close>

definition complete :: "SegmentedString \<Rightarrow> bool" where
  "complete s \<longleftrightarrow> source_ok s \<and> m_closed s \<and> toStringSS s \<noteq> [] \<and> last (toStringSS s) = kEndOfFileMarker"

definition here :: "bool \<Rightarrow> uchar \<Rightarrow> SegmentedString \<Rightarrow> bool" where
  "here C c s \<longleftrightarrow>
     source_ok s \<and> \<not> isEmpty s \<and> (c = kEndOfFileMarker \<longrightarrow> length (toStringSS s) = 1) \<and>
     (C \<longrightarrow> complete s \<and> (length (toStringSS s) = 1 \<longrightarrow> c = kEndOfFileMarker))"

lemma complete_nonempty: "complete s \<Longrightarrow> \<not> isEmpty s"
  by (simp add: complete_def src.atEnd_iff)

lemma complete_moves:
  assumes "complete s" and "moves n s t" and "n < length (toStringSS s)"
  shows "complete t"
  using assms by (auto simp: complete_def moves_def)

lemma inner_moves:
  assumes "complete s" and "length (toStringSS s) \<noteq> 1"
  shows "complete (advanceAndUpdateLineNumber s)" "complete (advance s)"
    "length (toStringSS s) = Suc (length (toStringSS (advanceAndUpdateLineNumber s)))"
    "length (toStringSS s) = Suc (length (toStringSS (advance s)))"
proof -
  note c = assms
  then have so: "source_ok s" and len: "1 < length (toStringSS s)"
    by (auto simp: complete_def) (metis One_nat_def Suc_lessI length_greater_0_conv)
  note ne = complete_nonempty [OF c(1)]
  show "complete (advanceAndUpdateLineNumber s)" "complete (advance s)"
    using complete_moves [OF c(1) _ len] moves_advanceLine [OF so ne] moves_advance [OF so ne] by auto
  show "length (toStringSS s) = Suc (length (toStringSS (advanceAndUpdateLineNumber s)))"
    "length (toStringSS s) = Suc (length (toStringSS (advance s)))"
    by (rule lsrc.length_pending_forward [OF so ne], rule src.length_pending_forward [OF so ne])
qed

lemma here_moves:
  assumes "here C c s"
  shows "length (toStringSS s) = Suc (length (toStringSS (advanceAndUpdateLineNumber s)))"
    "length (toStringSS s) = Suc (length (toStringSS (advance s)))"
    "source_ok (advanceAndUpdateLineNumber s)" "source_ok (advance s)"
    "c \<noteq> kEndOfFileMarker \<Longrightarrow> C \<Longrightarrow> complete (advanceAndUpdateLineNumber s)"
    "c \<noteq> kEndOfFileMarker \<Longrightarrow> C \<Longrightarrow> complete (advance s)"
proof -
  have so: "source_ok s" "\<not> isEmpty s" using assms by (auto simp: here_def)
  show "length (toStringSS s) = Suc (length (toStringSS (advanceAndUpdateLineNumber s)))"
    "length (toStringSS s) = Suc (length (toStringSS (advance s)))"
    by (rule lsrc.length_pending_forward [OF so], rule src.length_pending_forward [OF so])
  show "source_ok (advanceAndUpdateLineNumber s)" "source_ok (advance s)"
    using moves_advanceLine [OF so] moves_advance [OF so] by (simp_all add: moves_def)
  assume "c \<noteq> kEndOfFileMarker" C
  then have "complete s" "length (toStringSS s) \<noteq> 1" using assms by (auto simp: here_def)
  from inner_moves [OF this] show "complete (advanceAndUpdateLineNumber s)" "complete (advance s)" by auto
qed

lemma nextInput_complete:
  assumes "cs \<noteq> []" and "last cs = kEndOfFileMarker"
  shows "\<exists>skip' rest c. nextInput k True skip cs = (skip', rest, Some c) \<and> rest \<noteq> [] \<and> last rest = kEndOfFileMarker
    \<and> (length rest = 1 \<longrightarrow> c = kEndOfFileMarker)"
  using assms
proof (induction k True skip cs rule: nextInput.induct)
  case (2 k skip c cs)
  then show ?case by (cases "cs = []") auto
qed simp

lemma nextInput_marker: "nextInput k cl skip cs = (skip', rest, Some kEndOfFileMarker) \<Longrightarrow> length rest = 1"
  by (induction k cl skip cs rule: nextInput.induct) (auto split: if_splits)

lemma peek_here:
  assumes "source_ok s" and "C \<longrightarrow> complete s"
  shows "\<exists>ok p' s'. peek nsk sk p s = Some (ok, p', s') \<and> source_ok s' \<and> length (toStringSS s') \<le> length (toStringSS s)
    \<and> (ok \<longrightarrow> here C (m_nextInputCharacter p') s') \<and> (C \<longrightarrow> ok)"
proof -
  obtain ok q t where pk: "peek nsk sk p s = Some (ok, q, t)"
    and mc: "meets_contract (nsk \<or> \<not> sk) (m_skipNextNewLine p) s (ok, q, t)"
    using peek_ok [OF assms(1), of nsk sk p] by (metis prod_cases3)
  obtain skip' rest x where n: "nextInput (nsk \<or> \<not> sk) (m_closed s) (m_skipNextNewLine p) (toStringSS s) = (skip', rest, x)"
    by (metis prod_cases3)
  note d = nextInput_delivered [OF n]
  have t: "source_ok t" "toStringSS t = rest" "ok = (x \<noteq> None)" "ok \<Longrightarrow> x = Some (m_nextInputCharacter q)"
    "m_closed t = m_closed s"
    using mc n by (auto simp: meets_contract_def)
  have "x = Some c \<Longrightarrow> c = kEndOfFileMarker \<Longrightarrow> length rest = 1" for c using nextInput_marker n by blast
  moreover have "x \<noteq> None \<and> rest \<noteq> [] \<and> last rest = kEndOfFileMarker \<and> (length rest = 1 \<longrightarrow> x = Some kEndOfFileMarker) \<and> m_closed s" if C
  proof -
    have "m_closed s" "toStringSS s \<noteq> []" "last (toStringSS s) = kEndOfFileMarker"
      using assms(2) that by (auto simp: complete_def)
    with nextInput_complete [OF this(2,3), of "nsk \<or> \<not> sk" "m_skipNextNewLine p"] n show ?thesis by auto
  qed
  moreover have "length rest \<le> length (toStringSS s)" using d by (auto simp: suffix_length_le)
  moreover have "ok \<Longrightarrow> \<not> isEmpty t" using d t by (auto simp: src.atEnd_iff)
  ultimately show ?thesis using pk t by (auto simp: here_def complete_def)
qed

section \<open>Progress of a block\<close>

text \<open>
  The measure between two calls. A complete end tag that waits behind a character token is
  one more token to come.
\<close>

definition restRank :: "HTMLTokenizer \<Rightarrow> SegmentedString \<Rightarrow> nat" where
  "restRank t s = 4 * length (toStringSS s) + stateRank (m_state t)
     + (if m_state t = DataState \<and> m_bufferedEndTagName t \<noteq> [] then 1 else 0)"

definition waitsForKeyword :: "HTMLTokenizer \<Rightarrow> SegmentedString \<Rightarrow> bool" where
  "waitsForKeyword t s \<longleftrightarrow>
     m_state t \<in> {MarkupDeclarationOpenState, AfterDOCTYPENameState} \<and> length (toStringSS s) < 7"

text \<open>\<open>h\<close> says whether the block was entered with a character token, which may be returned at once.\<close>

definition live :: "bool \<Rightarrow> bool \<Rightarrow> nat \<Rightarrow> outcome \<Rightarrow> bool" where
  "live C h m r \<longleftrightarrow>
     (case r of
        OutOfFuel \<Rightarrow> True
      | Goto st c t s \<Rightarrow> here C c s
      | Return b t s \<Rightarrow>
          if b then m_type (m_token t) = EndOfFile \<and> toStringSS s = [] \<and> m_bufferedEndTagName t = [] \<or>
            (C \<longrightarrow> complete s) \<and> (restRank t s < m \<or> h \<and> restRank t s \<le> m) \<and>
            (m_type (m_token t) = EndTag \<longrightarrow> m_state t = DataState) \<and>
            (m_type (m_token t) = StartTag \<longrightarrow> m_state t = DataState \<and> m_bufferedEndTagName t = [] \<and> restRank t s + 2 \<le> m)
          else C \<longrightarrow> complete s \<and> waitsForKeyword t s)"

lemma live_if: "(b \<Longrightarrow> live C h m x) \<Longrightarrow> (\<not> b \<Longrightarrow> live C h m y) \<Longrightarrow> live C h m (if b then x else y)"
  by simp

lemma live_peeked:
  assumes "source_ok s" and "C \<longrightarrow> complete s" and "4 * length (toStringSS s) + stateRank st < m"
    and "st = DataState \<longrightarrow> m_bufferedEndTagName t = []"
  shows "live C h m
    (case peek nsk sk p s of
       None \<Rightarrow> OutOfFuel
     | Some (ok, p, s) \<Rightarrow>
         let t = t\<lparr>m_preprocessor := p\<rparr> in
         if \<not> ok then Return (haveBufferedCharacterToken t) (t\<lparr>m_state := st\<rparr>) s
         else Goto st (m_nextInputCharacter p) t s)"
  using peek_here [OF assms(1,2), of nsk sk p] assms(3,4)
  by (auto simp: live_def restRank_def haveBufferedCharacterToken_def Let_def)

lemma live_SWITCH:
  assumes "source_ok s" and "C \<longrightarrow> complete s" and "4 * length (toStringSS s) + stateRank st < m"
    and "st = DataState \<longrightarrow> m_bufferedEndTagName t = []"
  shows "live C h m (SWITCH_TO st t s)"
  unfolding SWITCH_TO_def by (rule live_peeked [OF assms])

lemma live_ADVANCE:
  assumes "here C c s" and "c \<noteq> kEndOfFileMarker" and "4 * length (toStringSS s) \<le> m"
    and "st = DataState \<longrightarrow> m_bufferedEndTagName t = []"
  shows "live C h m (ADVANCE_TO st t s)"
proof -
  note m = here_moves [OF assms(1)]
  have "4 * length (toStringSS (advanceAndUpdateLineNumber s)) + stateRank st < m"
    using m(1) assms(3) stateRank_le [of st] by simp
  from live_peeked [OF m(3) _ this assms(4)] m(5) [OF assms(2)] show ?thesis
    unfolding ADVANCE_TO_def advancePreprocessor_def by blast
qed

lemma live_RECONSUME: "here C c s \<Longrightarrow> live C h m (RECONSUME_IN st c t s)"
  by (simp add: live_def RECONSUME_IN_def)

lemma live_resume:
  "here C c s \<Longrightarrow> c \<noteq> kEndOfFileMarker \<Longrightarrow> m_bufferedEndTagName t = [] \<Longrightarrow> 4 * length (toStringSS s) \<le> m \<Longrightarrow>
   live C h m (emitAndResumeInDataState t s)"
  using here_moves [of C c s]
  by (auto simp: live_def emitAndResumeInDataState_def restRank_def saveEndTagNameIfNeeded_def assertTk_def Let_def)

lemma live_reconsumeData:
  "here C c s \<Longrightarrow> m_bufferedEndTagName t = [] \<Longrightarrow> 4 * length (toStringSS s) + (if m_type (m_token t) = StartTag then 2 else 1) \<le> m \<Longrightarrow>
   live C h m (emitAndReconsumeInDataState t s)"
  by (auto simp: live_def emitAndReconsumeInDataState_def restRank_def here_def saveEndTagNameIfNeeded_def assertTk_def Let_def)

lemma live_data:
  assumes "here C c s" and "m_bufferedEndTagName t = []" and "haveBufferedCharacterToken t \<longrightarrow> h"
    and "4 * length (toStringSS s) \<le> m"
  shows "live C h m (onDataState c t s)"
proof -
  have cs: "C \<longrightarrow> complete s" using assms(1) by (simp add: here_def)
  have "c = kEndOfFileMarker \<Longrightarrow> toStringSS (advance s) = []" using assms(1) here_moves(2) [OF assms(1)] by (auto simp: here_def)
  with cs assms show ?thesis
    unfolding onDataState_def
    by (intro live_if live_ADVANCE [of C c])
      (auto simp: live_def RETURN_IN_CURRENT_STATE_def emitEndOfFile_def restRank_def token_ops Let_def)
qed

text \<open>
  Hypotheses on the parameters: the table is in order and its names have no null character,
  and ICU's case folding leaves the null character alone.
\<close>

definition env_complete :: "html_env \<Rightarrow> bool" where
  "env_complete env \<longleftrightarrow>
     env_ok env \<and> table_ok (entityTable env) \<and> u_foldCase env 0 = 0 \<and>
     (\<forall>e\<in>set (staticEntityTable (entityTable env)). 0 \<notin> set (entity e))"

lemma startsWith_last:
  assumes "startsWith f (WString is8 cs) lit b" and "length cs = length lit" and "cs \<noteq> []"
  shows "b \<and> last cs = last lit \<or> (if is8 then latin1CaseFold (last cs) else f (last cs)) = latin1CaseFold (last lit)"
proof -
  have lit: "lit \<noteq> []" using assms(2,3) by auto
  show ?thesis
  proof (cases b)
    case False
    with assms have "list_all2 (\<lambda>x y. (if is8 then latin1CaseFold x else f x) = latin1CaseFold y) cs lit"
      by (simp add: startsWith_def equalIgnoringCase_def)
    from list_all2_nthD [OF this, of "length cs - 1"] assms(2,3) lit show ?thesis
      by (auto simp: last_conv_nth split: if_splits)
  qed (use assms in \<open>simp add: startsWith_def\<close>)
qed

lemma live_keyword:
  assumes c: "here C c s" and lit: "latin1CaseFold (last lit) \<noteq> 0" "last lit \<noteq> 0" "length lit \<le> 7" "lit \<noteq> []"
    and f: "C \<longrightarrow> f 0 = 0"
    and yes: "\<And>s'. source_ok s' \<Longrightarrow> (C \<longrightarrow> complete s') \<Longrightarrow> length (toStringSS s') < length (toStringSS s) \<Longrightarrow>
      live C h m (matched s')"
    and short: "length (toStringSS s) < 7 \<Longrightarrow> live C h m (short s)"
    and no: "\<And>s'. here C c s' \<Longrightarrow> length (toStringSS s') = length (toStringSS s) \<Longrightarrow> live C h m (other s')"
  shows "live C h m
    (case advancePast f lit b s of
       (DidMatch, s) \<Rightarrow> matched s | (NotEnoughCharacters, s) \<Rightarrow> short s | (DidNotMatch, s) \<Rightarrow> other s)"
proof -
  have so: "source_ok s" and ne: "toStringSS s \<noteq> []" using c by (auto simp: here_def src.atEnd_iff)
  obtain r s' where r: "advancePast f lit b s = (r, s')" by (metis surj_pair)
  show ?thesis
  proof (rule advancePast_cases [OF so r])
    assume "r = NotEnoughCharacters" "length (toStringSS s) < length lit" "s' = s"
    with r short lit(3) show ?thesis by simp
  next
    assume n: "r = DidNotMatch" "source_ok s'" "toStringSS s' = toStringSS s" "m_closed s' = m_closed s"
    have "isEmpty s' = isEmpty s" using src.atEnd_iff [OF n(2)] src.atEnd_iff [OF so] n(3) by metis
    with c n(2-4) have "here C c s'" unfolding here_def complete_def by metis
    with r no [of s'] n(1,3) show ?thesis by simp
  next
    fix is8
    assume y: "r = DidMatch" "length lit \<le> length (toStringSS s)"
      "startsWith f (WString is8 (take (length lit) (toStringSS s))) lit b" "source_ok s'"
      "toStringSS s' = drop (length lit) (toStringSS s)" "m_closed s' = m_closed s"
    have "length (toStringSS s) \<noteq> length lit" "m_closed s" "last (toStringSS s) = 0" if C
    proof -
      show s: "m_closed s" "last (toStringSS s) = 0" using c that by (auto simp: here_def complete_def)
      show "length (toStringSS s) \<noteq> length lit"
      proof
        assume eq: "length (toStringSS s) = length lit"
        then have "take (length lit) (toStringSS s) = toStringSS s" by simp
        from startsWith_last [OF y(3) [unfolded this] eq ne] s(2) lit(1,2) f that show False
          by (simp add: latin1CaseFold_def split: if_splits)
      qed
    qed
    then have "C \<longrightarrow> length lit < length (toStringSS s) \<and> m_closed s \<and> last (toStringSS s) = 0"
      using y(2) by (auto simp: le_less)
    then have "C \<longrightarrow> complete s'" using y(4-6) by (auto simp: complete_def)
    moreover have "length (toStringSS s') < length (toStringSS s)" using y(2,5) lit(4) by (cases lit) auto
    ultimately show ?thesis using y(1,4) r yes by simp
  qed
qed

lemma named_complete:
  assumes "complete s" and "table_ok tbl" and "\<forall>e\<in>set (staticEntityTable tbl). 0 \<notin> set (entity e)"
  shows "\<exists>r. consumeNamedEntity tbl a cc s = Some r \<and> \<not> notEnoughCharacters r \<and> complete (afterSource r)"
proof -
  have so: "source_ok s" using assms(1) by (simp add: complete_def)
  define P where "P w es \<longleftrightarrow> search_at tbl w es \<and> 0 \<notin> set w" for w es
  have step: "P (w @ [c]) (advanceSearch tbl c es)" if "P w es" "isEntityPrefix (advanceSearch tbl c es)" for w c es
  proof -
    have at: "search_at tbl w es" using that(1) by (simp add: P_def)
    from that(2) advanceSearch_step(1) [OF assms(2) at] have ne: "startingWith tbl (w @ [c]) \<noteq> {}"
      by (auto simp: failSearch_def isEntityPrefix_def)
    then obtain i where "i < tableSize tbl" "prefix (w @ [c]) (nameAt tbl i)" by (auto simp: startingWith_def)
    moreover from this have "0 \<notin> set (nameAt tbl i)"
      using assms(3) by (auto simp: nameAt_def entryAt_def tableSize_def)
    ultimately have "0 \<notin> set (w @ [c])" by (auto simp: prefix_def)
    with advanceSearch_step(2) [OF assms(2) at ne] show ?thesis by (simp add: P_def)
  qed
  obtain m cc' es u where l:
    "searchLoop (Suc (nat (lengthSS s))) tbl [] cc (newEntitySearch tbl) s = Some (take m (toStringSS s), cc', es, u)"
    "moves m s u" "search_len tbl m es" "isEmpty u \<longrightarrow> P (take m (toStringSS s)) es" "\<not> isEmpty u \<Longrightarrow> cc' = currentChar u"
    using searchLoop_start [OF so, of P tbl cc] step search_at_new [OF assms(2)] by (auto simp: P_def)
  have ne: "\<not> isEmpty u"
  proof
    assume e: "isEmpty u"
    then have "m = length (toStringSS s)" using l(2) moves_isEmpty [OF l(2)] by (simp add: moves_def)
    with l(4) e have "0 \<notin> set (toStringSS s)" by (simp add: P_def)
    with assms(1) show False by (auto simp: complete_def dest: last_in_set)
  qed
  then have m: "m < length (toStringSS s)" using l(2) moves_isEmpty [OF l(2)] by (auto simp: moves_def)
  note zero = complete_moves [OF assms(1) _ order.strict_trans1 [OF le0 m]]
  show ?thesis
  proof (rule consumeNamedEntity_cases [OF l(1-3,5)], assumption)
    fix i v
    assume "m_mostRecentMatch es = Some i"
    then have "entityLength (entryAt tbl i) < length (toStringSS s)" using l(3) m by (auto simp: search_len_def)
    moreover assume "consumeNamedEntity tbl a cc s = Some (consumedAs (decodeEntity (entryAt tbl i)) v)"
      "moves (entityLength (entryAt tbl i)) s v"
    ultimately show ?thesis using complete_moves [OF assms(1)] by simp
  qed (use ne zero in auto)
qed

lemma digits_nonzero: "\<not> isASCIIDigit 0" "\<not> isASCIIHexDigit 0" "\<not> isASCIIAlpha 0"
  by code_simp+

lemma crLoop_complete:
  assumes "complete s" and "table_ok tbl" and "\<forall>e\<in>set (staticEntityTable tbl). 0 \<notin> set (entity e)"
    and "moves n s t" and "complete t" and "cr_ok st (take n (toStringSS s)) result overflow"
    and "crLoop fuel tbl a st result overflow (take n (toStringSS s)) t = Some r"
  shows "\<not> notEnoughCharacters r \<and> complete (afterSource r)"
  using assms(4-7)
proof (induction fuel arbitrary: n t st result overflow)
  case (Suc fuel)
  let ?c = "currentChar t" and ?w = "take n (toStringSS s)"
  note mv = Suc.prems(1) and ct = Suc.prems(2)
  have ne: "\<not> isEmpty t" by (rule complete_nonempty [OF ct])
  have pos: "0 < length (toStringSS s)" using assms(1) by (simp add: complete_def)
  have adv: "complete (advance t)" if "?c \<noteq> 0"
  proof (rule inner_moves(2) [OF ct])
    have "?c = hd (toStringSS t)" using ct ne by (simp add: complete_def src.current_hd)
    with that ct show "length (toStringSS t) \<noteq> 1" by (auto simp: complete_def length_Suc_conv)
  qed
  have undo: "complete v" if "moves 0 s v" for v by (rule complete_moves [OF assms(1) that pos])
  have number: "\<not> notEnoughCharacters r \<and> complete (afterSource r)"
    if "endOfNumber ?c x y ?w t = CrReturn (Some r)" for x y r
    using that ct adv undo [OF moves_unread [OF mv]] by (auto simp: endOfNumber_def acceptMalformed_def split: if_splits)
  have hash: "complete (pushBackSS (segmentedStringOf (WString True cs)) t)" if "?w = cs" for cs
    using that undo [OF moves_pushBack [OF mv]] by simp
  obtain x where step: "crStep tbl a st ?c result overflow ?w t = x" by blast
  show ?case
  proof (cases x)
    case (CrReturn y)
    with Suc.prems(4) step ne have y: "crStep tbl a st ?c result overflow ?w t = CrReturn (Some r)" by simp
    obtain r' where named: "consumeNamedEntity tbl a ?c t = Some r'" "\<not> notEnoughCharacters r'" "complete (afterSource r')"
      using named_complete [OF ct assms(2,3)] by blast
    show ?thesis
      using y number ct named Suc.prems(3)
      by (cases st) (auto simp: cr_ok_def ascii_def decimalLabel_def hexLabel_def Let_def intro: hash split: if_splits)
  next
    case (CrBreak st' result' overflow')
    with step have y: "crStep tbl a st ?c result overflow ?w t = CrBreak st' result' overflow'" by simp
    then have "?c \<noteq> 0"
      using digits_nonzero
      by (cases st) (auto simp: decimalLabel_def hexLabel_def endOfNumber_def Let_def split: if_splits)
    moreover have "cr_ok st' (take (Suc n) (toStringSS s)) result' overflow'"
      using crStep_ok [OF mv ne Suc.prems(3), of tbl ?c a] y moves_current [OF mv ne] by simp
    moreover have "crLoop fuel tbl a st' result' overflow' (take (Suc n) (toStringSS s)) (advance t) = Some r"
      using Suc.prems(4) y ne moves_current [OF mv ne] by simp
    ultimately show ?thesis using Suc.IH [OF moves_step [OF mv ne]] adv by blast
  qed
qed simp

lemma reference_complete:
  assumes "complete s" and "env_complete env"
  shows "\<exists>r. consumeHTMLEntity (entityTable env) a s = Some r \<and> \<not> notEnoughCharacters r \<and> complete (afterSource r)"
proof -
  have so: "source_ok s" using assms(1) by (simp add: complete_def)
  obtain r where r: "consumeHTMLEntity (entityTable env) a s = Some r" using consumeHTMLEntity_ok [OF so] by blast
  have "cr_ok Initial (take 0 (toStringSS s)) 0 False" using accumulates_0 by (auto simp: cr_ok_def)
  moreover have "crLoop (Suc (nat (lengthSS s))) (entityTable env) a Initial 0 False (take 0 (toStringSS s)) s = Some r"
    using r unfolding consumeHTMLEntity_def take_0 .
  moreover have "table_ok (entityTable env)" "\<forall>e\<in>set (staticEntityTable (entityTable env)). 0 \<notin> set (entity e)"
    using assms(2) by (simp_all add: env_complete_def)
  ultimately show ?thesis using crLoop_complete [OF assms(1) _ _ moves_refl [OF so] assms(1)] r by blast
qed

section \<open>The blocks\<close>

lemma punctuation_nonzero:
  "isTokenizerWhitespace c \<Longrightarrow> c \<noteq> 0" "isASCIIAlpha c \<Longrightarrow> c \<noteq> 0"
  "isASCIIAlphaCaselessEqual c 0x64 \<Longrightarrow> c \<noteq> 0" "isASCIIAlphaCaselessEqual c 0x70 \<Longrightarrow> c \<noteq> 0"
  "isASCIIAlphaCaselessEqual c 0x73 \<Longrightarrow> c \<noteq> 0"
  using digits_nonzero by (auto simp: isTokenizerWhitespace_def isASCIIAlphaCaselessEqual_def toASCIILowerUnchecked_def)

lemma live_short:
  "(C \<longrightarrow> complete s) \<Longrightarrow> length (toStringSS s) < 7 \<Longrightarrow> st \<in> {MarkupDeclarationOpenState, AfterDOCTYPENameState} \<Longrightarrow>
   \<not> haveBufferedCharacterToken t \<Longrightarrow> live C h m (RETURN_IN_CURRENT_STATE st (haveBufferedCharacterToken t) t s)"
  by (simp add: live_def RETURN_IN_CURRENT_STATE_def waitsForKeyword_def)

lemma keywords_fold:
  "latin1CaseFold (last (ascii ''--'')) \<noteq> 0" "latin1CaseFold (last (ascii ''doctype'')) \<noteq> 0"
  "latin1CaseFold (last (ascii ''[CDATA['')) \<noteq> 0" "latin1CaseFold (last (ascii ''public'')) \<noteq> 0"
  "latin1CaseFold (last (ascii ''system'')) \<noteq> 0"
  "last (ascii ''--'') \<noteq> 0" "last (ascii ''doctype'') \<noteq> 0" "last (ascii ''[CDATA['') \<noteq> 0" "last (ascii ''public'') \<noteq> 0"
  "last (ascii ''system'') \<noteq> 0"
  "length (ascii ''--'') \<le> 7" "length (ascii ''doctype'') \<le> 7" "length (ascii ''[CDATA['') \<le> 7"
  "length (ascii ''public'') \<le> 7" "length (ascii ''system'') \<le> 7"
  by code_simp+

lemma live_comment_states:
  assumes "here C c s" and "at_state D E st c t s" and "kind st = CommentK"
  shows "live C h (4 * length (toStringSS s) + stateRank st) (stepState st env c t s)"
proof -
  have "st \<noteq> DataState" using assms(3) by auto
  note a = at_stateE [OF assms(2) this]
  have k: "m_bufferedEndTagName t = []" "m_type (m_token t) = Comment" using a(6) assms(3) by (auto simp: kind_ok_def)
  note intros = live_if live_ADVANCE [OF assms(1)] live_RECONSUME [OF assms(1)] live_resume [OF assms(1)]
    live_reconsumeData [OF assms(1)]
  show ?thesis
    using assms(3)
    by (cases st; simp only: kind.simps token_kind.distinct stepState.simps comment_blocks)
      (intro intros; simp add: k punctuation_nonzero token_ops)+
qed

lemma live_tag_states:
  assumes "here C c s" and "at_state D E st c t s" and "kind st = TagK"
  shows "live C h (4 * length (toStringSS s) + stateRank st) (stepState st env c t s)"
proof -
  have "st \<noteq> DataState" using assms(3) by auto
  note a = at_stateE [OF assms(2) this]
  have k: "m_bufferedEndTagName t = []" using a(6) assms(3) by (auto simp: kind_ok_def)
  note intros = live_if live_ADVANCE [OF assms(1)] live_RECONSUME [OF assms(1)] live_resume [OF assms(1)]
    live_reconsumeData [OF assms(1)]
  show ?thesis
    using assms(3)
    by (cases st; simp only: kind.simps token_kind.distinct stepState.simps tag_blocks Let_def)
      (intro intros; simp add: k punctuation_nonzero withToken_def)+
qed

lemma live_attribute_states:
  assumes "here C c s" and "at_state D E st c t s" and "kind st = AttrK"
  shows "live C h (4 * length (toStringSS s) + stateRank st) (stepState st env c t s)"
proof -
  have "st \<noteq> DataState" using assms(3) by auto
  note a = at_stateE [OF assms(2) this]
  have k: "m_bufferedEndTagName t = []" using a(6) assms(3) by (auto simp: kind_ok_def)
  note intros = live_if live_ADVANCE [OF assms(1)] live_RECONSUME [OF assms(1)] live_resume [OF assms(1)]
    live_reconsumeData [OF assms(1)]
  show ?thesis
    using assms(3)
    by (cases st; simp only: kind.simps token_kind.distinct stepState.simps tag_blocks Let_def)
      (intro intros; simp add: k punctuation_nonzero withToken_def)+
qed

lemma live_text_states:
  assumes "here C c s" and "at_state D E st c t s" and "kind st = TextK"
    and "st \<notin> {DataState, CharacterReferenceInDataState, CharacterReferenceInRCDATAState}"
  shows "live C h (4 * length (toStringSS s) + stateRank st) (stepState st env c t s)"
proof -
  have "st \<noteq> DataState" using assms(3,4) by auto
  note a = at_stateE [OF assms(2) this]
  have k: "m_bufferedEndTagName t = []" using a(6) assms(3) by (auto simp: kind_ok_def)
  note intros = live_if live_ADVANCE [OF assms(1)] live_RECONSUME [OF assms(1)] live_resume [OF assms(1)]
    live_reconsumeData [OF assms(1)]
  show ?thesis
    using assms(3,4)
    by (cases st; simp only: kind.simps token_kind.distinct insert_iff empty_iff simp_thms stepState.simps text_blocks Let_def)
      (intro intros; simp add: k punctuation_nonzero delimiter_ascii withToken_def)+
qed

lemma live_doctype_states:
  assumes "here C c s" and "at_state D E st c t s" and "kind st \<in> {DoctypeK, PublicK, SystemK}" and "C \<longrightarrow> env_complete env"
  shows "live C h (4 * length (toStringSS s) + stateRank st) (stepState st env c t s)"
proof -
  have "st \<noteq> DataState" using assms(3) by auto
  note a = at_stateE [OF assms(2) this]
  have k: "m_bufferedEndTagName t = []" "m_type (m_token t) = DOCTYPE" "\<not> haveBufferedCharacterToken t"
    using a(6) assms(3) by (auto simp: kind_ok_def haveBufferedCharacterToken_def)
  have f: "C \<longrightarrow> u_foldCase env 0 = 0" using assms(4) by (simp add: env_complete_def)
  have c: "C \<longrightarrow> complete s" using assms(1) by (simp add: here_def)
  note intros = live_if live_ADVANCE [OF assms(1)] live_RECONSUME [OF assms(1)] live_resume [OF assms(1)]
    live_reconsumeData [OF assms(1)] live_keyword [where f = "u_foldCase env" and C = C, OF assms(1) _ _ _ _ f] live_SWITCH live_short
  show ?thesis
    using assms(3)
    by (cases st; simp only: kind.simps token_kind.distinct insert_iff empty_iff simp_thms stepState.simps doctype_blocks)
      (intro intros; (simp add: k c punctuation_nonzero token_ops keywords_fold)?;
       (rule live_ADVANCE, assumption; simp add: punctuation_nonzero)?)+
qed

lemma live_fresh_states:
  assumes "here C c s" and "at_state D E st c t s" and "kind st = FreshK" and "C \<longrightarrow> env_complete env"
  shows "live C h (4 * length (toStringSS s) + stateRank st) (stepState st env c t s)"
proof -
  have "st \<noteq> DataState" using assms(3) by auto
  note a = at_stateE [OF assms(2) this]
  have k: "m_bufferedEndTagName t = []" "m_type (m_token t) = Uninitialized" "\<not> haveBufferedCharacterToken t"
    using a(6) assms(3) by (auto simp: kind_ok_def haveBufferedCharacterToken_def)
  have f: "C \<longrightarrow> u_foldCase env 0 = 0" using assms(4) by (simp add: env_complete_def)
  have c: "C \<longrightarrow> complete s" using assms(1) by (simp add: here_def)
  note intros = live_if live_ADVANCE [OF assms(1)] live_RECONSUME [OF assms(1)] live_resume [OF assms(1)]
    live_reconsumeData [OF assms(1)] live_keyword [where f = "u_foldCase env" and C = C, OF assms(1) _ _ _ _ f] live_SWITCH live_short
  show ?thesis
    using assms(3)
    by (cases st; simp only: kind.simps token_kind.distinct stepState.simps fresh_blocks)
      (intro intros; (simp add: k c punctuation_nonzero token_ops keywords_fold)?; (erule live_RECONSUME)?)+
qed

lemma live_commitPartial:
  assumes "here C c s" and "c \<noteq> 0" and "st = BeforeAttributeNameState \<or> st = SelfClosingStartTagState"
  shows "live C h (4 * length (toStringSS s) + n) (commitPartial st d t s)"
proof -
  note m = here_moves [OF assms(1)]
  have "4 * length (toStringSS (advanceAndUpdateLineNumber s)) + stateRank st < 4 * length (toStringSS s) + n"
    using m(1) stateRank_le [of st] by simp
  note l = live_SWITCH [OF m(3) _ this]
  show ?thesis
    using m(1) m(5) [OF assms(2)] assms(3) l [of C "flushBufferedEndTag (appendToTemporaryBuffer d (assertTk (currentChar s = d) t))"]
    by (auto simp: commitPartial_def commitToPartialEndTag_def Let_def restRank_def)
      (auto simp: live_def restRank_def haveBufferedCharacterToken_def)
qed

lemma live_commitComplete:
  assumes "here C c s" and "c \<noteq> kEndOfFileMarker"
  shows "live C h (4 * length (toStringSS s) + n) (commitToCompleteEndTag t s)"
  using here_moves [OF assms(1)] assms(2)
  by (auto simp: live_def commitToCompleteEndTag_def flushBufferedEndTag_def restRank_def token_ops Let_def)

lemma live_endName_states:
  assumes "here C c s" and "at_state D E st c t s" and "kind st = EndNameK"
  shows "live C h (4 * length (toStringSS s) + stateRank st) (stepState st env c t s)"
proof -
  note intros = live_if live_ADVANCE [OF assms(1)] live_RECONSUME [OF assms(1)]
    live_commitPartial [OF assms(1)] live_commitComplete [OF assms(1)]
  show ?thesis
    using assms(3)
    by (cases st; simp only: kind.simps token_kind.distinct stepState.simps stateRank.simps endTagNameBlock_def Let_def
          onRCDATAEndTagNameState_def onRAWTEXTEndTagNameState_def onScriptDataEndTagNameState_def
          onScriptDataEscapedEndTagNameState_def)
      (intro intros; simp add: punctuation_nonzero delimiter_ascii)+
qed

lemma reference_step:
  assumes "source_ok s" and "C \<longrightarrow> complete s" and "C \<longrightarrow> env_complete env" and "env_ok env"
  obtains r where "consumeHTMLEntity (entityTable env) a s = Some r" "C \<longrightarrow> \<not> notEnoughCharacters r \<and> complete (afterSource r)"
    "source_ok (afterSource r)" "length (toStringSS (afterSource r)) \<le> length (toStringSS s)" "0 \<notin> set (decoded r)"
proof -
  obtain r n where r: "consumeHTMLEntity (entityTable env) a s = Some r" "moves n s (afterSource r)" "0 \<notin> set (decoded r)"
    using consumeHTMLEntity_ok [OF assms(1)] assms(4) unfolding reference_ok_def env_ok_def by blast
  have "C \<longrightarrow> \<not> notEnoughCharacters r \<and> complete (afterSource r)"
    using reference_complete [of s env a] assms(2,3) r(1) by auto
  from that [OF r(1) this] r show thesis by (auto simp: moves_def)
qed

lemma live_wait:
  assumes "\<not> C" and "haveBufferedCharacterToken t \<longrightarrow> h" and "4 * length (toStringSS s) + stateRank st \<le> m"
    and "st \<noteq> DataState"
  shows "live C h m (RETURN_IN_CURRENT_STATE st (haveBufferedCharacterToken t) t s)"
  using assms by (auto simp: live_def RETURN_IN_CURRENT_STATE_def restRank_def haveBufferedCharacterToken_def)

lemma live_references:
  assumes "here C c s" and "at_state D E st c t s" and "C \<longrightarrow> env_complete env" and "env_ok env"
    and "haveBufferedCharacterToken t \<longrightarrow> h"
    and "st \<in> {CharacterReferenceInDataState, CharacterReferenceInRCDATAState, CharacterReferenceInAttributeValueState}"
  shows "live C h (4 * length (toStringSS s) + stateRank st) (stepState st env c t s)"
proof -
  have c: "C \<longrightarrow> complete s" and so: "source_ok s" using assms(1) by (auto simp: here_def)
  obtain r where r: "consumeHTMLEntity (entityTable env) (if st = CharacterReferenceInAttributeValueState
      then m_additionalAllowedCharacter t else 0) s = Some r"
    "C \<longrightarrow> \<not> notEnoughCharacters r \<and> complete (afterSource r)"
    "source_ok (afterSource r)" "length (toStringSS (afterSource r)) \<le> length (toStringSS s)" "0 \<notin> set (decoded r)"
    by (rule reference_step [OF so c assms(3,4)])
  have "st \<noteq> DataState" using assms(6) by auto
  note a = at_stateE [OF assms(2) this]
  show ?thesis
  proof (cases "st = CharacterReferenceInAttributeValueState")
    case True
    with r show ?thesis
      by (auto simp: onCharacterReferenceInAttributeValueState_def Let_def intro!: live_SWITCH live_wait assms(5))
  next
    case False
    then have k: "kind st = TextK" using assms(6) by auto
    have t: "m_type (m_token t) \<in> {Uninitialized, Character}" "m_bufferedEndTagName t = []"
      using a(6) k by (auto simp: kind_ok_def)
    have "m_bufferedEndTagName (bufferASCIICharacter c_amp t) = []" "m_bufferedEndTagName (fold bufferCharacter (decoded r) t) = []"
      using t fold_bufferCharacter [OF t(1) r(5)] by (auto simp: token_ops)
    moreover have "processEntity env t s = Some
      (if notEnoughCharacters r then (False, t, afterSource r)
       else if \<not> success r then (True, bufferASCIICharacter c_amp t, afterSource r)
       else (True, fold bufferCharacter (decoded r) t, afterSource r))"
      using r(1) False by (simp add: processEntity_def)
    ultimately show ?thesis
      using False assms(6) r(2-4)
      by (auto simp: onCharacterReferenceInDataState_def onCharacterReferenceInRCDATAState_def
          intro!: live_SWITCH live_wait assms(5))
  qed
qed

section \<open>The machine\<close>

lemma stepState_live:
  assumes "here C c s" and "at_state D E st c t s" and "C \<longrightarrow> env_complete env" and "env_ok env"
    and "haveBufferedCharacterToken t \<longrightarrow> h"
  shows "live C h (4 * length (toStringSS s) + stateRank st) (stepState st env c t s)"
proof -
  consider "st = DataState"
    | "st \<in> {CharacterReferenceInDataState, CharacterReferenceInRCDATAState, CharacterReferenceInAttributeValueState}"
    | "kind st = TextK" "st \<notin> {DataState, CharacterReferenceInDataState, CharacterReferenceInRCDATAState}"
    | "kind st = EndNameK" | "kind st = FreshK" | "kind st = TagK" | "kind st = AttrK" | "kind st = CommentK"
    | "kind st \<in> {DoctypeK, PublicK, SystemK}"
    by (cases st) simp_all
  then show ?thesis
  proof cases
    case 1
    then have "m_bufferedEndTagName t = []" using assms(2) by (auto simp: at_state_def good_def kind_ok_def split: if_splits)
    with 1 live_data [OF assms(1) _ assms(5)] show ?thesis by simp
  next
    case 2
    then show ?thesis by (rule live_references [OF assms])
  qed (use assms in \<open>auto intro: live_text_states live_endName_states live_fresh_states live_tag_states
      live_attribute_states live_comment_states live_doctype_states simp del: stepState.simps\<close>)
qed

text \<open>What a call does: it returns a token and the measure has decreased, or it waits for more input.\<close>

definition progresses :: "bool \<Rightarrow> bool \<Rightarrow> nat \<Rightarrow> bool \<Rightarrow> HTMLTokenizer \<Rightarrow> SegmentedString \<Rightarrow> bool" where
  "progresses C h m b t s \<longleftrightarrow> live C h m (Return b t s)"

lemma progresses_mono: "progresses C h m b t s \<Longrightarrow> m < n \<Longrightarrow> progresses C False n b t s"
  by (auto simp: progresses_def live_def split: if_splits)

lemma runStates_live:
  assumes "here C c s" and "at_state D E st c t s" and "C \<longrightarrow> env_complete env" and "env_ok env"
    and "haveBufferedCharacterToken t \<longrightarrow> h" and "4 * length (toStringSS s) + stateRank st < fuel"
  shows "\<exists>b t' s'. runStates fuel env st c t s = Some (b, t', s') \<and> returns_ok D E b t' s'
    \<and> progresses C h (4 * length (toStringSS s) + stateRank st) b t' s'"
  using assms(1,2,5,6)
proof (induction fuel arbitrary: st c t s h)
  case (Suc fuel)
  note o = stepState_ok [OF Suc.prems(2) assms(4)]
  note l = stepState_live [OF Suc.prems(1,2) assms(3,4) Suc.prems(3)]
  show ?case
  proof (cases "stepState st env c t s")
    case (Goto st' c' t' s')
    with o l have g: "here C c' s'" "at_state D E st' c' t' s'"
      "4 * length (toStringSS s') + stateRank st' < 4 * length (toStringSS s) + stateRank st"
      by (auto simp: outcome_ok_def live_def)
    then have "4 * length (toStringSS s') + stateRank st' < fuel" using Suc.prems(4) by linarith
    from Suc.IH [OF g(1,2) _ this, of True] obtain b u v where
      u: "runStates fuel env st' c' t' s' = Some (b, u, v)" "returns_ok D E b u v"
        "progresses C True (4 * length (toStringSS s') + stateRank st') b u v" by auto
    then have "progresses C h (4 * length (toStringSS s) + stateRank st) b u v"
      using progresses_mono [OF u(3) g(3)] by (auto simp: progresses_def live_def split: if_splits)
    with u Goto show ?thesis by simp
  qed (use o l in \<open>auto simp: outcome_ok_def progresses_def\<close>)
qed simp

lemma progresses_le: "progresses C h m b t s \<Longrightarrow> m \<le> n \<Longrightarrow> (h \<longrightarrow> h') \<Longrightarrow> progresses C h' n b t s"
  by (auto simp: progresses_def live_def split: if_splits)

section \<open>One call\<close>

lemma switched_live:
  assumes "src_ok D E s" and "good D (kind (m_state t)) t (numberOfCharactersConsumed s)"
    and "C \<longrightarrow> env_complete env" and "env_ok env" and "C \<longrightarrow> complete s"
  shows "\<exists>b t' s'. (case SWITCH_TO (m_state t) t s of
      Return b t s \<Rightarrow> Some (b, t, s)
    | Goto st c t s \<Rightarrow> runStates (tokenFuel s) env st c t s
    | OutOfFuel \<Rightarrow> None) = Some (b, t', s') \<and> returns_ok D E b t' s'
      \<and> progresses C (haveBufferedCharacterToken t) (4 * length (toStringSS s) + stateRank (m_state t)) b t' s'"
proof -
  have so: "source_ok s" using assms(1) by (simp add: src_ok_def)
  obtain ok p v where pk: "peek (m_forceNullCharacterReplacement t) (isNullCharacterSkippingState (m_state t)) (m_preprocessor t) s
      = Some (ok, p, v)" and v: "length (toStringSS v) \<le> length (toStringSS s)" "ok \<Longrightarrow> here C (m_nextInputCharacter p) v" "C \<longrightarrow> ok"
    using peek_here [OF so assms(5)] by blast
  let ?u = "t\<lparr>m_preprocessor := p\<rparr>" and ?m = "4 * length (toStringSS s) + stateRank (m_state t)"
  have o: "outcome_ok D E (Suc ?m) (SWITCH_TO (m_state t) t s)" by (rule SWITCH_ok [OF assms(1,2)]) simp
  show ?thesis
  proof (cases ok)
    case False
    then have sw: "SWITCH_TO (m_state t) t s = Return (haveBufferedCharacterToken t) ?u v"
      by (simp add: SWITCH_TO_def pk haveBufferedCharacterToken_def)
    have "m_state t = DataState \<Longrightarrow> m_bufferedEndTagName t = []" using assms(2) by (simp add: good_def kind_ok_def)
    then have "progresses C (haveBufferedCharacterToken t) ?m (haveBufferedCharacterToken t) ?u v"
      using False v(1,3) by (auto simp: progresses_def live_def restRank_def haveBufferedCharacterToken_def)
    with o sw show ?thesis by (simp add: outcome_ok_def)
  next
    case True
    then have sw: "SWITCH_TO (m_state t) t s = Goto (m_state t) (m_nextInputCharacter p) ?u v"
      by (simp add: SWITCH_TO_def pk)
    with o have a: "at_state D E (m_state t) (m_nextInputCharacter p) ?u v"
      and le: "4 * length (toStringSS v) + stateRank (m_state t) \<le> ?m" by (auto simp: outcome_ok_def)
    then have "wf_source v" by (simp add: at_state_def src_ok_def source_ok_def)
    then have "4 * length (toStringSS v) + stateRank (m_state t) < tokenFuel v"
      using stateRank_le [of "m_state t"] by (simp add: tokenFuel_def lengthSS_toString)
    from runStates_live [OF v(2) [OF True] a assms(3,4) _ this, of "haveBufferedCharacterToken t"] progresses_le [OF _ le] sw
    show ?thesis by (auto simp: haveBufferedCharacterToken_def)
  qed
qed

lemma processToken_live:
  assumes "tokenizer_ok D E t s" and "C \<longrightarrow> env_complete env" and "env_ok env" and "C \<longrightarrow> complete s"
  shows "\<exists>b t' s'. processToken env t s = Some (b, t', s') \<and> returns_ok D E b t' s'
    \<and> progresses C (haveBufferedCharacterToken t) (restRank t s) b t' s'"
proof -
  have src: "src_ok D E s" using assms(1) by (simp add: tokenizer_ok_def)
  have le: "4 * length (toStringSS s) + stateRank (m_state t) \<le> restRank t s" by (simp add: restRank_def)
  show ?thesis
  proof (cases "flush_pending t (numberOfCharactersConsumed s)")
    case True
    let ?u = "flushBufferedEndTag t"
    have f: "m_bufferedEndTagName t \<noteq> []" "\<not> inEndTagBufferingState t" "m_state ?u = m_state t"
      "m_bufferedEndTagName ?u = []" "m_type (m_token ?u) = EndTag"
      using True by (auto simp: flush_pending_def inEndTagBufferingState_def flushBufferedEndTag_def token_ops)
    have "progresses C h (restRank t s) True ?u s" if "m_state t = DataState" for h
      using that f assms(4) by (simp add: progresses_def live_def restRank_def)
    moreover have "progresses C (haveBufferedCharacterToken ?u) (4 * length (toStringSS s) + stateRank (m_state ?u)) b t' s' \<Longrightarrow>
        progresses C (haveBufferedCharacterToken t) (restRank t s) b t' s'" for b t' s'
      by (erule progresses_le) (use f le in \<open>auto simp: haveBufferedCharacterToken_def\<close>)
    ultimately show ?thesis
      using flush_ok [OF assms(1) True] switched_live [OF src _ assms(2-4), of ?u] f
      unfolding processToken_def Let_def processToken_tail [unfolded Let_def]
      by (cases "m_state t = DataState") fastforce+
  next
    case False
    then have g: "good D (kind (m_state t)) t (numberOfCharactersConsumed s)"
      using assms(1) by (auto simp: tokenizer_ok_def good_def)
    then have "\<not> (m_bufferedEndTagName t \<noteq> [] \<and> \<not> inEndTagBufferingState t)"
      using buffering_EndName [of t "m_state t"] by (auto simp: good_def kind_ok_def)
    then have "processToken env t s =
        (case SWITCH_TO (m_state t) t s of
           Return b t s \<Rightarrow> Some (b, t, s)
         | Goto st c t s \<Rightarrow> runStates (tokenFuel s) env st c t s
         | OutOfFuel \<Rightarrow> None)"
      unfolding processToken_def processToken_tail [symmetric] by (auto simp: Let_def)
    with switched_live [OF src g assms(2-4)] progresses_le [OF _ le] show ?thesis by fastforce
  qed
qed

text \<open>
  What a call of \<open>nextToken\<close> leaves: nothing but a keyword that is too short, the end of the
  file, or a token and less to do.
\<close>

definition tokenMeasure :: "HTMLTokenizer \<Rightarrow> SegmentedString \<Rightarrow> nat" where
  "tokenMeasure t s = 2 * restRank t s + (if haveBufferedCharacterToken t then 1 else 0)"

lemma nextToken_live:
  assumes "tokenizer_ok D E t s" and "C \<longrightarrow> env_complete env" and "env_ok env" and "C \<longrightarrow> complete s"
  obtains (stuck) t' s' where "nextToken env t s = Some (None, t', s')" "tokenizer_ok D E t' s'"
      "C \<longrightarrow> complete s' \<and> waitsForKeyword t' s'"
  | (ended) k t' s' where "nextToken env t s = Some (Some k, t', s')" "m_type k = EndOfFile" "toStringSS s' = []"
      "tokenizer_ok D E (releaseToken (Some k) t') s'" "m_bufferedEndTagName t' = []"
  | (more) k t' s' where "nextToken env t s = Some (Some k, t', s')" "C \<longrightarrow> complete s'" "m_token t' = k"
      "tokenizer_ok D E (releaseToken (Some k) t') s'"
      "tokenMeasure (releaseToken (Some k) t') s' < tokenMeasure t s"
      "m_type k = EndTag \<longrightarrow> m_state t' = DataState"
      "m_type k = StartTag \<longrightarrow> m_state t' = DataState \<and> m_bufferedEndTagName t' = [] \<and>
         tokenMeasure (releaseToken (Some k) t') s' + 2 < tokenMeasure t s"
proof -
  obtain b t' s' where r: "processToken env t s = Some (b, t', s')" "returns_ok D E b t' s'"
    "progresses C (haveBufferedCharacterToken t) (restRank t s) b t' s'"
    using processToken_live [OF assms] by blast
  have m: "tokenMeasure (withToken clearToken t') s' = 2 * restRank t' s'"
    by (simp add: tokenMeasure_def restRank_def token_ops)
  show ?thesis
  proof (cases b)
    case False
    with r show ?thesis by (intro stuck) (auto simp: nextToken_def progresses_def live_def returns_ok_def)
  next
    case True
    show ?thesis
    proof (cases "m_type (m_token t') = EndOfFile \<and> toStringSS s' = [] \<and> m_bufferedEndTagName t' = []")
      case e: True
      with r True show ?thesis by (intro ended) (auto simp: nextToken_def returns_ok_def releaseToken_def)
    next
      case n: False
      with r(3) True have p: "C \<longrightarrow> complete s'"
        "restRank t' s' < restRank t s \<or> haveBufferedCharacterToken t \<and> restRank t' s' \<le> restRank t s"
        "m_type (m_token t') = EndTag \<longrightarrow> m_state t' = DataState"
        "m_type (m_token t') = StartTag \<longrightarrow> m_state t' = DataState \<and> m_bufferedEndTagName t' = [] \<and> restRank t' s' + 2 \<le> restRank t s"
        unfolding progresses_def live_def by auto
      show ?thesis
        by (rule more [of "m_token t'" t' s']) (use r True p m in \<open>auto simp: nextToken_def returns_ok_def releaseToken_def tokenMeasure_def\<close>)
    qed
  qed
qed

end
