(* ===== verification/Tokenizer_Open.thy ===== *)
theory Tokenizer_Open
  imports Tokenizer_Session
begin

text \<open>
  The tokenizer never closes its source: a source that is open before a call of
  \<^verbatim>\<open>nextToken\<close> is open after it, so the client may append to it.
\<close>

definition keeps :: "SegmentedString \<Rightarrow> outcome \<Rightarrow> bool" where
  "keeps s r \<longleftrightarrow>
     (case r of
        OutOfFuel \<Rightarrow> True
      | Goto st c t s' \<Rightarrow> m_closed s' = m_closed s
      | Return b t s' \<Rightarrow> m_closed s' = m_closed s)"

lemma keeps_if: "(b \<Longrightarrow> keeps s x) \<Longrightarrow> (\<not> b \<Longrightarrow> keeps s y) \<Longrightarrow> keeps s (if b then x else y)"
  by simp

lemma keeps_peeked:
  assumes "source_ok s'" and "m_closed s' = m_closed s"
  shows "keeps s
    (case peek nsk sk p s' of
       None \<Rightarrow> OutOfFuel
     | Some (ok, p, s) \<Rightarrow>
         let t = t\<lparr>m_preprocessor := p\<rparr> in
         if \<not> ok then Return (haveBufferedCharacterToken t) (t\<lparr>m_state := st\<rparr>) s
         else Goto st (m_nextInputCharacter p) t s)"
proof -
  obtain ok q u where "peek nsk sk p s' = Some (ok, q, u)" "meets_contract (nsk \<or> \<not> sk) (m_skipNextNewLine p) s' (ok, q, u)"
    using peek_ok [OF assms(1), of nsk sk p] by (metis prod_cases3)
  with assms(2) show ?thesis by (auto simp: keeps_def meets_contract_def Let_def)
qed

lemma keeps_SWITCH: "source_ok s' \<Longrightarrow> m_closed s' = m_closed s \<Longrightarrow> keeps s (SWITCH_TO st t s')"
  unfolding SWITCH_TO_def by (rule keeps_peeked)

lemma closed_moves: "moves n s t \<Longrightarrow> m_closed t = m_closed s"
  by (simp add: moves_def)

lemma keeps_ADVANCE:
  assumes "source_ok s'" and "\<not> isEmpty s'" and "m_closed s' = m_closed s"
  shows "keeps s (ADVANCE_TO st t s')"
  unfolding ADVANCE_TO_def advancePreprocessor_def
  by (rule keeps_peeked) (use moves_advanceLine [OF assms(1,2)] assms(3) in \<open>auto simp: moves_def\<close>)

lemma keeps_return:
  "keeps s (RECONSUME_IN st c t s)" "keeps s (emitAndReconsumeInDataState t s)" "keeps s (RETURN_IN_CURRENT_STATE st b t s)"
  by (simp_all add: keeps_def RECONSUME_IN_def emitAndReconsumeInDataState_def RETURN_IN_CURRENT_STATE_def)

lemma keeps_emit:
  assumes "source_ok s" and "\<not> isEmpty s"
  shows "keeps s (emitAndResumeInDataState t s)" "keeps s (emitEndOfFile t s)" "keeps s (commitToCompleteEndTag t s)"
    "keeps s (commitPartial st d t s)"
proof -
  note m = moves_advanceLine [OF assms] moves_advance [OF assms]
  note c = closed_moves [OF m(1)] closed_moves [OF m(2)]
  show "keeps s (emitAndResumeInDataState t s)" "keeps s (emitEndOfFile t s)" "keeps s (commitToCompleteEndTag t s)"
    by (simp_all add: keeps_def emitAndResumeInDataState_def emitEndOfFile_def commitToCompleteEndTag_def c Let_def)
  have "source_ok (advanceAndUpdateLineNumber s)" using m(1) by (simp add: moves_def)
  from keeps_SWITCH [OF this c(1)] show "keeps s (commitPartial st d t s)"
    by (simp add: commitPartial_def commitToPartialEndTag_def Let_def) (simp add: keeps_def c)
qed

lemma keeps_keyword:
  assumes "source_ok s" and "\<not> isEmpty s"
    and "\<And>s'. source_ok s' \<Longrightarrow> m_closed s' = m_closed s \<Longrightarrow> keeps s (matched s')" and "keeps s (short s)"
    and "\<And>s'. source_ok s' \<Longrightarrow> m_closed s' = m_closed s \<Longrightarrow> \<not> isEmpty s' \<Longrightarrow> keeps s (other s')"
  shows "keeps s
    (case advancePast f lit b s of
       (DidMatch, s) \<Rightarrow> matched s | (NotEnoughCharacters, s) \<Rightarrow> short s | (DidNotMatch, s) \<Rightarrow> other s)"
proof -
  obtain r s' where r: "advancePast f lit b s = (r, s')" by (metis surj_pair)
  show ?thesis
  proof (rule advancePast_cases [OF assms(1) r])
    assume n: "r = DidNotMatch" "source_ok s'" "toStringSS s' = toStringSS s" "m_closed s' = m_closed s"
    have "isEmpty s' = isEmpty s" using src.atEnd_iff [OF n(2)] src.atEnd_iff [OF assms(1)] n(3) by metis
    with assms(2,5) n r show ?thesis by simp
  qed (use assms(3,4) r in simp_all)
qed

lemma keeps_RECONSUME: "m_closed s' = m_closed s \<Longrightarrow> keeps s (RECONSUME_IN st c t s')"
  by (simp add: keeps_def RECONSUME_IN_def)

lemma keeps_references:
  assumes "source_ok s"
    and "st \<in> {CharacterReferenceInDataState, CharacterReferenceInRCDATAState, CharacterReferenceInAttributeValueState}"
  shows "keeps s (stepState st env c t s)"
proof -
  have "\<exists>r. consumeHTMLEntity (entityTable env) a s = Some r \<and> source_ok (afterSource r) \<and> m_closed (afterSource r) = m_closed s" for a
    using consumeHTMLEntity_ok [OF assms(1), of "entityTable env" a] by (auto simp: reference_ok_def moves_def)
  then obtain r r' where r: "consumeHTMLEntity (entityTable env) 0 s = Some r" "source_ok (afterSource r)"
      "m_closed (afterSource r) = m_closed s"
    and r': "consumeHTMLEntity (entityTable env) (m_additionalAllowedCharacter t) s = Some r'" "source_ok (afterSource r')"
      "m_closed (afterSource r') = m_closed s" by meson
  have w: "keeps s (RETURN_IN_CURRENT_STATE st b u v)" if "m_closed v = m_closed s" for st b u v
    using that by (simp add: keeps_def RETURN_IN_CURRENT_STATE_def)
  obtain ok t' where "processEntity env t s = Some (ok, t', afterSource r)"
    using r(1) by (cases "notEnoughCharacters r"; cases "success r") (auto simp: processEntity_def)
  with assms(2) r r' show ?thesis
    by (auto simp: onCharacterReferenceInDataState_def onCharacterReferenceInRCDATAState_def
        onCharacterReferenceInAttributeValueState_def Let_def intro!: keeps_SWITCH w)
qed

lemma stepState_keeps:
  assumes "source_ok s" and "\<not> isEmpty s"
  shows "keeps s (stepState st env c t s)"
proof (cases "st \<in> {CharacterReferenceInDataState, CharacterReferenceInRCDATAState, CharacterReferenceInAttributeValueState}")
  case True
  then show ?thesis by (rule keeps_references [OF assms(1)])
next
  case False
  note adv = keeps_ADVANCE [OF assms refl]
  note kw = keeps_keyword [OF assms]
  note intros = keeps_if adv keeps_return keeps_emit [OF assms] kw keeps_SWITCH keeps_ADVANCE keeps_RECONSUME
  show ?thesis
    using False
    by (cases st; simp only: stepState.simps comment_blocks doctype_blocks fresh_blocks tag_blocks text_blocks
          onDataState_def endTagNameBlock_def onRCDATAEndTagNameState_def onRAWTEXTEndTagNameState_def
          onScriptDataEndTagNameState_def onScriptDataEscapedEndTagNameState_def Let_def insert_iff simp_thms)
      (intro intros; assumption?)+
qed

lemma runStates_keeps:
  assumes "at_state D E st c t s" and "env_ok env" and "runStates n env st c t s = Some (b, t', s')"
  shows "m_closed s' = m_closed s"
  using assms(1,3)
proof (induction n arbitrary: st c t s)
  case (Suc n)
  note o = stepState_ok [OF Suc.prems(1) assms(2)]
  have "keeps s (stepState st env c t s)"
    by (rule stepState_keeps) (use Suc.prems(1) in \<open>auto simp: at_state_def src_ok_def\<close>)
  with o Suc show ?case by (cases "stepState st env c t s") (auto simp: keeps_def outcome_ok_def)
qed simp

lemma nextToken_keeps:
  assumes "tokenizer_ok D E t s" and "env_ok env" and "nextToken env t s = Some (k, t', s')"
  shows "m_closed s' = m_closed s"
proof -
  have src: "src_ok D E s" and so: "source_ok s" using assms(1) by (auto simp: tokenizer_ok_def src_ok_def)
  have sw: "m_closed v = m_closed s" if "good D (kind (m_state u)) u (numberOfCharactersConsumed s)"
    "(case SWITCH_TO (m_state u) u s of
        Return b t s \<Rightarrow> Some (b, t, s)
      | Goto st c t s \<Rightarrow> runStates (tokenFuel s) env st c t s
      | OutOfFuel \<Rightarrow> None) = Some (b, w, v)" for u b w v
    using SWITCH_ok [OF src that(1), of "Suc (4 * length (toStringSS s) + stateRank (m_state u))"] that(2)
      keeps_SWITCH [OF so refl, of "m_state u" u] runStates_keeps [OF _ assms(2)]
    by (cases "SWITCH_TO (m_state u) u s") (auto simp: keeps_def outcome_ok_def)
  obtain b where p: "processToken env t s = Some (b, t', s')" using assms(3) by (auto simp: nextToken_def split: option.splits)
  show ?thesis
  proof (cases "flush_pending t (numberOfCharactersConsumed s)")
    case True
    then have f: "m_bufferedEndTagName t \<noteq> []" "\<not> inEndTagBufferingState t" "m_state (flushBufferedEndTag t) = m_state t"
      by (auto simp: flush_pending_def inEndTagBufferingState_def flushBufferedEndTag_def withToken_def)
    show ?thesis
    proof (cases "m_state (flushBufferedEndTag t) = DataState")
      case True
      with p f show ?thesis by (simp add: processToken_def Let_def)
    next
      case False
      with p f flush_ok [OF assms(1) True] sw [of "flushBufferedEndTag t"] show ?thesis
        unfolding processToken_def Let_def processToken_tail [unfolded Let_def] by auto
    qed
  next
    case False
    then have g: "good D (kind (m_state t)) t (numberOfCharactersConsumed s)"
      using assms(1) by (auto simp: tokenizer_ok_def good_def)
    then have "\<not> (m_bufferedEndTagName t \<noteq> [] \<and> \<not> inEndTagBufferingState t)"
      using buffering_EndName [of t "m_state t"] by (auto simp: good_def kind_ok_def)
    with p sw [OF g] show ?thesis
      unfolding processToken_def Let_def processToken_tail [unfolded Let_def] by auto
  qed
qed

end
