(* ===== verification/Token_Clients.thy ===== *)
theory Token_Clients
  imports Tokenizer_Progress Tokenizer_Open Input_Stream_Refine
begin

text \<open>
  The loops over \<^verbatim>\<open>nextToken\<close>: \<^verbatim>\<open>HTMLPreloadScanner\<close> of \<^verbatim>\<open>html/parser/HTMLPreloadScanner.cpp\<close>, which
  reads ahead of a blocked parser, and the fragment parser of \<^verbatim>\<open>html/parser/HTMLDocumentParser.cpp\<close>
  (\<^verbatim>\<open>parseDocumentFragment\<close>, the code behind \<^verbatim>\<open>innerHTML\<close>).

  \<open>tokenLoop\<close> is the loop they share; its body is the client's and returns whether it leaves the
  loop, the tokenizer after the \<^verbatim>\<open>TokenPtr\<close> is gone, and the client's own state. The locale
  \<open>token_client\<close> is the contract between the two: a body clears the token and does
  nothing else to the tokenizer but the calls of its interface. Under it every loop
  ends, and on a complete source it ends with the end-of-file token.

  The tree builder is not modelled; it is the parameter \<open>tree\<close>. A fragment parser runs no
  scripts, never stops and never yields (\<^verbatim>\<open>canTakeNextToken\<close> is true for it), so its \<^verbatim>\<open>pumpTokenizer\<close>
  is the loop alone.
\<close>

section \<open>The loop\<close>

type_synonym 'b body = "HTMLToken \<Rightarrow> SegmentedString \<Rightarrow> HTMLTokenizer \<Rightarrow> 'b \<Rightarrow> bool \<times> HTMLTokenizer \<times> 'b"

fun tokenLoop ::
  "nat \<Rightarrow> html_env \<Rightarrow> 'b body \<Rightarrow> HTMLTokenizer \<Rightarrow> SegmentedString \<Rightarrow> 'b \<Rightarrow>
   (HTMLToken list \<times> bool \<times> HTMLTokenizer \<times> SegmentedString \<times> 'b) option" where
  "tokenLoop 0 env body t s b = None"
| "tokenLoop (Suc n) env body t s b =
     (case nextToken env t s of
        None \<Rightarrow> None
      | Some (None, t, s) \<Rightarrow> Some ([], False, t, s, b)
      | Some (Some k, t, s) \<Rightarrow>
          (case body k s t b of
             (stop, t, b) \<Rightarrow>
               if stop then Some ([k], True, t, s, b)
               else case tokenLoop n env body t s b of
                      None \<Rightarrow> None
                    | Some (ks, r) \<Rightarrow> Some (k # ks, r)))"

text \<open>Enough fuel: every token takes at least one unit of \<open>tokenMeasure\<close>.\<close>

definition loopFuel :: "SegmentedString \<Rightarrow> nat" where
  "loopFuel s = 8 * nat (lengthSS s) + 16"

section \<open>The preload scanner\<close>

record HTMLPreloadScanner =
  m_source :: SegmentedString
  m_tokenizer :: HTMLTokenizer

definition newPreloadScanner :: "HTMLParserOptions \<Rightarrow> HTMLPreloadScanner" where
  "newPreloadScanner options = \<lparr>m_source = emptySegmentedString, m_tokenizer = newTokenizer options\<rparr>"

definition appendToScanner :: "SegmentedString \<Rightarrow> HTMLPreloadScanner \<Rightarrow> HTMLPreloadScanner" where
  "appendToScanner source p = p\<lparr>m_source := appendSS source (m_source p)\<rparr>"

definition scanBody :: "unit body" where
  "scanBody k s t b =
     (let t = (if m_type k = StartTag then updateStateFor (m_data k) t else t)
      in (False, releaseToken (Some k) t, b))"

text \<open>The tokens go to \<^verbatim>\<open>TokenPreloadScanner::scan\<close>, which has no access to the tokenizer.\<close>

definition scan :: "html_env \<Rightarrow> HTMLPreloadScanner \<Rightarrow> (HTMLToken list \<times> HTMLPreloadScanner) option" where
  "scan env p =
     (case tokenLoop (loopFuel (m_source p)) env scanBody (m_tokenizer p) (m_source p) () of
        None \<Rightarrow> None
      | Some (ks, _, t, s, _) \<Rightarrow> Some (ks, p\<lparr>m_source := s, m_tokenizer := t\<rparr>))"

fun scanChunks :: "html_env \<Rightarrow> wtf_string list \<Rightarrow> HTMLPreloadScanner \<Rightarrow> (HTMLToken list \<times> HTMLPreloadScanner) option" where
  "scanChunks env [] p = Some ([], p)"
| "scanChunks env (x # xs) p =
     (case scan env (appendToScanner (segmentedStringOf x) p) of
        None \<Rightarrow> None
      | Some (ks, p) \<Rightarrow>
          (case scanChunks env xs p of None \<Rightarrow> None | Some (ls, p) \<Rightarrow> Some (ks @ ls, p)))"

section \<open>The fragment parser\<close>

type_synonym 'b builder = "HTMLToken \<Rightarrow> HTMLTokenizer \<Rightarrow> 'b \<Rightarrow> HTMLTokenizer \<times> 'b"

record 'b fragment_parser =
  m_input :: HTMLInputStream
  m_fragmentTokenizer :: HTMLTokenizer
  m_treeBuilder :: 'b

definition constructTreeFromHTMLToken :: "'b builder \<Rightarrow> 'b body" where
  "constructTreeFromHTMLToken tree k s t b =
     (let t = (if m_type k \<noteq> Character then releaseToken (Some k) t else t);
          (t, b) = tree k t b
      in (False, if m_type k \<noteq> Character then t else releaseToken (Some k) t, b))"

definition pumpTokenizer ::
  "html_env \<Rightarrow> 'b builder \<Rightarrow> 'b fragment_parser \<Rightarrow> (HTMLToken list \<times> 'b fragment_parser) option" where
  "pumpTokenizer env tree p =
     (case tokenLoop (loopFuel (m_first (m_input p))) env (constructTreeFromHTMLToken tree) (m_fragmentTokenizer p)
             (m_first (m_input p)) (m_treeBuilder p) of
        None \<Rightarrow> None
      | Some (ks, _, t, s, b) \<Rightarrow>
          Some (ks, p\<lparr>m_input := (m_input p)\<lparr>m_first := s\<rparr>, m_fragmentTokenizer := t, m_treeBuilder := b\<rparr>))"

text \<open>\<open>contextElement\<close> is the local name of the context element when that is an HTML element.\<close>

definition newFragmentParser :: "HTMLParserOptions \<Rightarrow> uchar list option \<Rightarrow> 'b \<Rightarrow> 'b fragment_parser" where
  "newFragmentParser options contextElement b =
     \<lparr>m_input = newInputStream,
      m_fragmentTokenizer =
        (case contextElement of None \<Rightarrow> newTokenizer options | Some name \<Rightarrow> updateStateFor name (newTokenizer options)),
      m_treeBuilder = b\<rparr>"

definition insertText ::
  "html_env \<Rightarrow> 'b builder \<Rightarrow> SegmentedString \<Rightarrow> 'b fragment_parser \<Rightarrow> (HTMLToken list \<times> 'b fragment_parser) option" where
  "insertText env tree source p = pumpTokenizer env tree (p\<lparr>m_input := insertWritten source (m_input p)\<rparr>)"

text \<open>
  Outside a pump session and without scripts \<^verbatim>\<open>shouldDelayEnd\<close> is false, so \<^verbatim>\<open>attemptToEnd\<close> goes on to
  \<^verbatim>\<open>prepareToStopParsing\<close>, which pumps once more; for the same reason \<^verbatim>\<open>endIfDelayed\<close> at the end of
  \<^verbatim>\<open>insert\<close> does nothing. What \<^verbatim>\<open>prepareToStopParsing\<close> does after that concerns the document and the tree
  builder only.
\<close>

definition finishParsing ::
  "html_env \<Rightarrow> 'b builder \<Rightarrow> 'b fragment_parser \<Rightarrow> (HTMLToken list \<times> 'b fragment_parser) option" where
  "finishParsing env tree p =
     (case haveSeenEndOfFile (m_input p) of
        None \<Rightarrow> None
      | Some seen \<Rightarrow>
          (case (if seen then Some (m_input p) else markEndOfFile (m_input p)) of
             None \<Rightarrow> None
           | Some input \<Rightarrow> pumpTokenizer env tree (p\<lparr>m_input := input\<rparr>)))"

definition parseDocumentFragment ::
  "html_env \<Rightarrow> 'b builder \<Rightarrow> HTMLParserOptions \<Rightarrow> uchar list option \<Rightarrow> wtf_string \<Rightarrow> 'b \<Rightarrow>
   (HTMLToken list \<times> 'b fragment_parser) option" where
  "parseDocumentFragment env tree options contextElement source b =
     (case insertText env tree (segmentedStringOf source) (newFragmentParser options contextElement b) of
        None \<Rightarrow> None
      | Some (ks, p) \<Rightarrow>
          (case finishParsing env tree p of None \<Rightarrow> None | Some (ls, p) \<Rightarrow> Some (ks @ ls, p)))"

section \<open>The contract of a client\<close>

definition switchedTo :: "State \<Rightarrow> HTMLToken \<Rightarrow> HTMLTokenizer \<Rightarrow> bool" where
  "switchedTo st k t \<longleftrightarrow>
     st = m_state t \<or> m_type k = EndTag \<and> st = DataState \<or>
     m_type k = StartTag \<and> st \<in> {DataState, RCDATAState, RAWTEXTState, ScriptDataState, PLAINTEXTState}"

lemma nextToken_empty:
  assumes "toStringSS s = []" and "source_ok s" and "m_bufferedEndTagName t = []" and "m_type (m_token t) = Uninitialized"
  shows "\<exists>t'. nextToken env t s = Some (None, t', s)"
proof -
  have "isEmpty s" using assms(1,2) by (simp add: src.atEnd_iff)
  then show ?thesis
    using assms(3,4) by (auto simp: nextToken_def processToken_def peek_def haveBufferedCharacterToken_def Let_def)
qed

lemma tokenMeasure_fuel:
  assumes "source_ok s"
  shows "tokenMeasure t s + 1 < loopFuel s"
proof -
  have "nat (lengthSS s) = length (toStringSS s)" using assms by (simp add: source_ok_def lengthSS_toString)
  then show ?thesis using stateRank_le [of "m_state t"] by (simp add: tokenMeasure_def restRank_def loopFuel_def)
qed

locale token_client =
  fixes body :: "'b body"
  assumes answer: "m_token t = k \<Longrightarrow>
    \<exists>stop a c st b'. body k s t b =
      (stop, (releaseToken (Some k) t)\<lparr>m_state := st, m_shouldAllowCDATA := a, m_forceNullCharacterReplacement := c\<rparr>, b')
      \<and> switchedTo st k t"
begin

lemma body_ok:
  assumes "tokenizer_ok D E (releaseToken (Some k) t) s" and "m_token t = k"
    and "m_type k = EndTag \<longrightarrow> m_state t = DataState"
    and "m_type k = StartTag \<longrightarrow> m_state t = DataState \<and> m_bufferedEndTagName t = []"
  obtains stop t' b' where "body k s t b = (stop, t', b')" "tokenizer_ok D E t' s"
    "m_type (m_token t') = Uninitialized" "m_bufferedEndTagName t' = m_bufferedEndTagName t"
    "tokenMeasure t' s \<le> tokenMeasure (releaseToken (Some k) t) s + (if m_type k = StartTag then 2 else 0)"
proof -
  obtain stop a c st b' where b: "body k s t b =
      (stop, (releaseToken (Some k) t)\<lparr>m_state := st, m_shouldAllowCDATA := a, m_forceNullCharacterReplacement := c\<rparr>, b')"
    and st: "switchedTo st k t" using answer [OF assms(2)] by blast
  let ?t = "(releaseToken (Some k) t)\<lparr>m_state := st, m_shouldAllowCDATA := a, m_forceNullCharacterReplacement := c\<rparr>"
  have same: "st = m_state t \<or> m_type k = StartTag \<and> kind st = TextK \<and> stateRank st \<le> 1"
    using st assms(3) by (auto simp: switchedTo_def)
  have "tokenizer_ok D E ?t s"
  proof (cases "st = m_state t")
    case True
    with assms(1) show ?thesis
      by (auto simp: tokenizer_ok_def releaseToken_def withToken_def flush_pending_def)
  next
    case False
    with same assms(1,4) show ?thesis
      by (auto simp: tokenizer_ok_def releaseToken_def withToken_def kind_ok_def flush_pending_def clearToken_def)
  qed
  moreover have "tokenMeasure ?t s \<le> tokenMeasure (releaseToken (Some k) t) s + (if m_type k = StartTag then 2 else 0)"
    using same assms(4) by (auto simp: tokenMeasure_def restRank_def releaseToken_def token_ops)
  ultimately show thesis using that [OF b] by (simp add: releaseToken_def token_ops)
qed

lemma loop_runs:
  assumes "tokenizer_ok D E t s" and "C \<longrightarrow> env_complete env" and "env_ok env" and "C \<longrightarrow> complete s"
    and "tokenMeasure t s + 1 < n"
  shows "\<exists>ks stop t' s' b'. tokenLoop n env body t s b = Some (ks, stop, t', s', b') \<and> tokenizer_ok D E t' s'
    \<and> m_closed s' = m_closed s \<and> (C \<and> \<not> stop \<longrightarrow>
        ks \<noteq> [] \<and> m_type (last ks) = EndOfFile \<and> toStringSS s' = [] \<or> complete s' \<and> waitsForKeyword t' s')"
  using assms(1,4,5)
proof (induction n arbitrary: t s b)
  case (Suc n)
  note closed = nextToken_keeps [OF Suc.prems(1) assms(3)]
  show ?case
  proof (cases rule: nextToken_live [OF Suc.prems(1) assms(2,3) Suc.prems(2), case_names stuck ended more])
    case (stuck t' s')
    then show ?thesis using closed by auto
  next
    case (ended k t' s')
    have tk: "m_token t' = k" using ended(1) by (auto simp: nextToken_def split: option.splits if_splits)
    obtain stop u b' where u: "body k s' t' b = (stop, u, b')" "tokenizer_ok D E u s'"
      "m_type (m_token u) = Uninitialized" "m_bufferedEndTagName u = []"
      by (rule body_ok [OF ended(4) tk, of b]) (use ended(2,5) in auto)
    obtain v where v: "nextToken env u s' = Some (None, v, s')"
      using nextToken_empty [OF ended(3) _ u(4,3)] u(2) by (auto simp: tokenizer_ok_def src_ok_def)
    moreover have "tokenizer_ok D E v s'" using nextToken_ok [OF u(2) assms(3)] v by (auto simp: releaseToken_def)
    moreover obtain n' where "n = Suc n'" using Suc.prems(3) by (cases n) auto
    ultimately show ?thesis using ended u closed by auto
  next
    case (more k t' s')
    obtain stop u b' where u: "body k s' t' b = (stop, u, b')" "tokenizer_ok D E u s'"
      "tokenMeasure u s' \<le> tokenMeasure (releaseToken (Some k) t') s' + (if m_type k = StartTag then 2 else 0)"
      by (rule body_ok [OF more(4,3), of b]) (use more(6,7) in auto)
    with more(5,7) have "tokenMeasure u s' < tokenMeasure t s" by (auto split: if_splits)
    with Suc.prems(3) have "tokenMeasure u s' + 1 < n" by simp
    then obtain ks stop' v w b'' where l: "tokenLoop n env body u s' b' = Some (ks, stop', v, w, b'')"
      "tokenizer_ok D E v w" "m_closed w = m_closed s'" "C \<and> \<not> stop' \<longrightarrow>
        ks \<noteq> [] \<and> m_type (last ks) = EndOfFile \<and> toStringSS w = [] \<or> complete w \<and> waitsForKeyword v w"
      using Suc.IH [OF u(2) more(2), of b'] by blast
    show ?thesis
    proof (cases stop)
      case True
      with more(1) u(1,2) closed show ?thesis by auto
    next
      case False
      with more(1) u(1) l have "tokenLoop (Suc n) env body t s b = Some (k # ks, stop', v, w, b'')" by simp
      with l(2-4) closed [OF more(1)] show ?thesis by auto
    qed
  qed
qed simp

end

section \<open>The clients meet the contract\<close>

lemma clearToken_commutes [simp]:
  "releaseToken (Some k) (updateStateFor name t) = updateStateFor name (releaseToken (Some k) t)"
  by (simp add: releaseToken_def withToken_def updateStateFor_def)

lemma updateStateFor_switches:
  "\<exists>st. updateStateFor name t = t\<lparr>m_state := st\<rparr> \<and> st \<in> {m_state t, RCDATAState, RAWTEXTState, ScriptDataState, PLAINTEXTState}"
  unfolding updateStateFor_def by (auto intro: exI [of _ "m_state t"])

lemma answer_switch:
  assumes "x = (stop, (releaseToken (Some k) t)\<lparr>m_state := st\<rparr>, b')" and "switchedTo st k t"
  shows "\<exists>stop a c st b'. x =
      (stop, (releaseToken (Some k) t)\<lparr>m_state := st, m_shouldAllowCDATA := a, m_forceNullCharacterReplacement := c\<rparr>, b')
      \<and> switchedTo st k t"
  by (rule exI [of _ stop], rule exI [of _ "m_shouldAllowCDATA t"], rule exI [of _ "m_forceNullCharacterReplacement t"],
      rule exI [of _ st], rule exI [of _ b']) (use assms in \<open>simp add: releaseToken_def withToken_def\<close>)

lemma release_keeps [simp]: "(releaseToken (Some k) t)\<lparr>m_state := m_state t\<rparr> = releaseToken (Some k) t"
  by (simp add: releaseToken_def withToken_def)

lemma updateStateFor_answer:
  assumes "m_type k = StartTag"
  shows "\<exists>st. updateStateFor (m_data k) (releaseToken (Some k) t) = (releaseToken (Some k) t)\<lparr>m_state := st\<rparr> \<and> switchedTo st k t"
  using updateStateFor_switches [of "m_data k" "releaseToken (Some k) t"] assms
  by (auto simp: switchedTo_def releaseToken_def withToken_def)

interpretation scanner: token_client scanBody
proof
  fix t :: HTMLTokenizer and k s b
  assume "m_token t = k"
  show "\<exists>stop a c st b'. scanBody k s t b =
      (stop, (releaseToken (Some k) t)\<lparr>m_state := st, m_shouldAllowCDATA := a, m_forceNullCharacterReplacement := c\<rparr>, b')
      \<and> switchedTo st k t"
  proof (cases "m_type k = StartTag")
    case True
    then obtain st where st: "updateStateFor (m_data k) (releaseToken (Some k) t) = (releaseToken (Some k) t)\<lparr>m_state := st\<rparr>"
      "switchedTo st k t" using updateStateFor_answer by blast
    with True show ?thesis by (intro answer_switch [where stop = False, OF _ st(2)]) (simp add: scanBody_def)
  next
    case False
    then show ?thesis by (intro answer_switch [where st = "m_state t"]) (simp_all add: scanBody_def switchedTo_def)
  qed
qed

text \<open>
  What the tree builder may do to the tokenizer: the calls of \<^verbatim>\<open>HTMLTreeBuilder.cpp\<close> are
  \<^verbatim>\<open>setForceNullCharacterReplacement\<close> and \<^verbatim>\<open>setShouldAllowCDATA\<close> after every token, one of
  \<^verbatim>\<open>setPLAINTEXTState\<close>, \<^verbatim>\<open>setRCDATAState\<close>, \<^verbatim>\<open>setRAWTEXTState\<close> and \<^verbatim>\<open>setScriptDataState\<close> at a start
  tag, and \<^verbatim>\<open>setDataState\<close> at an end tag.
\<close>

definition builder_ok :: "'b builder \<Rightarrow> bool" where
  "builder_ok tree \<longleftrightarrow>
     (\<forall>k t b. \<exists>u. fst (tree k t b) \<in> {setForceNullCharacterReplacement a (setShouldAllowCDATA c u) | a c. True} \<and>
        (u = t \<or> m_type k = EndTag \<and> u = setDataState t \<or>
         m_type k = StartTag \<and> u \<in> {setPLAINTEXTState t, setRCDATAState t, setRAWTEXTState t, setScriptDataState t}))"

lemma builder_client:
  assumes "builder_ok tree"
  shows "token_client (constructTreeFromHTMLToken tree)"
proof
  fix t :: HTMLTokenizer and k s b
  assume "m_token t = k"
  let ?r = "releaseToken (Some k) t"
  define v where "v = (if m_type k \<noteq> Character then ?r else t)"
  obtain u a c where u: "fst (tree k v b) = setForceNullCharacterReplacement a (setShouldAllowCDATA c u)"
    "u = v \<or> m_type k = EndTag \<and> u = setDataState v \<or>
         m_type k = StartTag \<and> u \<in> {setPLAINTEXTState v, setRCDATAState v, setRAWTEXTState v, setScriptDataState v}"
    using assms unfolding builder_ok_def by blast
  then have sw: "\<exists>st. u = v\<lparr>m_state := st\<rparr> \<and> switchedTo st k t"
    by (auto simp: v_def switchedTo_def setPLAINTEXTState_def setRCDATAState_def setRAWTEXTState_def
        setScriptDataState_def setDataState_def releaseToken_def withToken_def intro: exI [of _ "m_state t"])
  have "releaseToken (Some k) (v\<lparr>m_state := st, m_shouldAllowCDATA := c, m_forceNullCharacterReplacement := a\<rparr>)
      = ?r\<lparr>m_state := st, m_shouldAllowCDATA := c, m_forceNullCharacterReplacement := a\<rparr>" if "v = t" for st
    using that by (simp add: releaseToken_def withToken_def)
  with sw u(1) show "\<exists>stop a c st b'. constructTreeFromHTMLToken tree k s t b =
      (stop, ?r\<lparr>m_state := st, m_shouldAllowCDATA := a, m_forceNullCharacterReplacement := c\<rparr>, b') \<and> switchedTo st k t"
    by (cases "tree k v b"; cases "m_type k = Character")
      (auto simp: constructTreeFromHTMLToken_def v_def setForceNullCharacterReplacement_def setShouldAllowCDATA_def)
qed

section \<open>The preload scanner returns\<close>

lemma tokenizer_ok_later:
  assumes "tokenizer_ok D E t s" and "source_ok s'" and "numberOfCharactersConsumed s \<le> numberOfCharactersConsumed s'"
  shows "tokenizer_ok False False t s'"
  using assms by (auto simp: tokenizer_ok_def src_ok_def flush_pending_def intro: kind_ok_mono)

lemma emptySource_ok: "source_ok emptySegmentedString" "numberOfCharactersConsumed emptySegmentedString = 0"
  "\<not> m_closed emptySegmentedString"
  using emptySegmentedString_source
  by (simp_all add: numberOfCharactersConsumed_def emptySegmentedString_def emptySubstring_def
      numberOfCharactersConsumedSub_def stringLength_def pushedCount_def)

lemma newTokenizer_ok:
  assumes "kind st = TextK" and "source_ok s" and "0 \<le> numberOfCharactersConsumed s"
  shows "tokenizer_ok False False ((newTokenizer options)\<lparr>m_state := st\<rparr>) s"
  using assms by (simp add: tokenizer_ok_def src_ok_def newTokenizer_def newToken_def kind_ok_def)

definition scanner_ok :: "HTMLPreloadScanner \<Rightarrow> bool" where
  "scanner_ok p \<longleftrightarrow> tokenizer_ok False False (m_tokenizer p) (m_source p) \<and> \<not> m_closed (m_source p)"

lemma new_scanner_ok: "scanner_ok (newPreloadScanner options)"
  using newTokenizer_ok [of DataState emptySegmentedString options] emptySource_ok
  by (simp add: scanner_ok_def newPreloadScanner_def newTokenizer_def)

lemma scan_ok:
  assumes "scanner_ok p" and "env_ok env"
  shows "\<exists>ks p'. scan env p = Some (ks, p') \<and> scanner_ok p'"
proof -
  have t: "tokenizer_ok False False (m_tokenizer p) (m_source p)" and so: "source_ok (m_source p)"
    using assms(1) by (auto simp: scanner_ok_def tokenizer_ok_def src_ok_def)
  from so have "tokenMeasure (m_tokenizer p) (m_source p) + 1 < loopFuel (m_source p)"
    by (rule tokenMeasure_fuel)
  from scanner.loop_runs [OF t _ assms(2) _ this, where C = False and b = "()"] assms(1) show ?thesis
    by (auto simp: scan_def scanner_ok_def)
qed

lemma appendToScanner_ok:
  assumes "scanner_ok p"
  shows "scanner_ok (appendToScanner (segmentedStringOf x) p)"
proof -
  have o: "source_ok (m_source p)" "\<not> m_closed (m_source p)"
    using assms by (auto simp: scanner_ok_def tokenizer_ok_def src_ok_def)
  note a = append_source_ok [OF o(1) source_ok_substrings [OF source_of(1)] o(2), of x]
  from assms tokenizer_ok_later [OF _ a(1,5)] a(4) show ?thesis
    by (auto simp: scanner_ok_def appendToScanner_def)
qed

text \<open>
  C5: the preload scanner's loop over the tokenizer always ends, whatever text it is given and however
  the text is cut into chunks.
\<close>

theorem scan_returns:
  assumes "env_ok env"
  shows "\<exists>ks p. scanChunks env xs (newPreloadScanner options) = Some (ks, p)"
proof -
  have "\<exists>ks p'. scanChunks env xs p = Some (ks, p')" if "scanner_ok p" for p
    using that
  proof (induction xs arbitrary: p)
    case (Cons x xs)
    obtain ks p' where "scan env (appendToScanner (segmentedStringOf x) p) = Some (ks, p')" "scanner_ok p'"
      using scan_ok [OF appendToScanner_ok [OF Cons.prems] assms] by blast
    with Cons.IH [of p'] show ?case by auto
  qed simp
  with new_scanner_ok show ?thesis by blast
qed

theorem scan_returns_witness:
  "\<exists>ks p. scanChunks exampleEnv [WString True (ascii ''<title>a<b''), WString True (ascii ''></title><i'')]
     (newPreloadScanner exampleOptions) = Some (ks, p)"
  by (rule scan_returns [OF exampleEnv_ok])

section \<open>The fragment parser ends\<close>

lemma never_stops:
  "tokenLoop n env (constructTreeFromHTMLToken tree) t s b = Some (ks, stop, t', s', b') \<Longrightarrow> \<not> stop"
  by (induction n arbitrary: t s b ks)
    (auto simp: constructTreeFromHTMLToken_def Let_def split: option.splits prod.splits if_splits)

lemma pump_runs:
  assumes "builder_ok tree" and "tokenizer_ok False False (m_fragmentTokenizer p) (m_first (m_input p))"
    and "C \<longrightarrow> env_complete env" and "env_ok env" and "C \<longrightarrow> complete (m_first (m_input p))"
  obtains ks t s b where
    "pumpTokenizer env tree p =
       Some (ks, p\<lparr>m_input := (m_input p)\<lparr>m_first := s\<rparr>, m_fragmentTokenizer := t, m_treeBuilder := b\<rparr>)"
    "tokenizer_ok False False t s" "m_closed s = m_closed (m_first (m_input p))"
    "C \<longrightarrow> ks \<noteq> [] \<and> m_type (last ks) = EndOfFile \<and> toStringSS s = [] \<or> complete s \<and> waitsForKeyword t s"
proof -
  let ?s = "m_first (m_input p)" and ?t = "m_fragmentTokenizer p" and ?body = "constructTreeFromHTMLToken tree"
  have "source_ok ?s" using assms(2) by (simp add: tokenizer_ok_def src_ok_def)
  then have "tokenMeasure ?t ?s + 1 < loopFuel ?s"
    by (rule tokenMeasure_fuel)
  from token_client.loop_runs [OF builder_client [OF assms(1)] assms(2-5) this]
  obtain ks stop t s b where l: "tokenLoop (loopFuel ?s) env ?body ?t ?s (m_treeBuilder p) = Some (ks, stop, t, s, b)"
    "tokenizer_ok False False t s" "m_closed s = m_closed ?s"
    "C \<and> \<not> stop \<longrightarrow> ks \<noteq> [] \<and> m_type (last ks) = EndOfFile \<and> toStringSS s = [] \<or> complete s \<and> waitsForKeyword t s"
    by blast
  have "\<not> stop" using l(1) by (rule never_stops)
  with that l show thesis by (auto simp: pumpTokenizer_def)
qed

lemma contextTokenizer_ok:
  assumes "source_ok s" and "0 \<le> numberOfCharactersConsumed s"
  shows "tokenizer_ok False False (m_fragmentTokenizer (newFragmentParser options contextElement b)) s"
proof (cases contextElement)
  case None
  with newTokenizer_ok [of DataState s options] assms show ?thesis
    by (simp add: newFragmentParser_def newTokenizer_def)
next
  case (Some name)
  obtain st where st: "kind st = TextK" "updateStateFor name (newTokenizer options) = (newTokenizer options)\<lparr>m_state := st\<rparr>"
    using updateStateFor_state [of "newTokenizer options" name] by (auto simp: newTokenizer_def)
  with newTokenizer_ok [OF st(1) assms] Some show ?thesis by (simp add: newFragmentParser_def)
qed

lemma inserted_ok:
  "source_ok (m_first (insertWritten (segmentedStringOf x) newInputStream))"
  "0 \<le> numberOfCharactersConsumed (m_first (insertWritten (segmentedStringOf x) newInputStream))"
  "\<not> m_closed (m_first (insertWritten (segmentedStringOf x) newInputStream))"
  "m_last (insertWritten (segmentedStringOf x) newInputStream) = PtrFirst"
proof -
  have "copySegmentedString (segmentedStringOf x) = segmentedStringOf x"
    by (rule copy_reload) (use source_of(1) [of x] in \<open>auto simp: source_ok_def wf_source_def\<close>)
  moreover note sub = source_ok_substrings [OF source_of(1) [of x]]
  note a = append_source_ok [OF emptySource_ok(1) exclude_substrings(1) [OF sub(1)] _ emptySource_ok(3)]
  ultimately show "source_ok (m_first (insertWritten (segmentedStringOf x) newInputStream))"
    "0 \<le> numberOfCharactersConsumed (m_first (insertWritten (segmentedStringOf x) newInputStream))"
    "\<not> m_closed (m_first (insertWritten (segmentedStringOf x) newInputStream))"
    "m_last (insertWritten (segmentedStringOf x) newInputStream) = PtrFirst"
    using a sub(2) emptySource_ok(2)
    by (simp_all add: insertWritten_def insertAtCurrentInsertionPoint_def newInputStream_def exclude_substrings(2))
qed

lemma marked_complete:
  assumes "source_ok s" and "\<not> m_closed s"
  shows "complete (closeSS (appendSS (segmentedStringOf (WString True [kEndOfFileMarker])) s))"
    and "numberOfCharactersConsumed s \<le> numberOfCharactersConsumed (closeSS (appendSS (segmentedStringOf (WString True [kEndOfFileMarker])) s))"
  using append_source_ok [OF assms(1) source_ok_substrings [OF source_of(1)] assms(2), of "WString True [kEndOfFileMarker]"]
  by (auto simp: complete_def source_of)

lemma finish_ends:
  assumes "builder_ok tree" and "env_complete env" and "tokenizer_ok False False (m_fragmentTokenizer p) (m_first (m_input p))"
    and "\<not> m_closed (m_first (m_input p))" and "m_last (m_input p) = PtrFirst"
  shows "\<exists>ks p'. finishParsing env tree p = Some (ks, p') \<and>
    (ks \<noteq> [] \<and> m_type (last ks) = EndOfFile \<and> toStringSS (m_first (m_input p')) = []
     \<or> waitsForKeyword (m_fragmentTokenizer p') (m_first (m_input p')))"
proof -
  let ?e = "closeSS (appendSS (segmentedStringOf (WString True [kEndOfFileMarker])) (m_first (m_input p)))"
  let ?q = "p\<lparr>m_input := (m_input p)\<lparr>m_first := ?e\<rparr>\<rparr>"
  have so: "source_ok (m_first (m_input p))" using assms(3) by (simp add: tokenizer_ok_def src_ok_def)
  note e = marked_complete [OF so assms(4)]
  have "source_ok ?e" using e(1) by (simp add: complete_def)
  then have tok: "tokenizer_ok False False (m_fragmentTokenizer ?q) (m_first (m_input ?q))"
    using tokenizer_ok_later [OF assms(3) _ e(2)] by simp
  have env: "True \<longrightarrow> env_complete env" "env_ok env" using assms(2) by (auto simp: env_complete_def)
  have fin: "finishParsing env tree p = pumpTokenizer env tree ?q"
    using assms(4,5)
    by (simp add: finishParsing_def haveSeenEndOfFile_def lastString_def markEndOfFile_def updateLast_def isClosed_def)
  have e': "True \<longrightarrow> complete (m_first (m_input ?q))" using e(1) by simp
  show ?thesis
    by (rule pump_runs [OF assms(1) tok env e']) (auto simp: fin)
qed

text \<open>
  C2: parsing a fragment always comes to an end, and the last token the tree builder receives is the
  end-of-file token, with no input left, except when the input ends inside a markup declaration:
  then the tokenizer waits, with fewer than seven characters left, for a keyword that can no
  longer come.
\<close>

theorem fragment_ends:
  assumes "env_complete env" and "builder_ok tree"
  shows "\<exists>ks p. parseDocumentFragment env tree options contextElement source b = Some (ks, p) \<and>
    (ks \<noteq> [] \<and> m_type (last ks) = EndOfFile \<and> toStringSS (m_first (m_input p)) = []
     \<or> waitsForKeyword (m_fragmentTokenizer p) (m_first (m_input p)))"
proof -
  let ?i = "insertWritten (segmentedStringOf source) newInputStream"
  let ?n = "newFragmentParser options contextElement b"
  have env: "env_ok env" using assms(1) by (simp add: env_complete_def)
  note i = inserted_ok [of source]
  have "tokenizer_ok False False (m_fragmentTokenizer (?n\<lparr>m_input := ?i\<rparr>)) (m_first (m_input (?n\<lparr>m_input := ?i\<rparr>)))"
    using contextTokenizer_ok [OF i(1,2)] by simp
  then obtain ks t s b' where one: "insertText env tree (segmentedStringOf source) ?n =
       Some (ks, ?n\<lparr>m_input := ?i\<lparr>m_first := s\<rparr>, m_fragmentTokenizer := t, m_treeBuilder := b'\<rparr>)"
    and t: "tokenizer_ok False False t s" "\<not> m_closed s"
    by (rule pump_runs [OF assms(2) _ _ env, where C = False])
      (use i(3) in \<open>auto simp: insertText_def newFragmentParser_def\<close>)
  let ?p = "?n\<lparr>m_input := ?i\<lparr>m_first := s\<rparr>, m_fragmentTokenizer := t, m_treeBuilder := b'\<rparr>"
  from finish_ends [OF assms(2,1), of ?p] t i(4) one show ?thesis by (auto simp: parseDocumentFragment_def)
qed

definition recordingTree :: "HTMLToken list builder" where
  "recordingTree k t b =
     (setForceNullCharacterReplacement False (setShouldAllowCDATA False
        (if m_type k = StartTag \<and> m_data k = ascii ''title'' then setRCDATAState t else t)), b @ [k])"

lemma recordingTree_ok: "builder_ok recordingTree"
  unfolding builder_ok_def
proof (intro allI)
  fix k :: HTMLToken and t :: HTMLTokenizer and b
  let ?u = "if m_type k = StartTag \<and> m_data k = ascii ''title'' then setRCDATAState t else t"
  show "\<exists>u. fst (recordingTree k t b) \<in> {setForceNullCharacterReplacement a (setShouldAllowCDATA c u) | a c. True} \<and>
        (u = t \<or> m_type k = EndTag \<and> u = setDataState t \<or>
         m_type k = StartTag \<and> u \<in> {setPLAINTEXTState t, setRCDATAState t, setRAWTEXTState t, setScriptDataState t})"
    by (rule exI [of _ ?u]) (auto simp: recordingTree_def)
qed

lemma exampleEnv_complete: "env_complete exampleEnv"
  using exampleEnv_ok exampleTable_ok
  by (auto simp: env_complete_def exampleEnv_def) (auto simp: exampleTable_def ascii_def)

theorem fragment_ends_witness:
  "\<exists>ks p. parseDocumentFragment exampleEnv recordingTree exampleOptions (Some (ascii ''div''))
      (WString True (ascii ''<title>a&amp;b</title>'')) [] = Some (ks, p) \<and>
    (ks \<noteq> [] \<and> m_type (last ks) = EndOfFile \<and> toStringSS (m_first (m_input p)) = []
     \<or> waitsForKeyword (m_fragmentTokenizer p) (m_first (m_input p)))"
  by (rule fragment_ends [OF exampleEnv_complete recordingTree_ok])


end
