(* ===== verification/Spec2Isabelle.thy ===== *)
theory Spec2Isabelle
  imports Source_Properties Tokenizer_Session Input_Stream_Refine Text_Codec_Properties Text_Codec_Bounds
    Token_Clients
begin

text \<open>
  Verification of the HTML input pipeline of WebCore, the engine of the Odyssey Web Browser
  (\<^verbatim>\<open>src/Source/WebCore\<close>, with the parts of \<^verbatim>\<open>src/Source/WTF\<close> it uses).

  \<^bold>\<open>The program.\<close> Bytes of a document are decoded chunk by chunk into strings
  (\<^verbatim>\<open>platform/text/TextCodecUTF8\<close>). The strings are collected, without being joined, in a
  \<^verbatim>\<open>SegmentedString\<close> (\<^verbatim>\<open>platform/text/SegmentedString\<close>), a queue of substrings that knows the
  current line and column and can take characters back. \<^verbatim>\<open>HTMLInputStream\<close>
  (\<^verbatim>\<open>html/parser/HTMLInputStream.h\<close>) stacks such strings so that \<^verbatim>\<open>document.write\<close> can insert text at
  the point where a script runs. \<^verbatim>\<open>InputStreamPreprocessor\<close> normalises newlines and null characters
  on the way to the \<^verbatim>\<open>HTMLTokenizer\<close>, a state machine that is suspended whenever the input
  runs out and that fills an \<^verbatim>\<open>HTMLToken\<close>; it calls the character reference parser
  (\<^verbatim>\<open>xml/parser/CharacterReferenceParserInlines.h\<close>, \<^verbatim>\<open>html/parser/HTMLEntityParser.cpp\<close>), which
  searches the entity table (\<^verbatim>\<open>HTMLEntitySearch.cpp\<close>). Clients loop over \<^verbatim>\<open>nextToken\<close>: the fragment
  parser behind \<^verbatim>\<open>innerHTML\<close> (\<^verbatim>\<open>HTMLDocumentParser.cpp\<close>) and the preload scanner
  (\<^verbatim>\<open>HTMLPreloadScanner.cpp\<close>).

  \<^bold>\<open>The model.\<close> One definition per member function, under the name of the source.

  \<^item> \<open>Prelude\<close>: code units, \<^verbatim>\<open>wtf/ASCIICType.h\<close>, \<^verbatim>\<open>StringImpl\<close> with its 8-bit flag, UTF-16.
  \<^item> \<open>Segmented_String\<close>: \<^verbatim>\<open>SegmentedSubstring\<close> and \<^verbatim>\<open>SegmentedString\<close> with their pushed-back
    characters and the pointers to member functions that select an advance routine.
  \<^item> \<open>Html_Input_Stream\<close>: \<^verbatim>\<open>HTMLInputStream\<close>, its pointer \<^verbatim>\<open>m_last\<close>, \<^verbatim>\<open>InsertionPointRecord\<close>.
  \<^item> \<open>Input_Preprocessor\<close>, \<open>Tokenizer_State\<close>, \<open>Html_Token\<close>, \<open>Html_Tokenizer\<close>: the
    preprocessor, the states, the token, and the state machine, one definition per \<^verbatim>\<open>BEGIN_STATE\<close>
    block.
  \<^item> \<open>Char_Reference\<close>: the reference parser, the entity search and the entity table.
  \<^item> \<open>Text_Codec_UTF8\<close>: decoding with the partial sequence, the 8-bit and the 16-bit
    part and the word-wise ASCII path, and encoding.
  \<^item> \<open>Token_Clients\<close>: the loop over \<^verbatim>\<open>nextToken\<close>, the preload scanner, the fragment parser.

  A record models an object; a method is a function that returns the updated record. An \<^verbatim>\<open>ASSERT\<close> does
  not change the run: it is conjoined to a ghost field (\<open>assertsHold\<close>, \<open>tokenAsserts\<close>,
  \<open>tokenizerAsserts\<close>), as every read through a data pointer is to
  \<open>readsInBounds\<close>. Code units are \<open>16 word\<close>, bytes \<open>8 word\<close>, code points of numeric references
  \<open>32 word\<close>; the line, column and length counters of the source (\<^verbatim>\<open>int\<close>) are unbounded.

  \<^bold>\<open>The theorems.\<close>

  \<^item> \<open>Input_Stream\<close> is the interface of a character source, a locale; \<open>Segmented_String_Refine\<close>
    interprets it twice, for \<^verbatim>\<open>advance\<close> and \<^verbatim>\<open>advanceAndUpdateLineNumber\<close>, so that the
    segmentation is invisible to clients. \<open>Source_Properties\<close>: concatenation, copy, unread,
    keyword matching, lines and columns. \<open>Input_Stream_Refine\<close>: the input stream
    refines a stack of texts, and an insertion point gives the position back.
  \<^item> \<open>Preprocessor_Refine\<close>: the delivered characters are a function of the text alone.
    \<open>Entity_Search_Refine\<close>: the search finds what a linear scan finds.
    \<open>Char_Reference_Refine\<close>: longest match, numeric references, failure consumes nothing.
  \<^item> \<open>Tokenizer_Invariant\<close> and \<open>Tokenizer_Blocks\<close>: each state expects a kind of token, every
    block keeps that and decreases a measure. \<open>Tokenizer_Session\<close>: every call of
    \<^verbatim>\<open>nextToken\<close> returns and no assertion fails, in every session with a client.
    \<open>Tokenizer_Open\<close>: the tokenizer does not close its source. \<open>Tokenizer_Progress\<close>: each
    token brings the end of the file nearer. \<open>Token_Clients\<close>: the loops of the
    clients end, by the locale \<open>token_client\<close>, the contract of a loop body.
  \<^item> \<open>Text_Codec_Refine\<close>, \<open>Utf8_Forms\<close>, \<open>Text_Codec_Properties\<close>, \<open>Text_Codec_Bounds\<close>: the decoder accepts
    exactly the well-formed sequences, decodes a document as the reference does,
    independently of the chunks where it can, inverts the encoder, and writes
    within its buffers.

  \<^bold>\<open>Fuel.\<close> A run of the state machine gets \<open>tokenFuel\<close>, four units for each pending character (the
  measure is four times the pending characters plus a rank of at most three); a token
  loop gets \<open>loopFuel\<close>, eight units for each character and sixteen more; the reference parser and the
  entity search one unit for each character; a call of the decoder at most two rounds over
  each part. In each case a theorem shows that the result is never \<open>None\<close>.

  \<^bold>\<open>Parameters.\<close> The entity table is generated at build time: \<open>table_ok\<close> says that it is sorted
  and its index right, \<open>env_ok\<close> and \<open>env_complete\<close> that no name and no expansion contains a null
  character. ICU's \<^verbatim>\<open>u_foldCase\<close> is assumed to leave the null character alone where that is needed. The
  tree builder is a parameter of the fragment parser; \<open>builder_ok\<close> lists the calls it makes on
  the tokenizer.

  \<^bold>\<open>Not modelled.\<close> The tree builder and the construction site, since they build DOM nodes; of
  \<^verbatim>\<open>HTMLDocumentParser\<close> script execution, yielding, source tracking and the XSS auditor, which depend on
  frames, loaders and the script engine; \<^verbatim>\<open>TokenPreloadScanner\<close>, which issues network requests;
  the other text codecs; the XML instance of the reference parser; memory allocation, so
  that the encoder's crash on overflow of its buffer size is absent. JavaScriptCore, WebKit
  and WebKit2 are outside this pipeline.
\<close>

end
